(* ===== verification/Effects.thy ===== *)
theory Effects
  imports Main "HOL-Library.Word"
begin

text \<open>
  Prelude of the development: how a C function that calls into libraries is written as a HOL
  function, and the rules by which such functions are reasoned about.

  A program is a function of its environment (everything that is not code of the repository:
  libibverbs, librdmacm, the operating system) and of the calls made so far with their answers.
  It returns how it ended together with the calls it made itself, in order.  Answers may depend on
  the whole history, so a theorem for every environment covers every behaviour of the libraries.
\<close>

section \<open>Outcomes and programs\<close>

text \<open>
  \<open>Ret\<close> is a normal return, \<open>Exit\<close> a call of \<^verbatim>\<open>exit\<close> with that status, \<open>UB\<close> an access the C
  standard gives no meaning (an index outside an array, an uninitialised read), and \<open>Hang\<close> a loop
  whose fuel is used up.  The calls made until then are kept in every case.
\<close>

datatype 'a outcome = Ret 'a | Exit int | UB | Hang

type_synonym ('v, 'e, 'a) prog = "'v \<Rightarrow> 'e list \<Rightarrow> 'a outcome \<times> 'e list"

definition ret :: "'a \<Rightarrow> ('v, 'e, 'a) prog" where
  "ret a = (\<lambda>v h. (Ret a, []))"

definition halt :: "int \<Rightarrow> ('v, 'e, 'a) prog" where
  "halt n = (\<lambda>v h. (Exit n, []))"

definition undef :: "('v, 'e, 'a) prog" where
  "undef = (\<lambda>v h. (UB, []))"

definition hang :: "('v, 'e, 'a) prog" where
  "hang = (\<lambda>v h. (Hang, []))"

text \<open>Sequencing: the second part runs only after a normal return, from the longer history.\<close>

definition bnd :: "('v, 'e, 'a) prog \<Rightarrow> ('a \<Rightarrow> ('v, 'e, 'b) prog) \<Rightarrow> ('v, 'e, 'b) prog" where
  "bnd m f = (\<lambda>v h. case m v h of
     (Ret a, es) \<Rightarrow> (case f a v (h @ es) of (r, es') \<Rightarrow> (r, es @ es'))
   | (Exit n, es) \<Rightarrow> (Exit n, es)
   | (UB, es) \<Rightarrow> (UB, es)
   | (Hang, es) \<Rightarrow> (Hang, es))"

definition seq :: "('v, 'e, 'a) prog \<Rightarrow> ('v, 'e, 'b) prog \<Rightarrow> ('v, 'e, 'b) prog" where
  "seq m n = bnd m (\<lambda>_. n)"

subsection \<open>Monad laws\<close>

lemma bnd_ret [simp]: "bnd (ret a) f = f a"
  by (simp add: bnd_def ret_def fun_eq_iff split: prod.splits)

lemma bnd_halt [simp]: "bnd (halt n) f = halt n"
  by (simp add: bnd_def halt_def)

lemma bnd_undef [simp]: "bnd undef f = undef"
  by (simp add: bnd_def undef_def)

lemma bnd_hang [simp]: "bnd hang f = hang"
  by (simp add: bnd_def hang_def)

lemma bnd_ret_right [simp]: "bnd m ret = m"
  by (simp add: bnd_def ret_def fun_eq_iff split: prod.splits outcome.splits)

lemma bnd_assoc: "bnd (bnd m f) g = bnd m (\<lambda>a. bnd (f a) g)"
  by (simp add: bnd_def fun_eq_iff split: prod.splits outcome.splits)

lemma run_simps:
  "ret a v h = (Ret a, [])"
  "halt n v h = (Exit n, [])"
  "undef v h = (UB, [])"
  "hang v h = (Hang, [])"
  by (simp_all add: ret_def halt_def undef_def hang_def)

lemma run_eq [simp]:
  "ret a v h = (r, es) \<longleftrightarrow> r = Ret a \<and> es = []"
  "halt n v h = (r1, es) \<longleftrightarrow> r1 = Exit n \<and> es = []"
  "undef v h = (r2, es) \<longleftrightarrow> r2 = UB \<and> es = []"
  "hang v h = (r3, es) \<longleftrightarrow> r3 = Hang \<and> es = []"
  by (auto simp: run_simps)

text \<open>Inversion: a sequence that returned is two parts that returned.\<close>

lemma bnd_eq_Ret:
  "bnd m f v h = (Ret b, es) \<longleftrightarrow>
   (\<exists>a es1 es2. m v h = (Ret a, es1) \<and> f a v (h @ es1) = (Ret b, es2) \<and> es = es1 @ es2)"
  by (auto simp: bnd_def split: prod.splits outcome.splits)

lemma bnd_RetE:
  assumes "bnd m f v h = (Ret b, es)"
  obtains a es1 es2 where "m v h = (Ret a, es1)" "f a v (h @ es1) = (Ret b, es2)" "es = es1 @ es2"
  using assms by (auto simp: bnd_eq_Ret)

lemma bnd_Ret: "m v h = (Ret a, es1) \<Longrightarrow> f a v (h @ es1) = (r, es2) \<Longrightarrow> bnd m f v h = (r, es1 @ es2)"
  by (simp add: bnd_def)

lemma seq_eq_Ret:
  "seq m n v h = (Ret b, es) \<longleftrightarrow>
   (\<exists>a es1 es2. m v h = (Ret a, es1) \<and> n v (h @ es1) = (Ret b, es2) \<and> es = es1 @ es2)"
  by (simp add: seq_def bnd_eq_Ret)

section \<open>Monitors: a contract on the sequence of calls\<close>

text \<open>
  A monitor reads the calls one by one.  It keeps a state (\<open>Live\<close>), or it has seen the environment
  break its documented promise (\<open>Breach\<close>: nothing more is asked of the program), or it has seen
  the program break the contract of the call it makes (\<open>Misuse\<close>).
\<close>

datatype 's verdict = Live 's | Breach | Misuse

primrec mon_run :: "('s \<Rightarrow> 'e \<Rightarrow> 's verdict) \<Rightarrow> 's \<Rightarrow> 'e list \<Rightarrow> 's verdict" where
  "mon_run \<delta> s [] = Live s"
| "mon_run \<delta> s (e # es) =
     (case \<delta> s e of Live s' \<Rightarrow> mon_run \<delta> s' es | Breach \<Rightarrow> Breach | Misuse \<Rightarrow> Misuse)"

lemma mon_run_append:
  "mon_run \<delta> s (es @ es') =
     (case mon_run \<delta> s es of Live s' \<Rightarrow> mon_run \<delta> s' es' | Breach \<Rightarrow> Breach | Misuse \<Rightarrow> Misuse)"
  by (induction es arbitrary: s) (auto split: verdict.splits)

text \<open>What is asked of a verdict: never \<open>Misuse\<close>, and \<open>P\<close> of the state where the monitor is live.\<close>

fun fair :: "('s \<Rightarrow> bool) \<Rightarrow> 's verdict \<Rightarrow> bool" where
  "fair P (Live s) = P s"
| "fair P Breach = True"
| "fair P Misuse = False"

lemma fair_if [simp]: "fair P (if b then x else y) = (if b then fair P x else fair P y)"
  by simp

text \<open>
  \<open>obeys \<delta> v m s Q\<close>: run from any history, with the monitor in state \<open>s\<close>, the program \<open>m\<close> keeps to
  the contract, and \<open>Q\<close> holds of its outcome and of the monitor's state at its end.  It speaks of
  every outcome, so also of the calls made before an exit or in a loop that never ends.
\<close>

definition obeys ::
  "('s \<Rightarrow> 'e \<Rightarrow> 's verdict) \<Rightarrow> 'v \<Rightarrow> ('v, 'e, 'a) prog \<Rightarrow> 's \<Rightarrow> ('a outcome \<Rightarrow> 's \<Rightarrow> bool) \<Rightarrow> bool"
  where
  "obeys \<delta> v m s Q \<longleftrightarrow> (\<forall>h. fair (Q (fst (m v h))) (mon_run \<delta> s (snd (m v h))))"

text \<open>How the rest of a sequence continues after the first part ended with this outcome.\<close>

fun after :: "('a \<Rightarrow> 's \<Rightarrow> bool) \<Rightarrow> ('b outcome \<Rightarrow> 's \<Rightarrow> bool) \<Rightarrow> 'a outcome \<Rightarrow> 's \<Rightarrow> bool" where
  "after K Q (Ret a) s = K a s"
| "after K Q (Exit n) s = Q (Exit n) s"
| "after K Q UB s = Q UB s"
| "after K Q Hang s = Q Hang s"

named_theorems obeys_rules \<open>Hoare rules for programs under a monitor\<close>

lemma obeys_ret [simp]: "obeys \<delta> v (ret a) s Q \<longleftrightarrow> Q (Ret a) s"
  by (simp add: obeys_def ret_def)

lemma obeys_halt [simp]: "obeys \<delta> v (halt n) s Q \<longleftrightarrow> Q (Exit n) s"
  by (simp add: obeys_def halt_def)

lemma obeys_undef [simp]: "obeys \<delta> v undef s Q \<longleftrightarrow> Q UB s"
  by (simp add: obeys_def undef_def)

lemma obeys_hang [simp]: "obeys \<delta> v hang s Q \<longleftrightarrow> Q Hang s"
  by (simp add: obeys_def hang_def)

lemma obeys_bnd [obeys_rules]:
  assumes "obeys \<delta> v m s (after (\<lambda>a s'. obeys \<delta> v (f a) s' Q) Q)"
  shows "obeys \<delta> v (bnd m f) s Q"
  unfolding obeys_def
proof
  fix h
  obtain r es where m: "m v h = (r, es)" by fastforce
  have 1: "fair (after (\<lambda>a s'. obeys \<delta> v (f a) s' Q) Q r) (mon_run \<delta> s es)"
    using assms m by (auto simp: obeys_def dest: spec [where x = h])
  show "fair (Q (fst (bnd m f v h))) (mon_run \<delta> s (snd (bnd m f v h)))"
  proof (cases r)
    case (Ret a)
    obtain r' es' where f: "f a v (h @ es) = (r', es')" by fastforce
    show ?thesis
      using 1 Ret m f
      by (cases "mon_run \<delta> s es")
        (auto simp: bnd_def mon_run_append obeys_def dest: spec [where x = "h @ es"])
  qed (use 1 m in \<open>cases "mon_run \<delta> s es"; simp add: bnd_def\<close>)+
qed

lemma obeys_seq [obeys_rules]:
  assumes "obeys \<delta> v m s (after (\<lambda>a s'. obeys \<delta> v n s' Q) Q)"
  shows "obeys \<delta> v (seq m n) s Q"
  unfolding seq_def by (rule obeys_bnd) (rule assms)

lemma obeys_weaken:
  assumes "obeys \<delta> v m s P" and "\<And>r s'. P r s' \<Longrightarrow> Q r s'"
  shows "obeys \<delta> v m s Q"
  unfolding obeys_def
proof
  fix h
  have "fair (P (fst (m v h))) (mon_run \<delta> s (snd (m v h)))"
    using assms(1) by (simp add: obeys_def)
  then show "fair (Q (fst (m v h))) (mon_run \<delta> s (snd (m v h)))"
    using assms(2) by (cases "mon_run \<delta> s (snd (m v h))") auto
qed

lemma obeys_if [obeys_rules]:
  "(b \<Longrightarrow> obeys \<delta> v m s Q) \<Longrightarrow> (\<not> b \<Longrightarrow> obeys \<delta> v n s Q) \<Longrightarrow> obeys \<delta> v (if b then m else n) s Q"
  by simp

text \<open>The closed form a theorem about a whole run uses.\<close>

lemma obeysD:
  "obeys \<delta> v m s Q \<Longrightarrow> m v h = (r, es) \<Longrightarrow> fair (Q r) (mon_run \<delta> s es)"
  by (metis fst_conv obeys_def snd_conv)

section \<open>Counted loops\<close>

text \<open>A \<^verbatim>\<open>for\<close> loop whose body does not change the loop variable or the bound.\<close>

fun for_each :: "'a list \<Rightarrow> ('a \<Rightarrow> ('v, 'e, unit) prog) \<Rightarrow> ('v, 'e, unit) prog" where
  "for_each [] f = ret ()"
| "for_each (x # xs) f = seq (f x) (for_each xs f)"

lemma obeys_for_each:
  assumes "\<And>x s'. x \<in> set xs \<Longrightarrow> I s' \<Longrightarrow> obeys \<delta> v (f x) s' (after (\<lambda>_. I) Q)"
    and "\<And>s'. I s' \<Longrightarrow> Q (Ret ()) s'"
  shows "I s \<Longrightarrow> obeys \<delta> v (for_each xs f) s Q"
  using assms
proof (induction xs arbitrary: s)
  case Nil
  then show ?case by simp
next
  case (Cons x xs)
  have "obeys \<delta> v (f x) s (after (\<lambda>_. I) Q)"
    using Cons.prems by simp
  then have "obeys \<delta> v (f x) s (after (\<lambda>_ s'. obeys \<delta> v (for_each xs f) s' Q) Q)"
  proof (rule obeys_weaken)
    fix r s'
    assume "after (\<lambda>_. I) Q r s'"
    then show "after (\<lambda>_ s'. obeys \<delta> v (for_each xs f) s' Q) Q r s'"
      using Cons.IH [of s'] Cons.prems by (cases r) simp_all
  qed
  then show ?case by (simp add: obeys_seq)
qed

text \<open>The rule for a body that leaves the monitor as it was.\<close>

lemma obeys_for_each_same:
  assumes "\<And>x. x \<in> set xs \<Longrightarrow> obeys \<delta> v (f x) s (after (\<lambda>_ s'. s' = s) Q)" "Q (Ret ()) s"
  shows "obeys \<delta> v (for_each xs f) s Q"
  using assms by (intro obeys_for_each [where I = "\<lambda>s'. s' = s"]) auto

text \<open>What a finished loop has done, when each round is known to have done \<open>k x\<close>.\<close>

lemma for_each_trace:
  assumes "\<And>x h es. x \<in> set xs \<Longrightarrow> f x v h = (Ret (), es) \<Longrightarrow> T es = k x"
    and "T [] = []" "\<And>es es'. T (es @ es') = T es @ T es'"
  shows "for_each xs f v h = (Ret (), es) \<Longrightarrow> T es = concat (map k xs)"
  using assms(1)
  by (induction xs arbitrary: h es) (auto simp: assms(2,3) seq_eq_Ret)

text \<open>The same when each round is only known to do one thing of a kind.\<close>

lemma for_each_each:
  assumes "\<And>x h es. x \<in> set xs \<Longrightarrow> f x v h = (Ret (), es) \<Longrightarrow> \<exists>y. T es = [y] \<and> P y"
    and "T [] = []" "\<And>es es'. T (es @ es') = T es @ T es'"
  shows "for_each xs f v h = (Ret (), es) \<Longrightarrow> length (T es) = length xs \<and> list_all P (T es)"
  using assms(1)
proof (induction xs arbitrary: h es)
  case (Cons x xs)
  then obtain es1 es2 where "f x v h = (Ret (), es1)" "for_each xs f v (h @ es1) = (Ret (), es2)"
    "es = es1 @ es2"
    by (auto simp: seq_eq_Ret)
  with Cons.IH [of "h @ es1" es2] Cons.prems(2) [of x h es1] Cons.prems(2) show ?case
    by (fastforce simp: assms(3))
qed (simp add: assms(2))

text \<open>A loop that threads the variables it changes through its rounds.\<close>

fun thread :: "('a \<Rightarrow> 's \<Rightarrow> ('v, 'e, 's) prog) \<Rightarrow> 'a list \<Rightarrow> 's \<Rightarrow> ('v, 'e, 's) prog" where
  "thread f [] s = ret s"
| "thread f (x # xs) s = bnd (f x s) (thread f xs)"

lemma obeys_thread_same:
  fixes f :: "'a \<Rightarrow> 's \<Rightarrow> ('v, 'e, 's) prog"
  assumes "\<And>x s. x \<in> set xs \<Longrightarrow> obeys \<delta> v (f x s) t (after (\<lambda>_ t'. t' = t) Q)" "\<And>s. Q (Ret s) t"
  shows "obeys \<delta> v (thread f xs s) t Q"
  using assms(1)
proof (induction xs arbitrary: s)
  case (Cons x xs)
  have "obeys \<delta> v (f x s) t (after (\<lambda>s' t'. obeys \<delta> v (thread f xs s') t' Q) Q)"
  proof (rule obeys_weaken [OF Cons.prems [of x s]])
    fix r :: "'s outcome" and t'
    assume "after (\<lambda>_ t'. t' = t) Q r t'"
    then show "after (\<lambda>s' t'. obeys \<delta> v (thread f xs s') t' Q) Q r t'"
      using Cons by (cases r) simp_all
  qed simp
  then show ?case by (simp add: obeys_bnd)
qed (simp add: assms(2))

section \<open>Footprints\<close>

text \<open>\<open>only P m\<close>: whatever the environment does, every call of \<open>m\<close> satisfies \<open>P\<close>.\<close>

definition only :: "('e \<Rightarrow> bool) \<Rightarrow> ('v, 'e, 'a) prog \<Rightarrow> bool" where
  "only P m \<longleftrightarrow> (\<forall>v h. list_all P (snd (m v h)))"

named_theorems only_rules \<open>footprints of composed programs\<close>

lemma only_leaf [only_rules]:
  "only P (ret a)" "only P (halt n)" "only P undef" "only P hang"
  by (simp_all add: only_def run_simps)

lemma only_bnd [only_rules]: "only P m \<Longrightarrow> (\<And>a. only P (f a)) \<Longrightarrow> only P (bnd m f)"
  unfolding only_def bnd_def
  by (auto split: prod.splits outcome.splits) (metis snd_conv)+

lemma only_seq [only_rules]: "only P m \<Longrightarrow> only P n \<Longrightarrow> only P (seq m n)"
  unfolding seq_def by (rule only_bnd)

lemma only_if [only_rules]:
  "(b \<Longrightarrow> only P m) \<Longrightarrow> (\<not> b \<Longrightarrow> only P n) \<Longrightarrow> only P (if b then m else n)"
  by simp

lemma only_for_each [only_rules]:
  "(\<And>x. x \<in> set xs \<Longrightarrow> only P (f x)) \<Longrightarrow> only P (for_each xs f)"
  by (induction xs) (auto intro!: only_rules)

lemma only_thread [only_rules]:
  "(\<And>x s. x \<in> set xs \<Longrightarrow> only P (f x s)) \<Longrightarrow> only P (thread f xs s)"
  by (induction xs arbitrary: s) (auto intro!: only_rules)

lemma only_case_prod [only_rules]:
  "(\<And>a b. only P (f a b)) \<Longrightarrow> only P (case p of (a, b) \<Rightarrow> f a b)"
  by (cases p) simp

lemma only_case_sum [only_rules]:
  "(\<And>a. only P (f a)) \<Longrightarrow> (\<And>b. only P (g b)) \<Longrightarrow> only P (case x of Inl a \<Rightarrow> f a | Inr b \<Rightarrow> g b)"
  by (cases x) simp_all

lemma only_case_option [only_rules]:
  "only P m \<Longrightarrow> (\<And>b. only P (g b)) \<Longrightarrow> only P (case x of None \<Rightarrow> m | Some b \<Rightarrow> g b)"
  by (cases x) simp_all

lemma only_case_list [only_rules]:
  "only P m \<Longrightarrow> (\<And>b bs. only P (g b bs)) \<Longrightarrow> only P (case x of [] \<Rightarrow> m | b # bs \<Rightarrow> g b bs)"
  by (cases x) simp_all

lemma onlyD: "only P m \<Longrightarrow> m v h = (r, es) \<Longrightarrow> list_all P es"
  by (metis only_def snd_conv)

text \<open>A trace function of single events that is empty on \<open>P\<close> is empty on such a run.\<close>

lemma only_concat_map:
  assumes "only P m" "m v h = (r, es)" "\<And>e. P e \<Longrightarrow> f e = []"
  shows "concat (map f es) = []"
  using onlyD [OF assms(1,2)] assms(3) by (auto simp: list_all_iff)

text \<open>A program whose calls do not concern the monitor leaves it as it is.\<close>

lemma obeys_silent:
  assumes "only P m" "\<And>e. P e \<Longrightarrow> \<delta> s e = Live s" "\<And>r. Q r s"
  shows "obeys \<delta> v m s Q"
  unfolding obeys_def
proof
  fix h
  have "mon_run \<delta> s es = Live s" if "list_all P es" for es
    using that by (induction es) (auto simp: assms(2))
  then show "fair (Q (fst (m v h))) (mon_run \<delta> s (snd (m v h)))"
    using assms(1,3) by (simp add: only_def)
qed

section \<open>Results\<close>

text \<open>\<open>yields m Q\<close>: every value \<open>m\<close> returns satisfies \<open>Q\<close>.\<close>

definition yields :: "('v, 'e, 'a) prog \<Rightarrow> ('a \<Rightarrow> bool) \<Rightarrow> bool" where
  "yields m Q \<longleftrightarrow> (\<forall>v h r es. m v h = (Ret r, es) \<longrightarrow> Q r)"

lemma yields_ret: "Q a \<Longrightarrow> yields (ret a) Q"
  by (simp add: yields_def)

lemma yields_bnd: "yields m P \<Longrightarrow> (\<And>a. P a \<Longrightarrow> yields (f a) Q) \<Longrightarrow> yields (bnd m f) Q"
  unfolding yields_def bnd_eq_Ret by blast

lemma yields_skip: "(\<And>a. yields (f a) Q) \<Longrightarrow> yields (bnd m f) Q"
  unfolding yields_def bnd_eq_Ret by blast

lemma yields_seq: "yields n Q \<Longrightarrow> yields (seq m n) Q"
  unfolding seq_def by (rule yields_skip)

lemma yields_if: "(b \<Longrightarrow> yields m Q) \<Longrightarrow> (\<not> b \<Longrightarrow> yields n Q) \<Longrightarrow> yields (if b then m else n) Q"
  by simp

lemma yields_leaf: "yields (halt n) Q" "yields undef Q" "yields hang Q"
  by (simp_all add: yields_def)

lemma yieldsD: "yields m Q \<Longrightarrow> m v h = (Ret r, es) \<Longrightarrow> Q r"
  unfolding yields_def by blast

text \<open>\<open>always v m a\<close>: from every history, \<open>m\<close> returns \<open>a\<close> in the environment \<open>v\<close>.\<close>

definition always :: "'v \<Rightarrow> ('v, 'e, 'a) prog \<Rightarrow> 'a \<Rightarrow> bool" where
  "always v m a \<longleftrightarrow> (\<forall>h. \<exists>es. m v h = (Ret a, es))"

lemma always_ret: "always v (ret a) a"
  by (simp add: always_def run_simps)

lemma always_bnd: "always v m a \<Longrightarrow> always v (f a) b \<Longrightarrow> always v (bnd m f) b"
  unfolding always_def by (meson bnd_Ret)

lemma always_seq: "always v m a \<Longrightarrow> always v n b \<Longrightarrow> always v (seq m n) b"
  unfolding seq_def by (rule always_bnd)

lemma always_if: "(c \<Longrightarrow> always v m a) \<Longrightarrow> (\<not> c \<Longrightarrow> always v n a) \<Longrightarrow> always v (if c then m else n) a"
  by simp

lemma always_for_each: "(\<And>x. x \<in> set xs \<Longrightarrow> always v (f x) ()) \<Longrightarrow> always v (for_each xs f) ()"
  by (induction xs) (auto intro: always_ret always_seq)

lemma alwaysD: "always v m a \<Longrightarrow> \<exists>es. m v h = (Ret a, es)"
  by (simp add: always_def)

section \<open>Conversions of C integers\<close>

text \<open>Conversions of a C \<^verbatim>\<open>int\<close> to the unsigned types it is passed as.\<close>

definition to_size :: "int \<Rightarrow> nat" where
  "to_size x = nat (x mod 2 ^ 64)"

definition to_u32 :: "int \<Rightarrow> 32 word" where
  "to_u32 x = word_of_int x"

definition to_u16 :: "int \<Rightarrow> 16 word" where
  "to_u16 x = word_of_int x"

definition to_u8 :: "int \<Rightarrow> 8 word" where
  "to_u8 x = word_of_int x"

lemma unat_bound: "unat (w :: 'a::len word) < 2 ^ LENGTH('a)"
  by (rule unsigned_less)

lemma to_size_nonneg: "0 \<le> x \<Longrightarrow> x < 2 ^ 64 \<Longrightarrow> to_size x = nat x"
  by (simp add: to_size_def)

lemma unat_to_u32: "unat (to_u32 x) = nat (x mod 2 ^ 32)"
  by (simp add: to_u32_def unat_eq_nat_uint uint_word_of_int)

lemma to_u32_le_to_size: "unat (to_u32 x) \<le> to_size x"
proof -
  have "x mod 2 ^ 32 = (x mod 2 ^ 64) mod 2 ^ 32"
    by (simp add: mod_mod_cancel)
  also have "\<dots> \<le> x mod 2 ^ 64"
    by (rule zmod_le_nonneg_dividend) simp
  finally show ?thesis
    unfolding unat_to_u32 to_size_def by (rule nat_mono)
qed

end
