(* ===== verification/Cbytes.thy ===== *)
theory Cbytes
  imports Effects
begin

text \<open>
  Bytes and strings as the C standard library handles them: the memory image of unsigned integers
  in the byte order of the machine, formatted decimal and hexadecimal numbers, and the bytes that
  \<^verbatim>\<open>snprintf\<close> and \<^verbatim>\<open>strncpy\<close> store into a buffer of a given size.
\<close>

type_synonym byte = "8 word"
type_synonym bytes = "byte list"

section \<open>Memory images of unsigned integers\<close>

datatype byte_order = Little | Big

fun le_bytes :: "nat \<Rightarrow> nat \<Rightarrow> bytes" where
  "le_bytes 0 x = []"
| "le_bytes (Suc n) x = of_nat (x mod 256) # le_bytes n (x div 256)"

fun le_value :: "bytes \<Rightarrow> nat" where
  "le_value [] = 0"
| "le_value (b # bs) = unat b + 256 * le_value bs"

definition enc :: "byte_order \<Rightarrow> nat \<Rightarrow> nat \<Rightarrow> bytes" where
  "enc ord n x = (case ord of Little \<Rightarrow> le_bytes n x | Big \<Rightarrow> rev (le_bytes n x))"

definition dec :: "byte_order \<Rightarrow> bytes \<Rightarrow> nat" where
  "dec ord bs = (case ord of Little \<Rightarrow> le_value bs | Big \<Rightarrow> le_value (rev bs))"

lemma length_le_bytes [simp]: "length (le_bytes n x) = n"
  by (induction n arbitrary: x) auto

lemma length_enc [simp]: "length (enc ord n x) = n"
  by (simp add: enc_def split: byte_order.split)

lemma le_value_le_bytes: "le_value (le_bytes n x) = x mod 256 ^ n"
proof (induction n arbitrary: x)
  case 0
  then show ?case by simp
next
  case (Suc n)
  have "unat (of_nat (x mod 256) :: byte) = x mod 256"
    by (simp add: unat_of_nat)
  with Suc show ?case
    by (simp add: mod_mult2_eq)
qed

lemma dec_enc: "dec ord (enc ord n x) = x mod 256 ^ n"
  by (simp add: dec_def enc_def le_value_le_bytes split: byte_order.split)

text \<open>Words of a whole number of bytes come back unchanged.\<close>

lemma dec_enc_u16 [simp]: "dec ord (enc ord 2 (unat (w :: 16 word))) = unat w"
  using unat_bound [of w] by (simp add: dec_enc)

lemma dec_enc_u32 [simp]: "dec ord (enc ord 4 (unat (w :: 32 word))) = unat w"
  using unat_bound [of w] by (simp add: dec_enc)

lemma dec_enc_u64 [simp]: "dec ord (enc ord 8 (unat (w :: 64 word))) = unat w"
  using unat_bound [of w] by (simp add: dec_enc)

lemma dec_enc_u128 [simp]: "dec ord (enc ord 16 (unat (w :: 128 word))) = unat w"
  using unat_bound [of w] by (simp add: dec_enc)

section \<open>Formatted numbers\<close>

definition digit :: "nat \<Rightarrow> char" where
  "digit d = (if d < 10 then char_of (48 + d) else char_of (87 + d))"

fun numeral_string :: "nat \<Rightarrow> nat \<Rightarrow> string" where
  "numeral_string base n =
     (if base < 2 \<or> n < base then [digit n]
      else numeral_string base (n div base) @ [digit (n mod base)])"

declare numeral_string.simps [simp del]

definition pad0 :: "nat \<Rightarrow> string \<Rightarrow> string" where
  "pad0 w s = replicate (w - length s) (CHR ''0'') @ s"

text \<open>The conversions \<^verbatim>\<open>%d\<close>, \<^verbatim>\<open>%0wd\<close>, \<^verbatim>\<open>%u\<close> and \<^verbatim>\<open>%0wx\<close>.\<close>

definition fmt_d :: "int \<Rightarrow> string" where
  "fmt_d i = (if i < 0 then CHR ''-'' # numeral_string 10 (nat (- i)) else numeral_string 10 (nat i))"

definition fmt_0d :: "nat \<Rightarrow> int \<Rightarrow> string" where
  "fmt_0d w i = (if i < 0 then CHR ''-'' # pad0 (w - 1) (numeral_string 10 (nat (- i)))
                 else pad0 w (numeral_string 10 (nat i)))"

definition fmt_u :: "nat \<Rightarrow> string" where
  "fmt_u n = numeral_string 10 n"

definition fmt_0x :: "nat \<Rightarrow> nat \<Rightarrow> string" where
  "fmt_0x w n = pad0 w (numeral_string 16 n)"

lemma length_numeral_string:
  "2 \<le> b \<Longrightarrow> 0 < k \<Longrightarrow> n < b ^ k \<Longrightarrow> length (numeral_string b n) \<le> k"
proof (induction b n arbitrary: k rule: numeral_string.induct)
  case (1 b n)
  show ?case
  proof (cases "n < b")
    case True
    with 1 show ?thesis by (subst numeral_string.simps) simp
  next
    case False
    with 1 obtain j where k: "k = Suc j" by (cases k) auto
    with False "1.prems" have j: "0 < j" by (cases j) auto
    have "n div b < b ^ j"
      using "1.prems" k by (simp add: less_mult_imp_div_less mult.commute)
    with "1.IH" False "1.prems" j have "length (numeral_string b (n div b)) \<le> j" by simp
    with False k "1.prems" show ?thesis by (subst numeral_string.simps) simp
  qed
qed

lemma length_fmt_0x: "0 < w \<Longrightarrow> n < 16 ^ w \<Longrightarrow> length (fmt_0x w n) = w"
  using length_numeral_string [of 16 w n] by (simp add: fmt_0x_def pad0_def)

lemma length_fmt_d_int: "- (2 ^ 31) \<le> i \<Longrightarrow> i < 2 ^ 31 \<Longrightarrow> length (fmt_d i) \<le> 11"
  using length_numeral_string [of 10 10 "nat (- i)"] length_numeral_string [of 10 11 "nat i"]
  by (auto simp: fmt_d_def nat_less_iff)

section \<open>Stores into character buffers\<close>

definition chars :: "string \<Rightarrow> bytes" where
  "chars s = map of_char s"

text \<open>\<^verbatim>\<open>snprintf(buf, n, ...)\<close> with the formatted text \<open>s\<close>: at most \<open>n\<close> bytes, the last one 0.\<close>

definition snprintf_bytes :: "nat \<Rightarrow> string \<Rightarrow> bytes" where
  "snprintf_bytes n s = (if n = 0 then [] else take (n - 1) (chars s) @ [0])"

text \<open>\<^verbatim>\<open>strncpy(buf, s, n)\<close>: exactly \<open>n\<close> bytes, filled up with zeros.\<close>

definition strncpy_bytes :: "nat \<Rightarrow> string \<Rightarrow> bytes" where
  "strncpy_bytes n s = take n (chars s) @ replicate (n - length s) 0"

definition strlen :: "bytes \<Rightarrow> nat" where
  "strlen bs = length (takeWhile (\<lambda>b. b \<noteq> 0) bs)"

text \<open>A text with no NUL byte, as every format string of the programs produces.\<close>

definition no_nul :: "string \<Rightarrow> bool" where
  "no_nul s \<longleftrightarrow> (\<forall>b \<in> set (chars s). b \<noteq> 0)"

lemma length_chars [simp]: "length (chars s) = length s"
  by (simp add: chars_def)

lemma chars_append [simp]: "chars (s @ t) = chars s @ chars t"
  by (simp add: chars_def)

lemma no_nul_append [simp]: "no_nul (s @ t) \<longleftrightarrow> no_nul s \<and> no_nul t"
  by (auto simp: no_nul_def)

lemma no_nul_numeral: "2 \<le> b \<Longrightarrow> b \<le> 16 \<Longrightarrow> no_nul (numeral_string b n)"
proof (induction b n rule: numeral_string.induct)
  case (1 b n)
  have "\<forall>d \<in> set [0..<16]. of_char (digit d) \<noteq> (0 :: byte)"
  proof -
    have "of_char (char_of n) = (of_nat (n mod 256) :: byte)" for n :: nat
      by (metis of_char_of of_nat_of_char)
    then show ?thesis by (simp add: upt_rec digit_def)
  qed
  then have d: "d < 16 \<Longrightarrow> no_nul [digit d]" for d
    by (simp add: no_nul_def chars_def)
  have "n mod b < 16" using 1 by (simp add: order_less_le_trans [OF mod_less_divisor])
  with 1 d show ?case by (subst numeral_string.simps) auto
qed

lemma length_snprintf_bytes: "length (snprintf_bytes n s) = (if n = 0 then 0 else min n (length s + 1))"
  by (auto simp: snprintf_bytes_def)

lemma length_snprintf_le: "length (snprintf_bytes n s) \<le> n"
  by (simp add: length_snprintf_bytes)

lemma length_strncpy_bytes [simp]: "length (strncpy_bytes n s) = n"
  by (simp add: strncpy_bytes_def)

lemma strlen_le: "strlen bs \<le> length bs"
  by (simp add: strlen_def length_takeWhile_le)

lemma strlen_snprintf:
  assumes "no_nul s" "0 < n"
  shows "strlen (snprintf_bytes n s) = min (n - 1) (length s)"
proof -
  have "takeWhile (\<lambda>b. b \<noteq> 0) (take (n - 1) (chars s) @ [0]) = take (n - 1) (chars s)"
    using assms(1) by (subst takeWhile_append2) (auto simp: no_nul_def dest: in_set_takeD)
  then show ?thesis
    using assms(2) by (simp add: strlen_def snprintf_bytes_def min.commute)
qed

lemma strlen_snprintf_less: "0 < n \<Longrightarrow> strlen (snprintf_bytes n s) < n"
proof -
  assume n: "0 < n"
  have "strlen (snprintf_bytes n s) = length (takeWhile (\<lambda>b. b \<noteq> 0) (take (n - 1) (chars s)))"
    using n by (simp add: strlen_def snprintf_bytes_def takeWhile_tail)
  also have "\<dots> \<le> length (take (n - 1) (chars s))"
    by (rule length_takeWhile_le)
  finally show ?thesis using n by auto
qed

section \<open>Options: \<^verbatim>\<open>atoi\<close>\<close>

definition is_space :: "char \<Rightarrow> bool" where
  "is_space c \<longleftrightarrow> c = CHR '' '' \<or> (9 \<le> (of_char c :: nat) \<and> (of_char c :: nat) \<le> 13)"

definition is_digit :: "char \<Rightarrow> bool" where
  "is_digit c \<longleftrightarrow> 48 \<le> (of_char c :: nat) \<and> (of_char c :: nat) \<le> 57"

definition digits_value :: "string \<Rightarrow> nat" where
  "digits_value s = foldl (\<lambda>n c. 10 * n + (of_char c - 48)) 0 (takeWhile is_digit s)"

text \<open>
  \<^verbatim>\<open>atoi\<close> as glibc has it: \<^verbatim>\<open>strtol\<close> in base 10, saturated to a \<^verbatim>\<open>long\<close>, converted to \<^verbatim>\<open>int\<close>.
\<close>

definition atoi :: "string \<Rightarrow> int" where
  "atoi s =
     (let t = dropWhile is_space s;
          v = (case t of
                 [] \<Rightarrow> 0
               | c # cs \<Rightarrow> (if c = CHR ''-'' then - int (digits_value cs)
                            else if c = CHR ''+'' then int (digits_value cs)
                            else int (digits_value t)))
      in signed_take_bit 31 (max (- (2 ^ 63)) (min (2 ^ 63 - 1) v)))"

lemma atoi_range: "- (2 ^ 31) \<le> atoi s \<and> atoi s < 2 ^ 31"
  unfolding atoi_def Let_def
  using signed_take_bit_int_greater_eq_minus_exp [of 31] signed_take_bit_int_less_exp [of 31]
  by auto

end
