(* ===== verification/Verbs.thy ===== *)
theory Verbs
  imports Cbytes
begin

text \<open>
  The vocabulary the programs share with libibverbs, librdmacm and the operating system: the
  structures they fill in or read (with the field names of the source), the calls they make, the
  answers they get, and the environment that gives the answers.  The environment is a parameter of
  every program: nothing is assumed here about what it answers.
\<close>

type_synonym u8 = "8 word"
type_synonym u16 = "16 word"
type_synonym u32 = "32 word"
type_synonym u64 = "64 word"

text \<open>Pointers; 0 is \<^verbatim>\<open>NULL\<close>.\<close>
type_synonym ptr = "64 word"

text \<open>A \<^verbatim>\<open>union ibv_gid\<close>: 16 raw bytes, byte \<open>i\<close> being bits \<open>8i\<close> to \<open>8i+7\<close>.\<close>
type_synonym gid = "128 word"

definition gid_raw :: "gid \<Rightarrow> bytes" where
  "gid_raw g = le_bytes 16 (unat g)"

lemma length_gid_raw [simp]: "length (gid_raw g) = 16"
  by (simp add: gid_raw_def)

section \<open>Structures\<close>

datatype access = IBV_ACCESS_LOCAL_WRITE | IBV_ACCESS_REMOTE_WRITE | IBV_ACCESS_REMOTE_READ

datatype qp_type = IBV_QPT_RC | IBV_QPT_UD

datatype qp_state = IBV_QPS_RESET | IBV_QPS_INIT | IBV_QPS_RTR | IBV_QPS_RTS

datatype mtu = IBV_MTU_256 | IBV_MTU_512 | IBV_MTU_1024 | IBV_MTU_2048 | IBV_MTU_4096 | Mtu_other int

datatype port_state =
  IBV_PORT_DOWN | IBV_PORT_INIT | IBV_PORT_ARMED | IBV_PORT_ACTIVE | Port_state_other int

datatype link_layer = IBV_LINK_LAYER_INFINIBAND | IBV_LINK_LAYER_ETHERNET | Link_layer_other int

datatype atomic_cap = IBV_ATOMIC_NONE | IBV_ATOMIC_HCA | IBV_ATOMIC_GLOB | Atomic_other int

text \<open>The bits of an \<^verbatim>\<open>ibv_modify_qp\<close> mask.\<close>

datatype (plugins only: code) qp_mask =
  IBV_QP_STATE | IBV_QP_ACCESS_FLAGS | IBV_QP_PKEY_INDEX | IBV_QP_PORT | IBV_QP_QKEY
| IBV_QP_AV | IBV_QP_PATH_MTU | IBV_QP_TIMEOUT | IBV_QP_RETRY_CNT | IBV_QP_RNR_RETRY
| IBV_QP_RQ_PSN | IBV_QP_MAX_QP_RD_ATOMIC | IBV_QP_MIN_RNR_TIMER | IBV_QP_SQ_PSN
| IBV_QP_MAX_DEST_RD_ATOMIC | IBV_QP_DEST_QPN

datatype wr_opcode = IBV_WR_SEND | IBV_WR_RDMA_WRITE | IBV_WR_RDMA_READ

datatype send_flag = IBV_SEND_SIGNALED | IBV_SEND_INLINE

datatype wc_status = IBV_WC_SUCCESS | Wc_status_error int

datatype async_type = IBV_EVENT_SRQ_LIMIT_REACHED | Async_other int

datatype wc_opcode = IBV_WC_SEND | IBV_WC_RECV | Wc_opcode_other int

record ibv_device =
  dev_ptr :: ptr
  dev_name :: string
  dev_guid :: u64

record ibv_mr =
  mr_ptr :: ptr
  mr_addr :: ptr
  mr_lkey :: u32
  mr_rkey :: u32

record ibv_qp =
  qp_ptr :: ptr
  qp_num :: u32

record ibv_port_attr =
  pa_state :: port_state
  pa_link_layer :: link_layer
  pa_active_mtu :: mtu
  pa_lid :: u16
  pa_sm_lid :: u16
  pa_max_msg_sz :: u32
  pa_gid_tbl_len :: int
  pa_pkey_tbl_len :: u16

record ah_attr =
  ah_is_global :: u8
  ah_dgid :: gid
  ah_sgid_index :: u8
  ah_hop_limit :: u8
  ah_dlid :: u16
  ah_sl :: u8
  ah_src_path_bits :: u8
  ah_port_num :: u8

definition zero_ah :: ah_attr where
  "zero_ah = \<lparr>ah_is_global = 0, ah_dgid = 0, ah_sgid_index = 0, ah_hop_limit = 0, ah_dlid = 0,
     ah_sl = 0, ah_src_path_bits = 0, ah_port_num = 0\<rparr>"

record ibv_device_attr =
  da_fw_ver :: string
  da_node_guid :: u64
  da_sys_image_guid :: u64
  da_max_mr_size :: u64
  da_page_size_cap :: u64
  da_vendor_id :: u32
  da_vendor_part_id :: u32
  da_hw_ver :: u32
  da_max_qp :: int
  da_max_qp_wr :: int
  da_max_sge :: int
  da_max_sge_rd :: int
  da_max_cq :: int
  da_max_cqe :: int
  da_max_mr :: int
  da_max_pd :: int
  da_max_qp_rd_atom :: int
  da_max_qp_init_rd_atom :: int
  da_max_srq :: int
  da_max_srq_wr :: int
  da_max_srq_sge :: int
  da_max_mcast_grp :: int
  da_phys_port_cnt :: u8
  da_atomic_cap :: atomic_cap

record qp_attr =
  qa_qp_state :: qp_state
  qa_path_mtu :: mtu
  qa_qkey :: u32
  qa_rq_psn :: u32
  qa_sq_psn :: u32
  qa_dest_qp_num :: u32
  qa_access_flags :: "access set"
  qa_ah_attr :: ah_attr
  qa_pkey_index :: u16
  qa_max_rd_atomic :: u8
  qa_max_dest_rd_atomic :: u8
  qa_min_rnr_timer :: u8
  qa_port_num :: u8
  qa_timeout :: u8
  qa_retry_cnt :: u8
  qa_rnr_retry :: u8

text \<open>The structure after \<^verbatim>\<open>memset(&attr, 0, sizeof(attr))\<close>.\<close>

definition zero_qp_attr :: qp_attr where
  "zero_qp_attr = \<lparr>qa_qp_state = IBV_QPS_RESET, qa_path_mtu = Mtu_other 0, qa_qkey = 0, qa_rq_psn = 0,
     qa_sq_psn = 0, qa_dest_qp_num = 0, qa_access_flags = {}, qa_ah_attr = zero_ah,
     qa_pkey_index = 0, qa_max_rd_atomic = 0, qa_max_dest_rd_atomic = 0, qa_min_rnr_timer = 0,
     qa_port_num = 0, qa_timeout = 0, qa_retry_cnt = 0, qa_rnr_retry = 0\<rparr>"

record qp_cap =
  max_send_wr :: int
  max_recv_wr :: int
  max_send_sge :: int
  max_recv_sge :: int
  max_inline_data :: int

record qp_init_attr =
  qi_send_cq :: ptr
  qi_recv_cq :: ptr
  qi_srq :: ptr
  qi_cap :: qp_cap
  qi_qp_type :: qp_type
  qi_sq_sig_all :: int

record ibv_sge =
  sge_addr :: u64
  sge_length :: u32
  sge_lkey :: u32

record recv_wr =
  rw_wr_id :: u64
  rw_sg_list :: "ibv_sge list"

record send_wr =
  sw_wr_id :: u64
  sw_sg_list :: "ibv_sge list"
  sw_opcode :: wr_opcode
  sw_send_flags :: "send_flag set"
  sw_remote_addr :: u64
  sw_rkey :: u32
  sw_ah :: ptr
  sw_remote_qpn :: u32
  sw_remote_qkey :: u32

record ibv_wc =
  wc_wr_id :: u64
  wc_status :: wc_status
  wc_opcode :: wc_opcode
  wc_byte_len :: u32
  wc_qp_num :: u32
  wc_src_qp :: u32

record addrinfo =
  ai_family :: int
  ai_socktype :: int
  ai_protocol :: int
  ai_addr :: ptr
  ai_addrlen :: int

datatype sockaddr = Ai_addr ptr int | Sin u16 u32

text \<open>
  Events of librdmacm.  \<open>ev_verbs\<close> is the device context in the identifier's field \<^verbatim>\<open>verbs\<close> when the
  event is delivered.
\<close>

datatype (plugins only: code) cm_event_type =
  RDMA_CM_EVENT_ADDR_RESOLVED | RDMA_CM_EVENT_ADDR_ERROR | RDMA_CM_EVENT_ROUTE_RESOLVED
| RDMA_CM_EVENT_ROUTE_ERROR | RDMA_CM_EVENT_CONNECT_REQUEST | RDMA_CM_EVENT_CONNECT_ERROR
| RDMA_CM_EVENT_UNREACHABLE | RDMA_CM_EVENT_REJECTED | RDMA_CM_EVENT_ESTABLISHED
| RDMA_CM_EVENT_DISCONNECTED | Cm_event_other int

record cm_event =
  ev_type :: cm_event_type
  ev_id :: ptr
  ev_verbs :: ptr

record conn_param =
  cp_responder_resources :: u8
  cp_initiator_depth :: u8
  cp_retry_count :: u8
  cp_rnr_retry_count :: u8

definition INADDR_ANY :: u32 where "INADDR_ANY = 0"
definition AF_UNSPEC :: int where "AF_UNSPEC = 0"
definition AF_INET :: int where "AF_INET = 2"
definition SOCK_STREAM :: int where "SOCK_STREAM = 1"
definition EINTR :: int where "EINTR = 4"

text \<open>\<^verbatim>\<open>htons\<close>: the value whose memory image is the big-endian image of \<open>w\<close>.\<close>

definition htons :: "byte_order \<Rightarrow> u16 \<Rightarrow> u16" where
  "htons ord w = of_nat (dec ord (enc Big 2 (unat w)))"

section \<open>Calls, answers, environments\<close>

text \<open>
  The calls of the C standard library and the operating system.  \<open>Mem_store\<close> and \<open>Mem_load\<close> are
  the program's own accesses to buffers, \<open>Stack_var\<close> and \<open>Stack_end\<close> the lifetime of an array
  whose address is taken (a static one has no end), \<open>Print\<close> a text written to \<^verbatim>\<open>stdout\<close>, and \<open>Set_running\<close> and
  \<open>Get_running\<close> the accesses to a volatile flag that two threads share.
\<close>

datatype (plugins only: code) os_call =
    Calloc nat nat | Malloc nat | Aligned_alloc nat nat | Free ptr | Stack_var nat | Stack_end ptr
  | Mem_store ptr bytes | Mem_load ptr nat | Print string
  | Pthread_create | Set_running int | Get_running
  | Getpid | Time | Srand48 int | Lrand48 | Clock_gettime
  | Getaddrinfo string string int int | Freeaddrinfo ptr | Gethostbyname string
  | Socket int int int | Connect int sockaddr | Close int | Setsockopt int | Bind int sockaddr
  | Listen int int | Accept int | Write int bytes | Read int nat

text \<open>The calls of libibverbs.\<close>

datatype (plugins only: code) vb_call =
    Ibv_get_device_list | Ibv_free_device_list ptr | Ibv_open_device ptr | Ibv_close_device ptr
  | Ibv_query_device ptr | Ibv_query_port ptr u8 | Ibv_query_gid ptr u8 int
  | Ibv_alloc_pd ptr | Ibv_dealloc_pd ptr
  | Ibv_create_cq ptr int | Ibv_destroy_cq ptr
  | Ibv_reg_mr ptr ptr nat "access set" | Ibv_dereg_mr ptr
  | Ibv_create_qp ptr qp_init_attr | Ibv_destroy_qp ptr
  | Ibv_modify_qp ptr qp_attr "qp_mask set"
  | Ibv_post_send ptr send_wr | Ibv_post_recv ptr recv_wr | Ibv_poll_cq ptr nat
  | Ibv_create_ah ptr ah_attr | Ibv_destroy_ah ptr
  | Ibv_create_srq ptr int int | Ibv_destroy_srq ptr | Ibv_modify_srq ptr int
  | Ibv_post_srq_recv ptr recv_wr | Ibv_get_async_event ptr | Ibv_ack_async_event

text \<open>The calls of librdmacm, with the address conversion its users make.\<close>

datatype (plugins only: code) cm_call =
    Rdma_create_event_channel | Rdma_destroy_event_channel ptr
  | Rdma_create_id ptr | Rdma_destroy_id ptr
  | Rdma_bind_addr ptr sockaddr | Rdma_listen ptr int
  | Rdma_resolve_addr ptr sockaddr int | Rdma_resolve_route ptr int
  | Rdma_create_qp ptr ptr qp_init_attr | Rdma_destroy_qp ptr
  | Rdma_accept ptr conn_param | Rdma_connect ptr conn_param | Rdma_disconnect ptr
  | Rdma_get_cm_event ptr | Rdma_ack_cm_event | Inet_pton string

datatype (plugins only: code) call = Os os_call | Vb vb_call | Cm cm_call

datatype (plugins only: code) resp =
    RVoid | RInt int | RPtr ptr | RMr ibv_mr | RQp ibv_qp | RBytes int bytes | RWc int "ibv_wc list"
  | RDevs ptr "ibv_device list" | RAddrs int ptr "addrinfo list" | RPort int ibv_port_attr
  | RGid int gid | RTime int int | RDevattr int ibv_device_attr | RAsync int async_type
  | RIntPtr int ptr | RCm int cm_event

type_synonym event = "call \<times> resp"

record env =
  env_order :: byte_order
  env_errno :: "event list \<Rightarrow> int"
  env_int :: "event list \<Rightarrow> call \<Rightarrow> int"
  env_ptr :: "event list \<Rightarrow> call \<Rightarrow> ptr"
  env_mr :: "event list \<Rightarrow> call \<Rightarrow> ibv_mr"
  env_qp :: "event list \<Rightarrow> call \<Rightarrow> ibv_qp"
  env_bytes :: "event list \<Rightarrow> call \<Rightarrow> int \<times> bytes"
  env_wc :: "event list \<Rightarrow> call \<Rightarrow> int \<times> ibv_wc list"
  env_devs :: "event list \<Rightarrow> ptr \<times> ibv_device list"
  env_addrs :: "event list \<Rightarrow> call \<Rightarrow> int \<times> ptr \<times> addrinfo list"
  env_port :: "event list \<Rightarrow> call \<Rightarrow> int \<times> ibv_port_attr"
  env_gid :: "event list \<Rightarrow> call \<Rightarrow> int \<times> gid"
  env_time :: "event list \<Rightarrow> int \<times> int"
  env_devattr :: "event list \<Rightarrow> int \<times> ibv_device_attr"
  env_async :: "event list \<Rightarrow> int \<times> async_type"
  env_intptr :: "event list \<Rightarrow> call \<Rightarrow> int \<times> ptr"
  env_cm :: "event list \<Rightarrow> int \<times> cm_event"

type_synonym 'a io = "(env, event, 'a) prog"

text \<open>One primitive per type of answer: the call is made once and recorded with its answer.\<close>

text \<open>A call that reports \<open>n\<close> bytes gives exactly \<open>n\<close> bytes.\<close>

definition fit :: "nat \<Rightarrow> bytes \<Rightarrow> bytes" where
  "fit n d = take n (d @ replicate n 0)"

lemma length_fit [simp]: "length (fit n d) = n"
  by (simp add: fit_def)

lemma fit_id [simp]: "length d = n \<Longrightarrow> fit n d = d"
  by (simp add: fit_def)

definition sysv :: "call \<Rightarrow> unit io" where
  "sysv c = (\<lambda>v h. (Ret (), [(c, RVoid)]))"

definition sys :: "call \<Rightarrow> int io" where
  "sys c = (\<lambda>v h. (Ret (env_int v h c), [(c, RInt (env_int v h c))]))"

definition sysp :: "call \<Rightarrow> ptr io" where
  "sysp c = (\<lambda>v h. (Ret (env_ptr v h c), [(c, RPtr (env_ptr v h c))]))"

definition sys_mr :: "call \<Rightarrow> ibv_mr io" where
  "sys_mr c = (\<lambda>v h. (Ret (env_mr v h c), [(c, RMr (env_mr v h c))]))"

definition sys_qp :: "call \<Rightarrow> ibv_qp io" where
  "sys_qp c = (\<lambda>v h. (Ret (env_qp v h c), [(c, RQp (env_qp v h c))]))"

definition sys_bytes :: "call \<Rightarrow> (int \<times> bytes) io" where
  "sys_bytes c = (\<lambda>v h. case env_bytes v h c of (n, d) \<Rightarrow>
     (Ret (n, fit (nat n) d), [(c, RBytes n (fit (nat n) d))]))"

text \<open>The program reads \<open>n\<close> bytes of its own memory, which the network card may have written.\<close>

definition sys_load :: "ptr \<Rightarrow> nat \<Rightarrow> bytes io" where
  "sys_load p n = (\<lambda>v h. case env_bytes v h (Os (Mem_load p n)) of (k, d) \<Rightarrow>
     (Ret (fit n d), [(Os (Mem_load p n), RBytes (int n) (fit n d))]))"

text \<open>A poll that reports \<open>n\<close> completions fills in \<open>n\<close> entries.\<close>

definition zero_wc :: ibv_wc where
  "zero_wc = \<lparr>wc_wr_id = 0, wc_status = IBV_WC_SUCCESS, wc_opcode = IBV_WC_SEND, wc_byte_len = 0,
     wc_qp_num = 0, wc_src_qp = 0\<rparr>"

definition fit_wc :: "nat \<Rightarrow> ibv_wc list \<Rightarrow> ibv_wc list" where
  "fit_wc n ws = take n (ws @ replicate n zero_wc)"

lemma length_fit_wc [simp]: "length (fit_wc n ws) = n"
  by (simp add: fit_wc_def)

lemma fit_wc_id [simp]: "length ws = n \<Longrightarrow> fit_wc n ws = ws"
  by (simp add: fit_wc_def)

definition sys_wc :: "call \<Rightarrow> (int \<times> ibv_wc list) io" where
  "sys_wc c = (\<lambda>v h. case env_wc v h c of (n, ws) \<Rightarrow>
     (Ret (n, fit_wc (nat n) ws), [(c, RWc n (fit_wc (nat n) ws))]))"

definition sys_devs :: "(ptr \<times> ibv_device list) io" where
  "sys_devs = (\<lambda>v h. case env_devs v h of (p, ds) \<Rightarrow>
     (Ret (p, ds), [(Vb Ibv_get_device_list, RDevs p ds)]))"

definition sys_addrs :: "call \<Rightarrow> (int \<times> ptr \<times> addrinfo list) io" where
  "sys_addrs c = (\<lambda>v h. case env_addrs v h c of (n, p, as) \<Rightarrow>
     (Ret (n, p, as), [(c, RAddrs n p as)]))"

definition sys_port :: "call \<Rightarrow> (int \<times> ibv_port_attr) io" where
  "sys_port c = (\<lambda>v h. case env_port v h c of (n, a) \<Rightarrow> (Ret (n, a), [(c, RPort n a)]))"

definition sys_gid :: "call \<Rightarrow> (int \<times> gid) io" where
  "sys_gid c = (\<lambda>v h. case env_gid v h c of (n, g) \<Rightarrow> (Ret (n, g), [(c, RGid n g)]))"

definition sys_time :: "(int \<times> int) io" where
  "sys_time = (\<lambda>v h. case env_time v h of (s, n) \<Rightarrow> (Ret (s, n), [(Os Clock_gettime, RTime s n)]))"

definition sys_devattr :: "call \<Rightarrow> (int \<times> ibv_device_attr) io" where
  "sys_devattr c = (\<lambda>v h. case env_devattr v h of (n, a) \<Rightarrow> (Ret (n, a), [(c, RDevattr n a)]))"

definition sys_async :: "call \<Rightarrow> (int \<times> async_type) io" where
  "sys_async c = (\<lambda>v h. case env_async v h of (n, a) \<Rightarrow> (Ret (n, a), [(c, RAsync n a)]))"

text \<open>A call that returns a status and leaves a pointer (or an address) behind.\<close>

definition sys_intptr :: "call \<Rightarrow> (int \<times> ptr) io" where
  "sys_intptr c = (\<lambda>v h. case env_intptr v h c of (n, p) \<Rightarrow> (Ret (n, p), [(c, RIntPtr n p)]))"

definition sys_cm :: "call \<Rightarrow> (int \<times> cm_event) io" where
  "sys_cm c = (\<lambda>v h. case env_cm v h of (n, e) \<Rightarrow> (Ret (n, e), [(c, RCm n e)]))"

text \<open>What is read without a call: \<^verbatim>\<open>errno\<close>, and the byte order of the machine.\<close>

definition get_errno :: "int io" where
  "get_errno = (\<lambda>v h. (Ret (env_errno v h), []))"

definition get_order :: "byte_order io" where
  "get_order = (\<lambda>v h. (Ret (env_order v), []))"

lemma bnd_get_order: "bnd get_order f v h = f (env_order v) v h"
  by (cases "f (env_order v) v h") (simp add: bnd_def get_order_def)

lemmas sys_defs = sysv_def sys_def sysp_def sys_mr_def sys_qp_def sys_bytes_def sys_load_def sys_wc_def
  sys_devs_def sys_addrs_def sys_port_def sys_gid_def sys_time_def sys_devattr_def sys_async_def
  sys_intptr_def sys_cm_def
  get_errno_def get_order_def

subsection \<open>Rules for the primitives under a monitor\<close>

lemma obeys_sysv [obeys_rules]:
  "fair (Q (Ret ())) (\<delta> s (c, RVoid)) \<Longrightarrow> obeys \<delta> v (sysv c) s Q"
  by (cases "\<delta> s (c, RVoid)") (auto simp: obeys_def sysv_def)

lemma obeys_sys [obeys_rules]:
  assumes "\<And>r. fair (Q (Ret r)) (\<delta> s (c, RInt r))"
  shows "obeys \<delta> v (sys c) s Q"
  unfolding obeys_def
proof
  fix h
  show "fair (Q (fst (sys c v h))) (mon_run \<delta> s (snd (sys c v h)))"
    using assms [of "env_int v h c"]
    by (cases "\<delta> s (c, RInt (env_int v h c))") (auto simp: sys_def)
qed

lemma obeys_sysp [obeys_rules]:
  assumes "\<And>r. fair (Q (Ret r)) (\<delta> s (c, RPtr r))"
  shows "obeys \<delta> v (sysp c) s Q"
  unfolding obeys_def
proof
  fix h
  show "fair (Q (fst (sysp c v h))) (mon_run \<delta> s (snd (sysp c v h)))"
    using assms [of "env_ptr v h c"]
    by (cases "\<delta> s (c, RPtr (env_ptr v h c))") (auto simp: sysp_def)
qed

lemma obeys_sys_mr [obeys_rules]:
  assumes "\<And>r. fair (Q (Ret r)) (\<delta> s (c, RMr r))"
  shows "obeys \<delta> v (sys_mr c) s Q"
  unfolding obeys_def
proof
  fix h
  show "fair (Q (fst (sys_mr c v h))) (mon_run \<delta> s (snd (sys_mr c v h)))"
    using assms [of "env_mr v h c"]
    by (cases "\<delta> s (c, RMr (env_mr v h c))") (auto simp: sys_mr_def)
qed

lemma obeys_sys_qp [obeys_rules]:
  assumes "\<And>r. fair (Q (Ret r)) (\<delta> s (c, RQp r))"
  shows "obeys \<delta> v (sys_qp c) s Q"
  unfolding obeys_def
proof
  fix h
  show "fair (Q (fst (sys_qp c v h))) (mon_run \<delta> s (snd (sys_qp c v h)))"
    using assms [of "env_qp v h c"]
    by (cases "\<delta> s (c, RQp (env_qp v h c))") (auto simp: sys_qp_def)
qed

lemma obeys_sys_bytes [obeys_rules]:
  assumes "\<And>n d. length d = nat n \<Longrightarrow> fair (Q (Ret (n, d))) (\<delta> s (c, RBytes n d))"
  shows "obeys \<delta> v (sys_bytes c) s Q"
  unfolding obeys_def
proof
  fix h
  obtain n d where r: "env_bytes v h c = (n, d)" by fastforce
  show "fair (Q (fst (sys_bytes c v h))) (mon_run \<delta> s (snd (sys_bytes c v h)))"
    using assms [of "fit (nat n) d" n] r
    by (cases "\<delta> s (c, RBytes n (fit (nat n) d))") (auto simp: sys_bytes_def)
qed

lemma obeys_sys_load [obeys_rules]:
  assumes "\<And>d. length d = n \<Longrightarrow> fair (Q (Ret d)) (\<delta> s (Os (Mem_load p n), RBytes (int n) d))"
  shows "obeys \<delta> v (sys_load p n) s Q"
  unfolding obeys_def
proof
  fix h
  obtain k d where r: "env_bytes v h (Os (Mem_load p n)) = (k, d)" by fastforce
  show "fair (Q (fst (sys_load p n v h))) (mon_run \<delta> s (snd (sys_load p n v h)))"
    using assms [of "fit n d"] r
    by (cases "\<delta> s (Os (Mem_load p n), RBytes (int n) (fit n d))") (auto simp: sys_load_def)
qed

text \<open>The rule for a load about whose answer something is known.\<close>

lemma obeys_sys_load_env:
  assumes "\<And>h d. d = fit n (snd (env_bytes v h (Os (Mem_load p n)))) \<Longrightarrow>
    fair (Q (Ret d)) (\<delta> s (Os (Mem_load p n), RBytes (int n) d))"
  shows "obeys \<delta> v (sys_load p n) s Q"
  unfolding obeys_def
proof
  fix h
  obtain k d where r: "env_bytes v h (Os (Mem_load p n)) = (k, d)" by fastforce
  show "fair (Q (fst (sys_load p n v h))) (mon_run \<delta> s (snd (sys_load p n v h)))"
    using assms [of "fit n d" h] r
    by (cases "\<delta> s (Os (Mem_load p n), RBytes (int n) (fit n d))") (auto simp: sys_load_def)
qed

lemma obeys_sys_wc [obeys_rules]:
  assumes "\<And>n ws. length ws = nat n \<Longrightarrow> fair (Q (Ret (n, ws))) (\<delta> s (c, RWc n ws))"
  shows "obeys \<delta> v (sys_wc c) s Q"
  unfolding obeys_def
proof
  fix h
  obtain n d where r: "env_wc v h c = (n, d)" by fastforce
  show "fair (Q (fst (sys_wc c v h))) (mon_run \<delta> s (snd (sys_wc c v h)))"
    using assms [of "fit_wc (nat n) d" n] r
    by (cases "\<delta> s (c, RWc n (fit_wc (nat n) d))") (auto simp: sys_wc_def)
qed

lemma obeys_sys_devs [obeys_rules]:
  assumes "\<And>p d. fair (Q (Ret (p, d))) (\<delta> s (Vb Ibv_get_device_list, RDevs p d))"
  shows "obeys \<delta> v sys_devs s Q"
  unfolding obeys_def
proof
  fix h
  obtain p d where r: "env_devs v h = (p, d)" by fastforce
  show "fair (Q (fst (sys_devs v h))) (mon_run \<delta> s (snd (sys_devs v h)))"
    using assms [of p d] r
    by (cases "\<delta> s (Vb Ibv_get_device_list, RDevs p d)") (auto simp: sys_devs_def)
qed

lemma obeys_sys_addrs [obeys_rules]:
  assumes "\<And>n p d. fair (Q (Ret (n, p, d))) (\<delta> s (c, RAddrs n p d))"
  shows "obeys \<delta> v (sys_addrs c) s Q"
  unfolding obeys_def
proof
  fix h
  obtain n p d where r: "env_addrs v h c = (n, p, d)" by (metis prod_cases3)
  show "fair (Q (fst (sys_addrs c v h))) (mon_run \<delta> s (snd (sys_addrs c v h)))"
    using assms [of n p d] r by (cases "\<delta> s (c, RAddrs n p d)") (auto simp: sys_addrs_def)
qed

lemma obeys_sys_port [obeys_rules]:
  assumes "\<And>n d. fair (Q (Ret (n, d))) (\<delta> s (c, RPort n d))"
  shows "obeys \<delta> v (sys_port c) s Q"
  unfolding obeys_def
proof
  fix h
  obtain n d where r: "env_port v h c = (n, d)" by fastforce
  show "fair (Q (fst (sys_port c v h))) (mon_run \<delta> s (snd (sys_port c v h)))"
    using assms [of n d] r by (cases "\<delta> s (c, RPort n d)") (auto simp: sys_port_def)
qed

lemma obeys_sys_gid [obeys_rules]:
  assumes "\<And>n d. fair (Q (Ret (n, d))) (\<delta> s (c, RGid n d))"
  shows "obeys \<delta> v (sys_gid c) s Q"
  unfolding obeys_def
proof
  fix h
  obtain n d where r: "env_gid v h c = (n, d)" by fastforce
  show "fair (Q (fst (sys_gid c v h))) (mon_run \<delta> s (snd (sys_gid c v h)))"
    using assms [of n d] r by (cases "\<delta> s (c, RGid n d)") (auto simp: sys_gid_def)
qed

lemma obeys_sys_time [obeys_rules]:
  assumes "\<And>n d. fair (Q (Ret (n, d))) (\<delta> s (Os Clock_gettime, RTime n d))"
  shows "obeys \<delta> v sys_time s Q"
  unfolding obeys_def
proof
  fix h
  obtain n d where r: "env_time v h = (n, d)" by fastforce
  show "fair (Q (fst (sys_time v h))) (mon_run \<delta> s (snd (sys_time v h)))"
    using assms [of n d] r by (cases "\<delta> s (Os Clock_gettime, RTime n d)") (auto simp: sys_time_def)
qed

lemma obeys_sys_devattr [obeys_rules]:
  assumes "\<And>n d. fair (Q (Ret (n, d))) (\<delta> s (c, RDevattr n d))"
  shows "obeys \<delta> v (sys_devattr c) s Q"
  unfolding obeys_def
proof
  fix h
  obtain n d where r: "env_devattr v h = (n, d)" by fastforce
  show "fair (Q (fst (sys_devattr c v h))) (mon_run \<delta> s (snd (sys_devattr c v h)))"
    using assms [of n d] r by (cases "\<delta> s (c, RDevattr n d)") (auto simp: sys_devattr_def)
qed

lemma obeys_sys_async [obeys_rules]:
  assumes "\<And>n d. fair (Q (Ret (n, d))) (\<delta> s (c, RAsync n d))"
  shows "obeys \<delta> v (sys_async c) s Q"
  unfolding obeys_def
proof
  fix h
  obtain n d where r: "env_async v h = (n, d)" by fastforce
  show "fair (Q (fst (sys_async c v h))) (mon_run \<delta> s (snd (sys_async c v h)))"
    using assms [of n d] r by (cases "\<delta> s (c, RAsync n d)") (auto simp: sys_async_def)
qed

lemma obeys_sys_intptr [obeys_rules]:
  assumes "\<And>n d. fair (Q (Ret (n, d))) (\<delta> s (c, RIntPtr n d))"
  shows "obeys \<delta> v (sys_intptr c) s Q"
  unfolding obeys_def
proof
  fix h
  obtain n d where r: "env_intptr v h c = (n, d)" by fastforce
  show "fair (Q (fst (sys_intptr c v h))) (mon_run \<delta> s (snd (sys_intptr c v h)))"
    using assms [of n d] r by (cases "\<delta> s (c, RIntPtr n d)") (auto simp: sys_intptr_def)
qed

lemma obeys_sys_cm [obeys_rules]:
  assumes "\<And>n d. fair (Q (Ret (n, d))) (\<delta> s (c, RCm n d))"
  shows "obeys \<delta> v (sys_cm c) s Q"
  unfolding obeys_def
proof
  fix h
  obtain n d where r: "env_cm v h = (n, d)" by fastforce
  show "fair (Q (fst (sys_cm c v h))) (mon_run \<delta> s (snd (sys_cm c v h)))"
    using assms [of n d] r by (cases "\<delta> s (c, RCm n d)") (auto simp: sys_cm_def)
qed

lemma obeys_get_errno [obeys_rules]: "(\<And>r. Q (Ret r) s) \<Longrightarrow> obeys \<delta> v get_errno s Q"
  by (simp add: obeys_def get_errno_def)

lemma obeys_get_order [obeys_rules]: "Q (Ret (env_order v)) s \<Longrightarrow> obeys \<delta> v get_order s Q"
  by (simp add: obeys_def get_order_def)

subsection \<open>Footprints of the primitives\<close>

text \<open>Here a footprint is a property of calls: it does not look at the answer.\<close>

abbreviation calls :: "(call \<Rightarrow> bool) \<Rightarrow> 'a io \<Rightarrow> bool" where
  "calls P \<equiv> only (\<lambda>e. P (fst e))"

lemma calls_sys [only_rules]:
  "P c \<Longrightarrow> calls P (sysv c)" "P c \<Longrightarrow> calls P (sys c)" "P c \<Longrightarrow> calls P (sysp c)"
  "P c \<Longrightarrow> calls P (sys_mr c)" "P c \<Longrightarrow> calls P (sys_qp c)" "P c \<Longrightarrow> calls P (sys_bytes c)"
  "P (Os (Mem_load p n)) \<Longrightarrow> calls P (sys_load p n)"
  "P c \<Longrightarrow> calls P (sys_wc c)" "P (Vb Ibv_get_device_list) \<Longrightarrow> calls P sys_devs"
  "P c \<Longrightarrow> calls P (sys_addrs c)" "P c \<Longrightarrow> calls P (sys_port c)" "P c \<Longrightarrow> calls P (sys_gid c)"
  "P c \<Longrightarrow> calls P (sys_devattr c)" "P c \<Longrightarrow> calls P (sys_async c)"
  "P c \<Longrightarrow> calls P (sys_intptr c)" "P c \<Longrightarrow> calls P (sys_cm c)"
  "P (Os Clock_gettime) \<Longrightarrow> calls P sys_time" "calls P get_errno" "calls P get_order"
  by (auto simp: only_def sys_defs split: prod.splits)

section \<open>What a run has sent and received on a descriptor\<close>

fun sent_by :: "int \<Rightarrow> event \<Rightarrow> bytes" where
  "sent_by fd (Os (Write fd' bs), RInt n) = (if fd' = fd then take (nat n) bs else [])"
| "sent_by fd _ = []"

fun rcvd_by :: "int \<Rightarrow> event \<Rightarrow> bytes" where
  "rcvd_by fd (Os (Read fd' k), RBytes n d) = (if fd' = fd then d else [])"
| "rcvd_by fd _ = []"

definition sent :: "int \<Rightarrow> event list \<Rightarrow> bytes" where
  "sent fd es = concat (map (sent_by fd) es)"

definition rcvd :: "int \<Rightarrow> event list \<Rightarrow> bytes" where
  "rcvd fd es = concat (map (rcvd_by fd) es)"

lemma sent_simps [simp]:
  "sent fd [] = []" "sent fd (e # es) = sent_by fd e @ sent fd es"
  "sent fd (es @ es') = sent fd es @ sent fd es'"
  by (simp_all add: sent_def)

lemma rcvd_simps [simp]:
  "rcvd fd [] = []" "rcvd fd (e # es) = rcvd_by fd e @ rcvd fd es"
  "rcvd fd (es @ es') = rcvd fd es @ rcvd fd es'"
  by (simp_all add: rcvd_def)

section \<open>What a run has stored last at an address\<close>

fun store_at :: "ptr \<Rightarrow> event \<Rightarrow> bytes option" where
  "store_at p (Os (Mem_store q bs), r) = (if q = p then Some bs else None)"
| "store_at p _ = None"

fun stored :: "ptr \<Rightarrow> event list \<Rightarrow> bytes" where
  "stored p [] = []"
| "stored p (e # es) =
     (case stored p es of [] \<Rightarrow> (case store_at p e of Some bs \<Rightarrow> bs | None \<Rightarrow> []) | bs \<Rightarrow> bs)"

text \<open>Nobody else writes at \<open>p\<close>: it is read back as it was stored, zeros before the first store.\<close>

definition own_memory :: "env \<Rightarrow> ptr \<Rightarrow> bool" where
  "own_memory v p \<longleftrightarrow> (\<forall>h n. snd (env_bytes v h (Os (Mem_load p n))) = stored p h)"

end
