(* ===== verification/Contract.thy ===== *)
theory Contract
  imports Verbs
begin

text \<open>
  The abstract specification the programs are held to: the contract of the verbs API and of the
  operating system calls around it, as a monitor over the calls of a run.  Its state is the list of
  live resources.  A call breaks the contract when it uses a resource that is not live, destroys one
  that another live resource still needs, moves a queue pair along an edge the queue pair state
  machine does not have or without the attributes that edge requires
  (\<^verbatim>\<open>part-2-architecture/ch07-connection-management/qp-state-machine.md\<close>), posts a work request in
  a state that does not allow it or with a buffer outside its memory region, or accesses memory
  outside the live blocks.  The environment breaks its side when it hands out a handle that is
  already live, a block that wraps around the address space or overlaps a live one, or a memory region at another address
  than the one registered, or refuses to destroy a resource
  nothing depends on.
\<close>

section \<open>Resources\<close>

text \<open>What a handle is the handle of; two resources are told apart by their keys.\<close>

datatype (plugins only: code) key =
  KDevs ptr | KCtx ptr | KPd ptr | KCq ptr | KMr ptr | KQp ptr | KAh ptr
| KSrq ptr | KChan ptr | KId ptr | KBuf ptr | KStack ptr | KFd int | KAddrs ptr

text \<open>
  A live resource: its key, the resources it needs, its block of memory (for buffers and memory
  regions), and what the contract remembers of it.
\<close>

text \<open>The phases of a connection identifier, and the queue pair created for it (0 while there is none).\<close>

datatype cm_phase =
  Cm_new | Cm_listening | Cm_resolving | Cm_addr | Cm_routing | Cm_route | Cm_request | Cm_connecting
| Cm_established | Cm_closed

datatype info =
  Plain | Conn cm_phase ptr | Block ptr nat | Region ptr nat u32 "access set" | Queue qp_type qp_state

record res =
  res_key :: key
  res_needs :: "key list"
  res_info :: info

type_synonym ledger = "res list"

definition live :: "ledger \<Rightarrow> key \<Rightarrow> bool" where
  "live L k \<longleftrightarrow> (\<exists>r \<in> set L. res_key r = k)"

definition needed :: "ledger \<Rightarrow> key \<Rightarrow> bool" where
  "needed L k \<longleftrightarrow> (\<exists>r \<in> set L. k \<in> set (res_needs r))"

text \<open>\<open>k\<close> bytes at \<open>a\<close> lie within the \<open>n\<close> bytes at \<open>p\<close>.\<close>

definition within :: "ptr \<Rightarrow> nat \<Rightarrow> ptr \<Rightarrow> nat \<Rightarrow> bool" where
  "within p n a k \<longleftrightarrow> unat p \<le> unat a \<and> unat a + k \<le> unat p + n"

fun block_has :: "info \<Rightarrow> ptr \<Rightarrow> nat \<Rightarrow> bool" where
  "block_has (Block p n) a k = within p n a k"
| "block_has _ a k = False"

fun region_has :: "access set \<Rightarrow> info \<Rightarrow> ibv_sge \<Rightarrow> bool" where
  "region_has A (Region p n key A') g =
     (sge_lkey g = key \<and> A \<subseteq> A' \<and> within p n (sge_addr g) (unat (sge_length g)))"
| "region_has A _ g = False"

text \<open>A region starts in the block of \<open>n\<close> bytes at \<open>p\<close>.\<close>

fun region_in :: "ptr \<Rightarrow> nat \<Rightarrow> info \<Rightarrow> bool" where
  "region_in p n (Region a k key A) = (unat p \<le> unat a \<and> unat a < unat p + n)"
| "region_in p n _ = False"

definition mem_ok :: "ledger \<Rightarrow> ptr \<Rightarrow> nat \<Rightarrow> bool" where
  "mem_ok L a k \<longleftrightarrow> k = 0 \<or> (\<exists>r \<in> set L. block_has (res_info r) a k)"

definition sge_ok :: "ledger \<Rightarrow> access set \<Rightarrow> ibv_sge \<Rightarrow> bool" where
  "sge_ok L A g \<longleftrightarrow> (\<exists>r \<in> set L. region_has A (res_info r) g)"

section \<open>Acquiring and releasing\<close>

definition acquire :: "key \<Rightarrow> key list \<Rightarrow> info \<Rightarrow> ledger \<Rightarrow> ledger verdict" where
  "acquire k ns i L =
     (if \<not> (\<forall>n \<in> set ns. live L n) then Misuse
      else if live L k then Breach
      else Live (\<lparr>res_key = k, res_needs = ns, res_info = i\<rparr> # L))"

definition release :: "key \<Rightarrow> ledger \<Rightarrow> ledger verdict" where
  "release k L =
     (if live L k \<and> \<not> needed L k then Live (filter (\<lambda>r. res_key r \<noteq> k) L) else Misuse)"

text \<open>A handle 0 is a failure, a destructor's answer other than 0 a refusal.\<close>

definition acquire_ptr :: "ptr \<Rightarrow> key \<Rightarrow> key list \<Rightarrow> info \<Rightarrow> ledger \<Rightarrow> ledger verdict" where
  "acquire_ptr p k ns i L =
     (if \<not> (\<forall>n \<in> set ns. live L n) then Misuse else if p = 0 then Live L else acquire k ns i L)"

definition release_rc :: "int \<Rightarrow> key \<Rightarrow> ledger \<Rightarrow> ledger verdict" where
  "release_rc rc k L =
     (case release k L of Live L' \<Rightarrow> (if rc = 0 then Live L' else Breach) | b \<Rightarrow> b)"

text \<open>A new block starts in no live block, and no live block starts in it.\<close>

fun clash :: "ptr \<Rightarrow> nat \<Rightarrow> info \<Rightarrow> bool" where
  "clash p n (Block q m) =
     (unat p \<le> unat q \<and> unat q < unat p + n \<or> unat q \<le> unat p \<and> unat p < unat q + m)"
| "clash p n _ = False"

definition acquire_block :: "ptr \<Rightarrow> nat \<Rightarrow> (ptr \<Rightarrow> key) \<Rightarrow> ledger \<Rightarrow> ledger verdict" where
  "acquire_block p n k L =
     (if p = 0 then Live L
      else if 2 ^ 64 < unat p + n \<or> (\<exists>r \<in> set L. clash p n (res_info r)) then Breach
      else acquire (k p) [] (Block p n) L)"

text \<open>A memory region is described by the address it was registered with.\<close>

definition acquire_mr :: "ibv_mr \<Rightarrow> ptr \<Rightarrow> info \<Rightarrow> ptr \<Rightarrow> ledger \<Rightarrow> ledger verdict" where
  "acquire_mr m a i pd L =
     (if \<not> live L (KPd pd) then Misuse
      else if mr_ptr m = 0 then Live L
      else if mr_addr m \<noteq> a then Breach
      else acquire (KMr (mr_ptr m)) [KPd pd] i L)"

text \<open>Memory is given back only when no memory region starts in it any more.\<close>

definition block_size :: "ledger \<Rightarrow> key \<Rightarrow> nat" where
  "block_size L k =
     (case filter (\<lambda>r. res_key r = k) L of
        r # _ \<Rightarrow> (case res_info r of Block p n \<Rightarrow> n | _ \<Rightarrow> 0) | [] \<Rightarrow> 0)"

definition release_block :: "ptr \<Rightarrow> key \<Rightarrow> ledger \<Rightarrow> ledger verdict" where
  "release_block p k L =
     (if \<exists>r \<in> set L. region_in p (block_size L k) (res_info r) then Misuse else release k L)"

definition use :: "key list \<Rightarrow> ledger \<Rightarrow> ledger verdict" where
  "use ks L = (if \<forall>k \<in> set ks. live L k then Live L else Misuse)"

section \<open>The queue pair state machine\<close>

fun next_qps :: "qp_state \<Rightarrow> qp_state option" where
  "next_qps IBV_QPS_RESET = Some IBV_QPS_INIT"
| "next_qps IBV_QPS_INIT = Some IBV_QPS_RTR"
| "next_qps IBV_QPS_RTR = Some IBV_QPS_RTS"
| "next_qps IBV_QPS_RTS = None"

text \<open>The attributes the edge into a state requires, as the repository's chapter 7 lists them.\<close>

fun required :: "qp_type \<Rightarrow> qp_state \<Rightarrow> qp_mask set" where
  "required IBV_QPT_RC IBV_QPS_INIT =
     {IBV_QP_STATE, IBV_QP_PKEY_INDEX, IBV_QP_PORT, IBV_QP_ACCESS_FLAGS}"
| "required IBV_QPT_RC IBV_QPS_RTR =
     {IBV_QP_STATE, IBV_QP_AV, IBV_QP_PATH_MTU, IBV_QP_DEST_QPN, IBV_QP_RQ_PSN,
      IBV_QP_MAX_DEST_RD_ATOMIC, IBV_QP_MIN_RNR_TIMER}"
| "required IBV_QPT_RC IBV_QPS_RTS =
     {IBV_QP_STATE, IBV_QP_SQ_PSN, IBV_QP_TIMEOUT, IBV_QP_RETRY_CNT, IBV_QP_RNR_RETRY,
      IBV_QP_MAX_QP_RD_ATOMIC}"
| "required IBV_QPT_UD IBV_QPS_INIT =
     {IBV_QP_STATE, IBV_QP_PKEY_INDEX, IBV_QP_PORT, IBV_QP_QKEY}"
| "required IBV_QPT_UD IBV_QPS_RTS = {IBV_QP_STATE, IBV_QP_SQ_PSN}"
| "required _ _ = {IBV_QP_STATE}"

definition edge_ok :: "qp_type \<Rightarrow> qp_state \<Rightarrow> qp_attr \<Rightarrow> qp_mask set \<Rightarrow> bool" where
  "edge_ok t st a m \<longleftrightarrow>
     next_qps st = Some (qa_qp_state a) \<and> required t (qa_qp_state a) \<subseteq> m"

definition qp_entry :: "ledger \<Rightarrow> ptr \<Rightarrow> (qp_type \<times> qp_state) option" where
  "qp_entry L q =
     (case filter (\<lambda>r. res_key r = KQp q) L of
        r # _ \<Rightarrow> (case res_info r of Queue t st \<Rightarrow> Some (t, st) | _ \<Rightarrow> None) | [] \<Rightarrow> None)"

definition set_qp_state :: "ptr \<Rightarrow> qp_state \<Rightarrow> ledger \<Rightarrow> ledger" where
  "set_qp_state q st' L =
     map (\<lambda>r. if res_key r = KQp q
              then (case res_info r of Queue t st \<Rightarrow> r\<lparr>res_info := Queue t st'\<rparr> | _ \<Rightarrow> r)
              else r) L"

definition modify :: "ptr \<Rightarrow> qp_attr \<Rightarrow> qp_mask set \<Rightarrow> int \<Rightarrow> ledger \<Rightarrow> ledger verdict" where
  "modify q a m rc L =
     (case qp_entry L q of
        None \<Rightarrow> Misuse
      | Some (t, st) \<Rightarrow>
          if edge_ok t st a m then Live (if rc = 0 then set_qp_state q (qa_qp_state a) L else L)
          else Misuse)"

definition post_recv_ok :: "ledger \<Rightarrow> ptr \<Rightarrow> recv_wr \<Rightarrow> bool" where
  "post_recv_ok L q w \<longleftrightarrow>
     (case qp_entry L q of
        None \<Rightarrow> False
      | Some (t, st) \<Rightarrow>
          st \<noteq> IBV_QPS_RESET \<and> (\<forall>g \<in> set (rw_sg_list w). sge_ok L {IBV_ACCESS_LOCAL_WRITE} g))"

definition post_send_ok :: "ledger \<Rightarrow> ptr \<Rightarrow> send_wr \<Rightarrow> bool" where
  "post_send_ok L q w \<longleftrightarrow>
     (case qp_entry L q of
        None \<Rightarrow> False
      | Some (t, st) \<Rightarrow>
          st = IBV_QPS_RTS \<and>
          (t = IBV_QPT_UD \<longrightarrow> sw_opcode w = IBV_WR_SEND \<and> live L (KAh (sw_ah w))) \<and>
          (\<forall>g \<in> set (sw_sg_list w).
             sge_ok L (if sw_opcode w = IBV_WR_RDMA_READ then {IBV_ACCESS_LOCAL_WRITE} else {}) g))"

definition require :: "bool \<Rightarrow> ledger \<Rightarrow> ledger verdict" where
  "require b L = (if b then Live L else Misuse)"

section \<open>The contract, call by call\<close>

text \<open>What an answer holds; a call gets the answer its type in C asks for.\<close>

fun rint :: "resp \<Rightarrow> int" where
  "rint (RInt n) = n"
| "rint (RAddrs n p as) = n"
| "rint (RIntPtr n p) = n"
| "rint (RCm n e) = n"
| "rint _ = 0"

fun rptr :: "resp \<Rightarrow> ptr" where
  "rptr (RPtr p) = p"
| "rptr (RDevs p ds) = p"
| "rptr (RAddrs n p as) = p"
| "rptr (RIntPtr n p) = p"
| "rptr _ = 0"

fun rmr :: "resp \<Rightarrow> ibv_mr" where
  "rmr (RMr m) = m"
| "rmr _ = \<lparr>mr_ptr = 0, mr_addr = 0, mr_lkey = 0, mr_rkey = 0\<rparr>"

fun rqp :: "resp \<Rightarrow> ibv_qp" where
  "rqp (RQp q) = q"
| "rqp _ = \<lparr>qp_ptr = 0, qp_num = 0\<rparr>"

fun os_step :: "ledger \<Rightarrow> os_call \<Rightarrow> resp \<Rightarrow> ledger verdict" where
  "os_step L (Calloc m n) r = acquire_block (rptr r) (m * n) KBuf L"
| "os_step L (Malloc n) r = acquire_block (rptr r) n KBuf L"
| "os_step L (Aligned_alloc a n) r = acquire_block (rptr r) n KBuf L"
| "os_step L (Stack_var n) r = (if rptr r = 0 then Breach else acquire_block (rptr r) n KStack L)"
| "os_step L (Free p) r = (if p = 0 then Live L else release_block p (KBuf p) L)"
| "os_step L (Stack_end p) r = release_block p (KStack p) L"
| "os_step L (Mem_store p bs) r = require (mem_ok L p (length bs)) L"
| "os_step L (Mem_load p n) r = require (mem_ok L p n) L"
| "os_step L (Getaddrinfo host port fam ty) r =
     (if rint r = 0 then acquire (KAddrs (rptr r)) [] Plain L else Live L)"
| "os_step L (Freeaddrinfo p) r = release (KAddrs p) L"
| "os_step L (Socket d t p) r = (if (rint r) < 0 then Live L else acquire (KFd (rint r)) [] Plain L)"
| "os_step L (Accept l) r =
     (if \<not> live L (KFd l) then Misuse
      else if (rint r) < 0 then Live L else acquire (KFd (rint r)) [] Plain L)"
| "os_step L (Close fd) r = release (KFd fd) L"
| "os_step L (Connect fd a) r = use [KFd fd] L"
| "os_step L (Setsockopt fd) r = use [KFd fd] L"
| "os_step L (Bind fd a) r = use [KFd fd] L"
| "os_step L (Listen fd n) r = use [KFd fd] L"
| "os_step L (Write fd bs) r = use [KFd fd] L"
| "os_step L (Read fd n) r = use [KFd fd] L"
| "os_step L (Gethostbyname s) r = Live L"
| "os_step L (Print s) r = Live L"
| "os_step L Pthread_create r = Live L"
| "os_step L (Set_running n) r = Live L"
| "os_step L Get_running r = Live L"
| "os_step L Getpid r = Live L"
| "os_step L Time r = Live L"
| "os_step L (Srand48 n) r = Live L"
| "os_step L Lrand48 r = Live L"
| "os_step L Clock_gettime r = Live L"

fun vb_step :: "ledger \<Rightarrow> vb_call \<Rightarrow> resp \<Rightarrow> ledger verdict" where
  "vb_step L Ibv_get_device_list r = acquire_ptr (rptr r) (KDevs (rptr r)) [] Plain L"
| "vb_step L (Ibv_free_device_list p) r = release (KDevs p) L"
| "vb_step L (Ibv_open_device d) r = acquire_ptr (rptr r) (KCtx (rptr r)) [] Plain L"
| "vb_step L (Ibv_close_device c) r = release_rc (rint r) (KCtx c) L"
| "vb_step L (Ibv_query_device c) r = use [KCtx c] L"
| "vb_step L (Ibv_query_port c n) r = use [KCtx c] L"
| "vb_step L (Ibv_query_gid c n i) r = use [KCtx c] L"
| "vb_step L (Ibv_alloc_pd c) r = acquire_ptr (rptr r) (KPd (rptr r)) [KCtx c] Plain L"
| "vb_step L (Ibv_dealloc_pd p) r = release_rc (rint r) (KPd p) L"
| "vb_step L (Ibv_create_cq c n) r = acquire_ptr (rptr r) (KCq (rptr r)) [KCtx c] Plain L"
| "vb_step L (Ibv_destroy_cq p) r = release_rc (rint r) (KCq p) L"
| "vb_step L (Ibv_reg_mr pd a n A) r =
     acquire_mr (rmr r) a (Region a n (mr_lkey (rmr r)) A) pd L"
| "vb_step L (Ibv_dereg_mr p) r = release_rc (rint r) (KMr p) L"
| "vb_step L (Ibv_create_qp pd a) r =
     acquire_ptr (qp_ptr (rqp r)) (KQp (qp_ptr (rqp r)))
       ([KPd pd, KCq (qi_send_cq a), KCq (qi_recv_cq a)] @ (if qi_srq a = 0 then [] else [KSrq (qi_srq a)]))
       (Queue (qi_qp_type a) IBV_QPS_RESET) L"
| "vb_step L (Ibv_destroy_qp q) r = release_rc (rint r) (KQp q) L"
| "vb_step L (Ibv_modify_qp q a m) r = modify q a m (rint r) L"
| "vb_step L (Ibv_post_send q w) r = require (post_send_ok L q w) L"
| "vb_step L (Ibv_post_recv q w) r = require (post_recv_ok L q w) L"
| "vb_step L (Ibv_poll_cq c n) r = use [KCq c] L"
| "vb_step L (Ibv_create_ah pd a) r = acquire_ptr (rptr r) (KAh (rptr r)) [KPd pd] Plain L"
| "vb_step L (Ibv_destroy_ah p) r = release_rc (rint r) (KAh p) L"
| "vb_step L (Ibv_create_srq pd n k) r = acquire_ptr (rptr r) (KSrq (rptr r)) [KPd pd] Plain L"
| "vb_step L (Ibv_destroy_srq p) r = release_rc (rint r) (KSrq p) L"
| "vb_step L (Ibv_modify_srq p n) r = use [KSrq p] L"
| "vb_step L (Ibv_post_srq_recv p w) r =
     require (live L (KSrq p) \<and> (\<forall>g \<in> set (rw_sg_list w). sge_ok L {IBV_ACCESS_LOCAL_WRITE} g)) L"
| "vb_step L (Ibv_get_async_event c) r = use [KCtx c] L"
| "vb_step L Ibv_ack_async_event r = Live L"

section \<open>Connections\<close>

text \<open>
  The part of the contract for librdmacm.  An identifier walks through its phases; a queue pair created
  for it is in INIT at once and in RTS when the connection is established.  The library opens the
  device contexts it hands out in identifiers, and keeps them open: they are entered at the end of the
  ledger.  That an identifier is destroyed before its event channel, and its queue pair before it, is
  not asked here.
\<close>

definition id_entry :: "ledger \<Rightarrow> ptr \<Rightarrow> (cm_phase \<times> ptr) option" where
  "id_entry L i =
     (case filter (\<lambda>r. res_key r = KId i) L of
        r # _ \<Rightarrow> (case res_info r of Conn ph q \<Rightarrow> Some (ph, q) | _ \<Rightarrow> None) | [] \<Rightarrow> None)"

definition set_id :: "ptr \<Rightarrow> cm_phase \<Rightarrow> ptr \<Rightarrow> ledger \<Rightarrow> ledger" where
  "set_id i ph q L = map (\<lambda>r. if res_key r = KId i then r\<lparr>res_info := Conn ph q\<rparr> else r) L"

definition open_lib :: "ptr \<Rightarrow> ledger \<Rightarrow> ledger" where
  "open_lib c L =
     (if live L (KCtx c) then L else L @ [\<lparr>res_key = KCtx c, res_needs = [], res_info = Plain\<rparr>])"

text \<open>A call in phase \<open>ph\<close> that moves the identifier on if it succeeds.\<close>

definition cm_move :: "ptr \<Rightarrow> (cm_phase \<Rightarrow> ptr \<Rightarrow> bool) \<Rightarrow> cm_phase \<Rightarrow> int \<Rightarrow> ledger \<Rightarrow> ledger verdict" where
  "cm_move i ok ph' rc L =
     (case id_entry L i of
        None \<Rightarrow> Misuse
      | Some (ph, q) \<Rightarrow> if ok ph q then Live (if rc = 0 then set_id i ph' q L else L) else Misuse)"

text \<open>The phase an event finds the identifier in, and the one it leaves it in.\<close>

fun cm_edge :: "cm_event_type \<Rightarrow> (cm_phase \<times> cm_phase) option" where
  "cm_edge RDMA_CM_EVENT_ADDR_RESOLVED = Some (Cm_resolving, Cm_addr)"
| "cm_edge RDMA_CM_EVENT_ADDR_ERROR = Some (Cm_resolving, Cm_closed)"
| "cm_edge RDMA_CM_EVENT_ROUTE_RESOLVED = Some (Cm_routing, Cm_route)"
| "cm_edge RDMA_CM_EVENT_ROUTE_ERROR = Some (Cm_routing, Cm_closed)"
| "cm_edge RDMA_CM_EVENT_CONNECT_ERROR = Some (Cm_connecting, Cm_closed)"
| "cm_edge RDMA_CM_EVENT_UNREACHABLE = Some (Cm_connecting, Cm_closed)"
| "cm_edge RDMA_CM_EVENT_REJECTED = Some (Cm_connecting, Cm_closed)"
| "cm_edge RDMA_CM_EVENT_ESTABLISHED = Some (Cm_connecting, Cm_established)"
| "cm_edge RDMA_CM_EVENT_DISCONNECTED = Some (Cm_established, Cm_closed)"
| "cm_edge _ = None"

definition listening :: "ledger \<Rightarrow> bool" where
  "listening L \<longleftrightarrow> (\<exists>r \<in> set L. \<exists>q. res_info r = Conn Cm_listening q)"

definition cm_deliver :: "cm_event \<Rightarrow> ledger \<Rightarrow> ledger verdict" where
  "cm_deliver e L =
     (if ev_type e = RDMA_CM_EVENT_CONNECT_REQUEST
      then (if ev_id e = 0 \<or> live L (KId (ev_id e)) \<or> \<not> listening L then Breach
            else Live (\<lparr>res_key = KId (ev_id e), res_needs = [], res_info = Conn Cm_request 0\<rparr>
                       # open_lib (ev_verbs e) L))
      else case cm_edge (ev_type e) of
        None \<Rightarrow> Live L
      | Some (ph, ph') \<Rightarrow>
          (case id_entry L (ev_id e) of
             None \<Rightarrow> Breach
           | Some (st, q) \<Rightarrow>
               if st \<noteq> ph then Breach
               else Live (open_lib (ev_verbs e)
                 ((if ph' = Cm_established then set_qp_state q IBV_QPS_RTS else id)
                    (set_id (ev_id e) ph' q L)))))"

fun rcm :: "resp \<Rightarrow> cm_event" where
  "rcm (RCm n e) = e"
| "rcm _ = \<lparr>ev_type = Cm_event_other 0, ev_id = 0, ev_verbs = 0\<rparr>"

fun cm_step :: "ledger \<Rightarrow> cm_call \<Rightarrow> resp \<Rightarrow> ledger verdict" where
  "cm_step L Rdma_create_event_channel r = acquire_ptr (rptr r) (KChan (rptr r)) [] Plain L"
| "cm_step L (Rdma_destroy_event_channel c) r = release (KChan c) L"
| "cm_step L (Rdma_create_id c) r =
     (if \<not> live L (KChan c) then Misuse
      else if rint r \<noteq> 0 then Live L
      else if rptr r = 0 then Breach
      else acquire (KId (rptr r)) [] (Conn Cm_new 0) L)"
| "cm_step L (Rdma_destroy_id i) r = release (KId i) L"
| "cm_step L (Rdma_bind_addr i a) r = use [KId i] L"
| "cm_step L (Rdma_listen i n) r = cm_move i (\<lambda>ph q. ph = Cm_new) Cm_listening (rint r) L"
| "cm_step L (Rdma_resolve_addr i a t) r = cm_move i (\<lambda>ph q. ph = Cm_new) Cm_resolving (rint r) L"
| "cm_step L (Rdma_resolve_route i t) r = cm_move i (\<lambda>ph q. ph = Cm_addr) Cm_routing (rint r) L"
| "cm_step L (Rdma_create_qp i pd a) r =
     (case id_entry L i of
        Some (ph, q) \<Rightarrow>
          if q \<noteq> 0 \<or> \<not> (live L (KPd pd) \<and> live L (KCq (qi_send_cq a)) \<and> live L (KCq (qi_recv_cq a))) then Misuse
          else if rint r \<noteq> 0 then Live L
          else if rptr r = 0 then Breach
          else acquire (KQp (rptr r)) [KPd pd, KCq (qi_send_cq a), KCq (qi_recv_cq a)]
            (Queue (qi_qp_type a) IBV_QPS_INIT) (set_id i ph (rptr r) L)
      | None \<Rightarrow> Misuse)"
| "cm_step L (Rdma_destroy_qp i) r =
     (case id_entry L i of
        Some (ph, q) \<Rightarrow> if q = 0 then Misuse else release (KQp q) (set_id i ph 0 L)
      | None \<Rightarrow> Misuse)"
| "cm_step L (Rdma_accept i p) r = cm_move i (\<lambda>ph q. ph = Cm_request \<and> q \<noteq> 0) Cm_connecting (rint r) L"
| "cm_step L (Rdma_connect i p) r = cm_move i (\<lambda>ph q. ph = Cm_route \<and> q \<noteq> 0) Cm_connecting (rint r) L"
| "cm_step L (Rdma_disconnect i) r = use [KId i] L"
| "cm_step L (Rdma_get_cm_event c) r =
     (if \<not> live L (KChan c) then Misuse else if rint r \<noteq> 0 then Live L else cm_deliver (rcm r) L)"
| "cm_step L Rdma_ack_cm_event r = Live L"
| "cm_step L (Inet_pton s) r = Live L"

definition contract :: "ledger \<Rightarrow> event \<Rightarrow> ledger verdict" where
  "contract L e = (case e of (Os c, r) \<Rightarrow> os_step L c r | (Vb c, r) \<Rightarrow> vb_step L c r | (Cm c, r) \<Rightarrow> cm_step L c r)"

lemma contract_Os [simp]: "contract L (Os c, r) = os_step L c r"
  by (simp add: contract_def)

lemma contract_Vb [simp]: "contract L (Vb c, r) = vb_step L c r"
  by (simp add: contract_def)

lemma contract_Cm [simp]: "contract L (Cm c, r) = cm_step L c r"
  by (simp add: contract_def)

text \<open>
  \<open>keeps v m L Q\<close>: from the ledger \<open>L\<close>, the program \<open>m\<close> keeps to the contract whatever the
  libraries answer, and \<open>Q\<close> holds of its outcome and the resources live at its end.
\<close>

abbreviation keeps :: "env \<Rightarrow> 'a io \<Rightarrow> ledger \<Rightarrow> ('a outcome \<Rightarrow> ledger \<Rightarrow> bool) \<Rightarrow> bool" where
  "keeps \<equiv> obeys contract"

section \<open>Well-formed ledgers\<close>

text \<open>Every resource was acquired when the ones it needs were live, and they outlive it.\<close>

fun wf_ledger :: "ledger \<Rightarrow> bool" where
  "wf_ledger [] = True"
| "wf_ledger (r # L) = ((\<forall>k \<in> set (res_needs r). live L k) \<and> wf_ledger L)"

lemma wf_needed_live: "wf_ledger L \<Longrightarrow> needed L k \<Longrightarrow> live L k"
  by (induction L) (auto simp: needed_def live_def)

lemma fresh_not_needed: "wf_ledger L \<Longrightarrow> \<not> live L k \<Longrightarrow> \<not> needed L k"
  using wf_needed_live by blast

lemma filter_fresh: "\<not> live L k \<Longrightarrow> filter (\<lambda>r. res_key r \<noteq> k) L = L"
  by (auto simp: live_def filter_id_conv)

section \<open>Rules\<close>

named_theorems ledger_simps \<open>evaluation of the contract on a ledger of known shape\<close>

lemma live_simps [ledger_simps]:
  "live [] k = False"
  "live (r # L) k \<longleftrightarrow> res_key r = k \<or> live L k"
  by (simp_all add: live_def)

lemma needed_simps [ledger_simps]:
  "needed [] k = False"
  "needed (r # L) k \<longleftrightarrow> k \<in> set (res_needs r) \<or> needed L k"
  by (simp_all add: needed_def)

lemma mem_ok_simps [ledger_simps]:
  "mem_ok [] a k \<longleftrightarrow> k = 0"
  "mem_ok (r # L) a k \<longleftrightarrow> block_has (res_info r) a k \<or> mem_ok L a k"
  by (auto simp: mem_ok_def)

lemma sge_ok_simps [ledger_simps]:
  "sge_ok [] A g = False"
  "sge_ok (r # L) A g \<longleftrightarrow> region_has A (res_info r) g \<or> sge_ok L A g"
  by (auto simp: sge_ok_def)

lemma qp_entry_simps [ledger_simps]:
  "qp_entry [] q = None"
  "qp_entry (r # L) q =
     (if res_key r = KQp q then (case res_info r of Queue t st \<Rightarrow> Some (t, st) | _ \<Rightarrow> None)
      else qp_entry L q)"
  by (simp_all add: qp_entry_def)

lemma set_qp_state_simps [ledger_simps]:
  "set_qp_state q st [] = []"
  "set_qp_state q st (r # L) =
     (if res_key r = KQp q
      then (case res_info r of Queue t st' \<Rightarrow> r\<lparr>res_info := Queue t st\<rparr> | _ \<Rightarrow> r) else r)
     # set_qp_state q st L"
  by (simp_all add: set_qp_state_def)

lemma id_entry_simps [ledger_simps]:
  "id_entry [] i = None"
  "id_entry (r # L) i =
     (if res_key r = KId i then (case res_info r of Conn ph q \<Rightarrow> Some (ph, q) | _ \<Rightarrow> None)
      else id_entry L i)"
  by (simp_all add: id_entry_def)

lemma set_id_simps [ledger_simps]:
  "set_id i ph q [] = []"
  "set_id i ph q (r # L) =
     (if res_key r = KId i then r\<lparr>res_info := Conn ph q\<rparr> else r) # set_id i ph q L"
  by (simp_all add: set_id_def)

lemma fair_cm_move [simp]:
  "fair P (cm_move i ok ph' rc L) \<longleftrightarrow>
     (\<exists>ph q. id_entry L i = Some (ph, q) \<and> ok ph q \<and> (if rc = 0 then P (set_id i ph' q L) else P L))"
  by (auto simp: cm_move_def split: option.splits)

lemma block_size_simps [ledger_simps]:
  "block_size [] k = 0"
  "block_size (r # L) k =
     (if res_key r = k then (case res_info r of Block p n \<Rightarrow> n | _ \<Rightarrow> 0) else block_size L k)"
  by (simp_all add: block_size_def)

lemma within_start [simp]: "within p n p k \<longleftrightarrow> k \<le> n"
  by (simp add: within_def)

lemma fair_acquire [simp]:
  "fair P (acquire k ns i L) \<longleftrightarrow>
     (\<forall>n \<in> set ns. live L n) \<and>
     (\<not> live L k \<longrightarrow> P (\<lparr>res_key = k, res_needs = ns, res_info = i\<rparr> # L))"
  by (simp add: acquire_def)

lemma fair_acquire_ptr [simp]:
  "fair P (acquire_ptr p k ns i L) \<longleftrightarrow>
     (\<forall>n \<in> set ns. live L n) \<and>
     (p = 0 \<longrightarrow> P L) \<and>
     (p \<noteq> 0 \<longrightarrow> \<not> live L k \<longrightarrow> P (\<lparr>res_key = k, res_needs = ns, res_info = i\<rparr> # L))"
  by (auto simp: acquire_ptr_def)

lemma fair_acquire_block [simp]:
  "fair P (acquire_block p n k L) \<longleftrightarrow>
     (p = 0 \<longrightarrow> P L) \<and>
     (p \<noteq> 0 \<longrightarrow> unat p + n \<le> 2 ^ 64 \<longrightarrow> (\<forall>r \<in> set L. \<not> clash p n (res_info r)) \<longrightarrow> \<not> live L (k p) \<longrightarrow>
        P (\<lparr>res_key = k p, res_needs = [], res_info = Block p n\<rparr> # L))"
  by (auto simp: acquire_block_def)

lemma fair_acquire_mr [simp]:
  "fair P (acquire_mr m a i pd L) \<longleftrightarrow>
     live L (KPd pd) \<and>
     (mr_ptr m = 0 \<longrightarrow> P L) \<and>
     (mr_ptr m \<noteq> 0 \<longrightarrow> mr_addr m = a \<longrightarrow> \<not> live L (KMr (mr_ptr m)) \<longrightarrow>
        P (\<lparr>res_key = KMr (mr_ptr m), res_needs = [KPd pd], res_info = i\<rparr> # L))"
  by (auto simp: acquire_mr_def)

lemma fair_release [simp]:
  "fair P (release k L) \<longleftrightarrow>
     live L k \<and> \<not> needed L k \<and> P (filter (\<lambda>r. res_key r \<noteq> k) L)"
  by (simp add: release_def)

lemma fair_release_rc [simp]:
  "fair P (release_rc rc k L) \<longleftrightarrow>
     live L k \<and> \<not> needed L k \<and> (rc = 0 \<longrightarrow> P (filter (\<lambda>r. res_key r \<noteq> k) L))"
  by (simp add: release_rc_def release_def)

lemma fair_release_block [simp]:
  "fair P (release_block p k L) \<longleftrightarrow>
     \<not> (\<exists>r \<in> set L. region_in p (block_size L k) (res_info r)) \<and>
     live L k \<and> \<not> needed L k \<and> P (filter (\<lambda>r. res_key r \<noteq> k) L)"
  by (auto simp: release_block_def)

lemma fair_use [simp]: "fair P (use ks L) \<longleftrightarrow> (\<forall>k \<in> set ks. live L k) \<and> P L"
  by (simp add: use_def)

lemma fair_require [simp]: "fair P (require b L) \<longleftrightarrow> b \<and> P L"
  by (simp add: require_def)

lemma fair_modify [simp]:
  "fair P (modify q a m rc L) \<longleftrightarrow>
     (\<exists>t st. qp_entry L q = Some (t, st) \<and> edge_ok t st a m \<and>
        (if rc = 0 then P (set_qp_state q (qa_qp_state a) L) else P L))"
  by (auto simp: modify_def split: option.splits)

text \<open>The entries the programs' ledgers are made of.\<close>

abbreviation fd_res :: "int \<Rightarrow> res" where
  "fd_res fd \<equiv> \<lparr>res_key = KFd fd, res_needs = [], res_info = Plain\<rparr>"

abbreviation ctx_res :: "ptr \<Rightarrow> res" where
  "ctx_res c \<equiv> \<lparr>res_key = KCtx c, res_needs = [], res_info = Plain\<rparr>"

abbreviation pd_res :: "ptr \<Rightarrow> ptr \<Rightarrow> res" where
  "pd_res p c \<equiv> \<lparr>res_key = KPd p, res_needs = [KCtx c], res_info = Plain\<rparr>"

abbreviation cq_res :: "ptr \<Rightarrow> ptr \<Rightarrow> res" where
  "cq_res p c \<equiv> \<lparr>res_key = KCq p, res_needs = [KCtx c], res_info = Plain\<rparr>"

abbreviation qp_res :: "ptr \<Rightarrow> ptr \<Rightarrow> ptr \<Rightarrow> qp_type \<Rightarrow> qp_state \<Rightarrow> res" where
  "qp_res q pd cq ty st \<equiv> \<lparr>res_key = KQp q, res_needs = [KPd pd, KCq cq, KCq cq], res_info = Queue ty st\<rparr>"

abbreviation mr_res :: "ibv_mr \<Rightarrow> ptr \<Rightarrow> ptr \<Rightarrow> nat \<Rightarrow> access set \<Rightarrow> res" where
  "mr_res m pd a n A \<equiv>
     \<lparr>res_key = KMr (mr_ptr m), res_needs = [KPd pd], res_info = Region a n (mr_lkey m) A\<rparr>"

abbreviation buf_res :: "ptr \<Rightarrow> nat \<Rightarrow> res" where
  "buf_res p n \<equiv> \<lparr>res_key = KBuf p, res_needs = [], res_info = Block p n\<rparr>"

text \<open>What a run that keeps to the contract shows of its list of calls.\<close>

definition clean :: "event list \<Rightarrow> bool" where
  "clean es \<longleftrightarrow> mon_run contract [] es \<noteq> Misuse"

definition leftover :: "event list \<Rightarrow> ledger" where
  "leftover es = (case mon_run contract [] es of Live L \<Rightarrow> L | _ \<Rightarrow> [])"

lemma keeps_clean:
  "keeps v m [] Q \<Longrightarrow> m v h = (r, es) \<Longrightarrow> clean es"
  by (drule (1) obeysD) (cases "mon_run contract [] es"; simp add: clean_def)

lemma leftover_either: "keeps v m [] Q \<Longrightarrow> m v h = (r, es) \<Longrightarrow> Q r (leftover es) \<or> leftover es = []"
  by (drule (1) obeysD) (cases "mon_run contract [] es"; simp add: leftover_def)

lemma keeps_leftover:
  assumes "keeps v m [] (\<lambda>r L. r = Ret a \<longrightarrow> L = [])" "m v h = (Ret a, es)"
  shows "leftover es = []"
  using obeysD [OF assms] by (cases "mon_run contract [] es") (auto simp: leftover_def)

end
