(* ===== verification/Scenario.thy ===== *)
theory Scenario
  imports Verbs
begin

text \<open>
  A concrete environment in which every call succeeds: the witnesses of the development run the
  programs in it.  Handles and descriptors are numbered by the length of the history, so no two are
  the same; every poll finds one successful completion; what is read from a descriptor is the given
  byte stream of the peer, and a buffer holds what the program last stored at its start.
\<close>

definition lab_handle :: "event list \<Rightarrow> ptr" where
  "lab_handle h = of_nat (4096 * (length h + 1))"

definition lab_int :: "event list \<Rightarrow> call \<Rightarrow> int" where
  "lab_int h c =
     (case c of
        Os (Write fd bs) \<Rightarrow> int (length bs)
      | Os (Socket d t p) \<Rightarrow> int (length h) + 3
      | Os (Accept l) \<Rightarrow> int (length h) + 3
      | Os Lrand48 \<Rightarrow> 2 ^ 24 + 5
      | _ \<Rightarrow> 0)"

definition lab_read :: "bytes \<Rightarrow> event list \<Rightarrow> call \<Rightarrow> int \<times> bytes" where
  "lab_read peer h c =
     (case c of
        Os (Read fd n) \<Rightarrow> (int n, take n (drop (length (rcvd fd h)) peer))
      | Os (Mem_load p n) \<Rightarrow> (int n, stored p h)
      | _ \<Rightarrow> (0, []))"

definition lab_mr :: "event list \<Rightarrow> call \<Rightarrow> ibv_mr" where
  "lab_mr h c =
     \<lparr>mr_ptr = lab_handle h, mr_addr = (case c of Vb (Ibv_reg_mr pd a n A) \<Rightarrow> a | _ \<Rightarrow> 0),
      mr_lkey = 7, mr_rkey = 9\<rparr>"

definition lab_wc :: ibv_wc where
  "lab_wc = zero_wc\<lparr>wc_opcode := IBV_WC_RECV, wc_byte_len := 64, wc_qp_num := 17\<rparr>"

definition lab_devattr :: ibv_device_attr where
  "lab_devattr =
     \<lparr>da_fw_ver = ''1.0'', da_node_guid = 1, da_sys_image_guid = 1, da_max_mr_size = 4096,
      da_page_size_cap = 4096, da_vendor_id = 5, da_vendor_part_id = 6, da_hw_ver = 0, da_max_qp = 8,
      da_max_qp_wr = 64, da_max_sge = 4, da_max_sge_rd = 4, da_max_cq = 8, da_max_cqe = 64,
      da_max_mr = 8, da_max_pd = 8, da_max_qp_rd_atom = 1, da_max_qp_init_rd_atom = 1,
      da_max_srq = 4, da_max_srq_wr = 64, da_max_srq_sge = 1, da_max_mcast_grp = 0,
      da_phys_port_cnt = 1, da_atomic_cap = IBV_ATOMIC_NONE\<rparr>"

definition lab_env :: "u32 \<Rightarrow> gid \<Rightarrow> bytes \<Rightarrow> env" where
  "lab_env qpn g peer =
     \<lparr>env_order = Little, env_errno = \<lambda>h. 0, env_int = lab_int, env_ptr = \<lambda>h c. lab_handle h,
      env_mr = lab_mr,
      env_qp = \<lambda>h c. \<lparr>qp_ptr = lab_handle h, qp_num = qpn\<rparr>,
      env_bytes = lab_read peer, env_wc = \<lambda>h c. (1, [lab_wc]),
      env_devs = \<lambda>h. (lab_handle h, [\<lparr>dev_ptr = 64, dev_name = ''mlx5_0'', dev_guid = 1\<rparr>,
                                   \<lparr>dev_ptr = 128, dev_name = ''mlx5_1'', dev_guid = 2\<rparr>]),
      env_addrs = \<lambda>h c. (0, lab_handle h, [\<lparr>ai_family = AF_INET, ai_socktype = SOCK_STREAM,
                                         ai_protocol = 6, ai_addr = 32, ai_addrlen = 16\<rparr>]),
      env_port = \<lambda>h c. (0, \<lparr>pa_state = IBV_PORT_ACTIVE, pa_link_layer = IBV_LINK_LAYER_ETHERNET,
                         pa_active_mtu = IBV_MTU_1024, pa_lid = 3, pa_sm_lid = 1,
                         pa_max_msg_sz = 1024, pa_gid_tbl_len = 2, pa_pkey_tbl_len = 1\<rparr>),
      env_gid = \<lambda>h c. (0, g),
      env_time = \<lambda>h. (int (length h), 0), env_devattr = \<lambda>h. (0, lab_devattr),
      env_async = \<lambda>h. (0, IBV_EVENT_SRQ_LIMIT_REACHED),
      env_intptr = \<lambda>h c. (0, lab_handle h),
      env_cm = \<lambda>h. (- 1, \<lparr>ev_type = Cm_event_other 0, ev_id = 0, ev_verbs = 0\<rparr>)\<rparr>"

section \<open>Running a program in it\<close>

lemma lab_env_simps:
  "env_order (lab_env q g ps) = Little"
  "env_errno (lab_env q g ps) h = 0"
  "env_int (lab_env q g ps) h c = lab_int h c"
  "env_ptr (lab_env q g ps) h c = lab_handle h"
  "env_mr (lab_env q g ps) h c = lab_mr h c"
  "env_qp (lab_env q g ps) h c = \<lparr>qp_ptr = lab_handle h, qp_num = q\<rparr>"
  "env_bytes (lab_env q g ps) h c = lab_read ps h c"
  "env_wc (lab_env q g ps) h c = (1, [lab_wc])"
  "env_devs (lab_env q g ps) h =
     (lab_handle h, [\<lparr>dev_ptr = 64, dev_name = ''mlx5_0'', dev_guid = 1\<rparr>,
                     \<lparr>dev_ptr = 128, dev_name = ''mlx5_1'', dev_guid = 2\<rparr>])"
  "env_addrs (lab_env q g ps) h c =
     (0, lab_handle h, [\<lparr>ai_family = AF_INET, ai_socktype = SOCK_STREAM,
                         ai_protocol = 6, ai_addr = 32, ai_addrlen = 16\<rparr>])"
  "env_port (lab_env q g ps) h c =
     (0, \<lparr>pa_state = IBV_PORT_ACTIVE, pa_link_layer = IBV_LINK_LAYER_ETHERNET,
          pa_active_mtu = IBV_MTU_1024, pa_lid = 3, pa_sm_lid = 1, pa_max_msg_sz = 1024,
          pa_gid_tbl_len = 2, pa_pkey_tbl_len = 1\<rparr>)"
  "env_gid (lab_env q g ps) h c = (0, g)"
  "env_time (lab_env q g ps) h = (int (length h), 0)"
  "env_devattr (lab_env q g ps) h = (0, lab_devattr)"
  "env_async (lab_env q g ps) h = (0, IBV_EVENT_SRQ_LIMIT_REACHED)"
  "env_intptr (lab_env q g ps) h c = (0, lab_handle h)"
  by (simp_all add: lab_env_def)

text \<open>Evaluation of a program applied to its environment and history.\<close>

lemma run_bnd:
  "bnd m f v h = (case m v h of
     (Ret a, es) \<Rightarrow> (case f a v (h @ es) of (r, es') \<Rightarrow> (r, es @ es'))
   | (Exit n, es) \<Rightarrow> (Exit n, es) | (UB, es) \<Rightarrow> (UB, es) | (Hang, es) \<Rightarrow> (Hang, es))"
  by (simp add: bnd_def)

lemma run_seq:
  "seq m n v h = (case m v h of
     (Ret a, es) \<Rightarrow> (case n v (h @ es) of (r, es') \<Rightarrow> (r, es @ es'))
   | (Exit n, es) \<Rightarrow> (Exit n, es) | (UB, es) \<Rightarrow> (UB, es) | (Hang, es) \<Rightarrow> (Hang, es))"
  by (simp add: seq_def run_bnd)

lemmas run_defs = run_bnd run_seq run_simps sys_defs [THEN fun_cong, THEN fun_cong]

lemmas lab_options = atoi_def is_space_def is_digit_def digits_value_def Let_def

end
