(* ===== verification/Common_Tcp.thy ===== *)
theory Common_Tcp
  imports Contract Scenario
begin

text \<open>
  \<^verbatim>\<open>common/rdma_common.h\<close> and the first half of \<^verbatim>\<open>common/rdma_common.c\<close>: the error checking macros,
  the TCP helpers that open the side channel, and the loops that move a block of bytes over it.
\<close>

section \<open>Macros and parameters of rdma\_common.h\<close>

definition EXIT_FAILURE :: int where "EXIT_FAILURE = 1"

definition CHECK_NULL :: "ptr \<Rightarrow> unit io" where
  "CHECK_NULL p = (if p = 0 then halt EXIT_FAILURE else ret ())"

definition CHECK_ERRNO :: "int \<Rightarrow> unit io" where
  "CHECK_ERRNO r = (if r \<noteq> 0 then halt EXIT_FAILURE else ret ())"

definition CHECK_RC :: "int \<Rightarrow> unit io" where
  "CHECK_RC r = (if r \<noteq> 0 then halt EXIT_FAILURE else ret ())"

text \<open>\<^verbatim>\<open>CHECK_NULL((fd >= 0) ? (void *)1 : NULL, ...)\<close>, as the programs check descriptors.\<close>

definition check_fd :: "int \<Rightarrow> unit io" where
  "check_fd fd = CHECK_NULL (if fd \<ge> 0 then 1 else 0)"

text \<open>A function whose result is 0 and a filled in structure, or an error code.\<close>

definition CHECK_ERRNO_out :: "int + 'a \<Rightarrow> 'a io" where
  "CHECK_ERRNO_out r = (case r of Inl e \<Rightarrow> seq (CHECK_ERRNO e) undef | Inr x \<Rightarrow> ret x)"

definition DEFAULT_PORT :: int where "DEFAULT_PORT = 18515"
definition DEFAULT_IB_PORT :: int where "DEFAULT_IB_PORT = 1"
definition DEFAULT_GID_INDEX :: int where "DEFAULT_GID_INDEX = 1"
definition DEFAULT_MSG_SIZE :: int where "DEFAULT_MSG_SIZE = 64"
definition DEFAULT_NUM_ITERS :: int where "DEFAULT_NUM_ITERS = 1000"
definition CQ_DEPTH :: int where "CQ_DEPTH = 128"
definition SQ_DEPTH :: int where "SQ_DEPTH = 16"
definition RQ_DEPTH :: int where "RQ_DEPTH = 16"

section \<open>TCP connections\<close>

text \<open>
  The loop of \<open>tcp_client_connect\<close> over the resolved addresses; \<open>sockfd\<close> is the variable of the
  source, negative as long as no address was reached.
\<close>

fun connect_loop :: "addrinfo list \<Rightarrow> int \<Rightarrow> int io" where
  "connect_loop [] sockfd = ret sockfd"
| "connect_loop (rp # rps) sockfd =
     bnd (sys (Os (Socket (ai_family rp) (ai_socktype rp) (ai_protocol rp)))) (\<lambda>fd.
       if fd < 0 then connect_loop rps fd
       else bnd (sys (Os (Connect fd (Ai_addr (ai_addr rp) (ai_addrlen rp))))) (\<lambda>r.
         if r = 0 then ret fd
         else seq (sys (Os (Close fd))) (connect_loop rps (- 1))))"

definition tcp_client_connect :: "string \<Rightarrow> int \<Rightarrow> int io" where
  "tcp_client_connect server_name port =
     bnd (sys_addrs (Os (Getaddrinfo server_name (take 15 (fmt_d port)) AF_UNSPEC SOCK_STREAM)))
       (\<lambda>(r, res, addrs).
         if r \<noteq> 0 then ret (- 1)
         else bnd (connect_loop addrs (- 1)) (\<lambda>sockfd.
           seq (sysv (Os (Freeaddrinfo res)))
             (if sockfd < 0 then ret (- 1) else ret sockfd)))"

definition tcp_server_listen :: "int \<Rightarrow> int io" where
  "tcp_server_listen port =
     bnd (sys (Os (Socket AF_INET SOCK_STREAM 0))) (\<lambda>sockfd.
       if sockfd < 0 then ret (- 1)
       else seq (sys (Os (Setsockopt sockfd)))
         (bnd get_order (\<lambda>ord.
           bnd (sys (Os (Bind sockfd (Sin (htons ord (to_u16 port)) INADDR_ANY)))) (\<lambda>r.
             if r < 0 then seq (sys (Os (Close sockfd))) (ret (- 1))
             else bnd (sys (Os (Listen sockfd 1))) (\<lambda>r.
               if r < 0 then seq (sys (Os (Close sockfd))) (ret (- 1))
               else ret sockfd)))))"

definition tcp_server_accept :: "int \<Rightarrow> int io" where
  "tcp_server_accept listen_fd =
     bnd (sys (Os (Accept listen_fd))) (\<lambda>connfd. if connfd < 0 then ret (- 1) else ret connfd)"

section \<open>Moving whole blocks\<close>

text \<open>
  The buffer pointer and the remaining length of the source are the remaining bytes here.  More
  bytes than asked for would move the pointer out of the buffer.  \<open>fuel\<close> bounds the number of
  system calls.
\<close>

fun write_all :: "nat \<Rightarrow> int \<Rightarrow> bytes \<Rightarrow> int io" where
  "write_all fuel fd [] = ret 0"
| "write_all 0 fd (b # bs) = hang"
| "write_all (Suc fuel) fd (b # bs) =
     bnd (sys (Os (Write fd (b # bs)))) (\<lambda>n.
       if n \<le> 0 then bnd get_errno (\<lambda>e.
         if n < 0 \<and> e = EINTR then write_all fuel fd (b # bs) else ret (- 1))
       else if length (b # bs) < nat n then undef
       else write_all fuel fd (drop (nat n) (b # bs)))"

text \<open>\<open>read_all\<close> gives the error code, or the bytes that fill the buffer.\<close>

fun read_all :: "nat \<Rightarrow> int \<Rightarrow> nat \<Rightarrow> (int + bytes) io" where
  "read_all fuel fd 0 = ret (Inr [])"
| "read_all 0 fd (Suc len) = hang"
| "read_all (Suc fuel) fd (Suc len) =
     bnd (sys_bytes (Os (Read fd (Suc len)))) (\<lambda>(n, d).
       if n \<le> 0 then bnd get_errno (\<lambda>e.
         if n < 0 \<and> e = EINTR then read_all fuel fd (Suc len) else ret (Inl (- 1)))
       else if Suc len < nat n then undef
       else bnd (read_all fuel fd (Suc len - nat n)) (\<lambda>r.
         ret (case r of Inl e \<Rightarrow> Inl e | Inr d' \<Rightarrow> Inr (d @ d'))))"

subsection \<open>Whole blocks, and nothing else\<close>

lemma sys_apply: "sys c v h = (Ret (env_int v h c), [(c, RInt (env_int v h c))])"
  by (simp add: sys_def)

lemma write_all_sent:
  "write_all fuel fd bs v h = (r, es) \<Longrightarrow>
   rcvd fd es = [] \<and> (\<exists>rest. bs = sent fd es @ rest \<and> (r = Ret 0 \<longrightarrow> rest = []))"
proof (induction fuel fd bs arbitrary: h r es rule: write_all.induct)
  case (3 fuel fd b bs)
  let ?c = "Os (Write fd (b # bs))"
  let ?n = "env_int v h ?c"
  let ?e = "(?c, RInt ?n)"
  consider "?n \<le> 0" | "0 < ?n" "length (b # bs) < nat ?n" | "0 < ?n" "nat ?n \<le> length (b # bs)"
    by linarith
  then show ?case
  proof cases
    case 1
    with "3.prems" "3.IH"(1) [of ?n "env_errno v (h @ [?e])" "h @ [?e]"] show ?thesis
      by (auto simp: run_simps bnd_def sys_def get_errno_def split: prod.splits outcome.splits if_splits)
  next
    case 2
    with "3.prems" show ?thesis
      by (auto simp: run_simps bnd_def sys_def)
  next
    case 3
    then obtain r' es' where w: "write_all fuel fd (drop (nat ?n) (b # bs)) v (h @ [?e]) = (r', es')"
      by fastforce
    with "3.prems" 3 have res: "r = r'" "es = ?e # es'"
      by (auto simp: run_simps bnd_def sys_def split: outcome.splits)
    from "3.IH"(2) [OF _ _ w] 3 obtain rest where
      "rcvd fd es' = []" "drop (nat ?n) (b # bs) = sent fd es' @ rest" "r' = Ret 0 \<longrightarrow> rest = []"
      by auto
    moreover have "b # bs = take (nat ?n) (b # bs) @ drop (nat ?n) (b # bs)"
      by simp
    ultimately show ?thesis
      using res by (intro conjI exI [of _ rest]) (simp_all del: take_Cons_numeral)
  qed
qed auto

lemma read_all_rcvd:
  "read_all fuel fd len v h = (r, es) \<Longrightarrow>
   sent fd es = [] \<and> (\<forall>d. r = Ret (Inr d) \<longrightarrow> rcvd fd es = d \<and> length d = len)"
proof (induction fuel fd len arbitrary: h r es rule: read_all.induct)
  case (3 fuel fd len)
  let ?c = "Os (Read fd (Suc len))"
  obtain n d0 where b: "env_bytes v h ?c = (n, d0)" by fastforce
  let ?d = "fit (nat n) d0"
  let ?e = "(?c, RBytes n ?d)"
  consider "n \<le> 0" | "0 < n" "Suc len < nat n" | "0 < n" "nat n \<le> Suc len"
    by linarith
  then show ?case
  proof cases
    case 1
    show ?thesis
    proof (cases "n < 0 \<and> env_errno v (h @ [?e]) = EINTR")
      case True
      obtain r' es' where w: "read_all fuel fd (Suc len) v (h @ [?e]) = (r', es')" by fastforce
      with "3.prems" True b have "r = r'" "es = ?e # es'"
        by (auto simp: run_simps bnd_def sys_bytes_def get_errno_def split: outcome.splits)
      with "3.IH"(1) [OF 1 True w] b True show ?thesis by (auto simp: fit_def)
    next
      case False
      with "3.prems" 1 b show ?thesis
        by (auto simp: run_simps bnd_def sys_bytes_def get_errno_def)
    qed
  next
    case 2
    with "3.prems" b show ?thesis
      by (auto simp: run_simps bnd_def sys_bytes_def)
  next
    case 3
    then obtain r' es' where w: "read_all fuel fd (Suc len - nat n) v (h @ [?e]) = (r', es')"
      by fastforce
    with "3.prems" 3 b have res: "es = ?e # es'"
      "\<And>d. r = Ret (Inr d) \<Longrightarrow> \<exists>d'. r' = Ret (Inr d') \<and> d = ?d @ d'"
      by (auto simp: run_simps bnd_def sys_bytes_def split: outcome.splits sum.splits)
    from "3.IH"(2) [OF _ _ w] 3 res show ?thesis
      by fastforce
  qed
qed auto

lemma write_all_outcome:
  "write_all fuel fd bs v h = (Ret w, es) \<Longrightarrow> w = 0 \<or> w = - 1"
proof (induction fuel fd bs arbitrary: h es rule: write_all.induct)
  case (3 fuel fd b bs)
  then show ?case
    by (fastforce simp: bnd_eq_Ret sys_def get_errno_def split: if_splits)
qed auto

lemma read_all_outcome:
  assumes "read_all fuel fd len v h = (Ret x, es)"
  shows "(\<exists>d. x = Inr d) \<or> x = Inl (- 1)"
proof -
  have "yields (read_all fuel fd len) (\<lambda>x. (\<exists>d. x = Inr d) \<or> x = Inl (- 1))"
  proof (induction fuel fd len rule: read_all.induct)
    case (3 fuel fd len)
    have 1: "yields (read_all fuel fd (Suc len)) (\<lambda>x. (\<exists>d. x = Inr d) \<or> x = Inl (- 1))"
      by (rule "3.IH"(1) [of "- 1" EINTR]) simp_all
    have 2: "yields (bnd (read_all fuel fd (Suc len - nat n))
          (\<lambda>r. ret (case r of Inl e \<Rightarrow> Inl e | Inr d' \<Rightarrow> Inr (d @ d'))))
        (\<lambda>x. (\<exists>d. x = Inr d) \<or> x = Inl (- 1))"
      if "\<not> n \<le> 0" "\<not> Suc len < nat n" for n :: int and d
      by (rule yields_bnd [OF "3.IH"(2) [OF that]]) (auto intro: yields_ret split: sum.split)
    have 3: "yields (bnd get_errno (\<lambda>e. if n < 0 \<and> e = EINTR then read_all fuel fd (Suc len)
        else ret (Inl (- 1)))) (\<lambda>x. (\<exists>d. x = Inr d) \<or> x = Inl (- 1))" for n :: int
      by (rule yields_skip) (auto intro!: yields_if yields_ret 1)
    show ?case
      unfolding read_all.simps
      by (rule yields_skip) (auto intro!: yields_if yields_leaf 2 3)
  qed (auto intro: yields_ret yields_leaf)
  from yieldsD [OF this assms] show ?thesis .
qed

lemma connect_loop_reached:
  "connect_loop rps s v h = (Ret fd, es) \<Longrightarrow> s < 0 \<Longrightarrow> 0 \<le> fd \<Longrightarrow>
   \<exists>a \<in> set rps. (Os (Connect fd (Ai_addr (ai_addr a) (ai_addrlen a))), RInt 0) \<in> set es"
proof (induction rps arbitrary: s h es)
  case (Cons rp rps)
  then show ?case
    by (fastforce simp: bnd_eq_Ret seq_eq_Ret sys_def split: if_splits)
qed simp

lemma tcp_client_connect_reached:
  assumes "tcp_client_connect host port v h = (Ret fd, es)" "0 \<le> fd"
  shows "\<exists>p addrs. \<exists>a \<in> set addrs.
    (Os (Getaddrinfo host (take 15 (fmt_d port)) AF_UNSPEC SOCK_STREAM), RAddrs 0 p addrs) \<in> set es \<and>
    (Os (Connect fd (Ai_addr (ai_addr a) (ai_addrlen a))), RInt 0) \<in> set es"
  using assms
  by (fastforce simp: tcp_client_connect_def bnd_eq_Ret seq_eq_Ret sys_addrs_def sysv_def
      split: if_splits prod.splits dest: connect_loop_reached)

lemma tcp_server_listen_bound:
  assumes "tcp_server_listen port v h = (Ret fd, es)" "0 \<le> fd"
  shows "\<exists>b l. 0 \<le> b \<and> 0 \<le> l \<and>
    (Os (Bind fd (Sin (htons (env_order v) (to_u16 port)) INADDR_ANY)), RInt b) \<in> set es \<and>
    last es = (Os (Listen fd 1), RInt l)"
  using assms
  by (fastforce simp: tcp_server_listen_def bnd_eq_Ret seq_eq_Ret sys_def get_order_def split: if_splits)

text \<open>
  Both loops return: with a descriptor whose calls are interrupted only finitely often, that is not
  any more once \<open>N\<close> calls were made, fuel for those and one per byte is enough.
\<close>

definition calm :: "env \<Rightarrow> nat \<Rightarrow> bool" where
  "calm v N \<longleftrightarrow> (\<forall>h. N \<le> length h \<longrightarrow> env_errno v h \<noteq> EINTR)"

lemma write_all_returns:
  assumes "calm v N"
  shows "(N - length h) + length bs \<le> fuel \<Longrightarrow> fst (write_all fuel fd bs v h) \<noteq> Hang"
proof (induction fuel fd bs arbitrary: h rule: write_all.induct)
  case (3 fuel fd b bs)
  let ?c = "Os (Write fd (b # bs))"
  let ?n = "env_int v h ?c"
  let ?h = "h @ [(?c, RInt ?n)]"
  consider "?n \<le> 0" "?n < 0 \<and> env_errno v ?h = EINTR" | "?n \<le> 0" "\<not> (?n < 0 \<and> env_errno v ?h = EINTR)"
    | "0 < ?n" by linarith
  then show ?case
  proof cases
    case 1
    then have "length ?h < N"
      using assms unfolding calm_def by (meson not_less)
    with "3.prems" "3.IH"(1) [of ?n "env_errno v ?h" ?h] 1 show ?thesis
      by (fastforce simp: run_simps bnd_def sys_def get_errno_def split: prod.splits outcome.splits)
  next
    case 2
    then show ?thesis
      by (auto simp: run_simps bnd_def sys_def get_errno_def)
  next
    case 3
    have "N - length ?h + length (drop (nat ?n) (b # bs)) \<le> fuel"
      using "3.prems" 3 by auto
    with "3.IH"(2) [of ?n ?h] 3 show ?thesis
      by (auto simp: run_simps bnd_def sys_def split: prod.splits outcome.splits)
  qed
qed (auto simp: run_simps)

lemma read_all_returns:
  assumes "calm v N"
  shows "(N - length h) + len \<le> fuel \<Longrightarrow> fst (read_all fuel fd len v h) \<noteq> Hang"
proof (induction fuel fd len arbitrary: h rule: read_all.induct)
  case (3 fuel fd len)
  let ?c = "Os (Read fd (Suc len))"
  obtain n d0 where b: "env_bytes v h ?c = (n, d0)" by fastforce
  let ?d = "fit (nat n) d0"
  let ?h = "h @ [(?c, RBytes n ?d)]"
  consider "n \<le> 0" "n < 0 \<and> env_errno v ?h = EINTR" | "n \<le> 0" "\<not> (n < 0 \<and> env_errno v ?h = EINTR)"
    | "0 < n" by linarith
  then show ?case
  proof cases
    case 1
    then have "length ?h < N"
      using assms unfolding calm_def by (meson not_less)
    with "3.prems" "3.IH"(1) [of n "env_errno v ?h" ?h] 1 b show ?thesis
      by (fastforce simp: run_simps bnd_def sys_bytes_def get_errno_def split: prod.splits outcome.splits)
  next
    case 2
    then show ?thesis using b
      by (auto simp: run_simps bnd_def sys_bytes_def get_errno_def)
  next
    case 3
    show ?thesis
    proof (cases "Suc len < nat n")
      case True
      with 3 b show ?thesis by (simp add: run_simps bnd_def sys_bytes_def)
    next
      case False
      have "N - length ?h + (Suc len - nat n) \<le> fuel"
        using "3.prems" 3 by auto
      with 3 False have "fst (read_all fuel fd (Suc len - nat n) v ?h) \<noteq> Hang"
        by (intro "3.IH"(2)) auto
      with 3 False b show ?thesis
        by (auto simp: run_simps bnd_def sys_bytes_def split: prod.splits outcome.splits)
    qed
  qed
qed (auto simp: run_simps)

section \<open>Runs in the concrete environment\<close>

text \<open>Whole blocks go through in one call.\<close>

lemma lab_write_all:
  assumes "0 < fuel" "0 < length bs"
  shows "write_all fuel fd bs (lab_env q g ps) h =
    (Ret 0, [(Os (Write fd bs), RInt (int (length bs)))])"
  using assms
  by (cases fuel; cases bs) (auto simp: run_defs lab_env_simps lab_int_def)

lemma lab_read_all:
  assumes "0 < fuel" "0 < n" "length (rcvd fd h) + n \<le> length ps"
  shows "read_all fuel fd n (lab_env q g ps) h =
    (Ret (Inr (take n (drop (length (rcvd fd h)) ps))),
     [(Os (Read fd n), RBytes (int n) (take n (drop (length (rcvd fd h)) ps)))])"
  using assms
  by (cases fuel; cases n) (auto simp: run_defs lab_env_simps lab_read_def)

text \<open>Everything a run of the shared code evaluates in this environment.\<close>

lemmas lab_tcp = run_defs lab_env_simps lab_write_all lab_read_all lab_int_def lab_handle_def lab_read_def lab_mr_def
  CHECK_NULL_def CHECK_ERRNO_def CHECK_RC_def check_fd_def CHECK_ERRNO_out_def
  tcp_client_connect_def tcp_server_listen_def tcp_server_accept_def

section \<open>Checks that passed\<close>

lemma check_Ret [simp]:
  "CHECK_NULL p v h = (Ret u, es) \<longleftrightarrow> p \<noteq> 0 \<and> es = []"
  "CHECK_ERRNO r v h = (Ret u, es) \<longleftrightarrow> r = 0 \<and> es = []"
  "CHECK_RC r v h = (Ret u, es) \<longleftrightarrow> r = 0 \<and> es = []"
  "check_fd r v h = (Ret u, es) \<longleftrightarrow> 0 \<le> r \<and> es = []"
  by (auto simp: CHECK_NULL_def CHECK_ERRNO_def CHECK_RC_def check_fd_def)

lemma check_out_Ret [simp]: "CHECK_ERRNO_out x v h = (Ret y, es) \<longleftrightarrow> x = Inr y \<and> es = []"
  by (auto simp: CHECK_ERRNO_out_def seq_eq_Ret split: sum.split)

section \<open>The helpers keep to the contract\<close>

lemma keeps_CHECK_NULL [obeys_rules]:
  "(p = 0 \<Longrightarrow> Q (Exit 1) L) \<Longrightarrow> (p \<noteq> 0 \<Longrightarrow> Q (Ret ()) L) \<Longrightarrow> obeys \<delta> v (CHECK_NULL p) L Q"
  by (simp add: CHECK_NULL_def EXIT_FAILURE_def)

lemma keeps_CHECK_ERRNO [obeys_rules]:
  "(r \<noteq> 0 \<Longrightarrow> Q (Exit 1) L) \<Longrightarrow> (r = 0 \<Longrightarrow> Q (Ret ()) L) \<Longrightarrow> obeys \<delta> v (CHECK_ERRNO r) L Q"
  by (simp add: CHECK_ERRNO_def EXIT_FAILURE_def)

lemma keeps_CHECK_RC [obeys_rules]:
  "(r \<noteq> 0 \<Longrightarrow> Q (Exit 1) L) \<Longrightarrow> (r = 0 \<Longrightarrow> Q (Ret ()) L) \<Longrightarrow> obeys \<delta> v (CHECK_RC r) L Q"
  by (simp add: CHECK_RC_def EXIT_FAILURE_def)

lemma keeps_check_fd [obeys_rules]:
  "(fd < 0 \<Longrightarrow> Q (Exit 1) L) \<Longrightarrow> (0 \<le> fd \<Longrightarrow> Q (Ret ()) L) \<Longrightarrow> obeys \<delta> v (check_fd fd) L Q"
  by (simp add: check_fd_def CHECK_NULL_def EXIT_FAILURE_def)

lemma keeps_connect_loop:
  assumes "wf_ledger L"
    and "\<And>r. r < 0 \<Longrightarrow> Q (Ret r) L"
    and "\<And>fd. 0 \<le> fd \<Longrightarrow> \<not> live L (KFd fd) \<Longrightarrow> Q (Ret fd) (fd_res fd # L)"
  shows "s < 0 \<Longrightarrow> keeps v (connect_loop rps s) L Q"
proof (induction rps arbitrary: s)
  case Nil
  then show ?case using assms(2) by simp
next
  case (Cons rp rps)
  then show ?case
    using assms
    by (auto intro!: obeys_rules simp: ledger_simps fresh_not_needed filter_fresh)
qed

lemma keeps_tcp_client_connect [obeys_rules]:
  assumes "wf_ledger L"
    and "Q (Ret (- 1)) L"
    and "\<And>fd. 0 \<le> fd \<Longrightarrow> \<not> live L (KFd fd) \<Longrightarrow> Q (Ret fd) (fd_res fd # L)"
  shows "keeps v (tcp_client_connect host port) L Q"
  using assms
  by (auto simp: tcp_client_connect_def ledger_simps fresh_not_needed filter_fresh
      intro!: obeys_rules keeps_connect_loop)

lemma keeps_tcp_server_listen [obeys_rules]:
  assumes "wf_ledger L"
    and "Q (Ret (- 1)) L"
    and "\<And>fd. 0 \<le> fd \<Longrightarrow> \<not> live L (KFd fd) \<Longrightarrow> Q (Ret fd) (fd_res fd # L)"
  shows "keeps v (tcp_server_listen port) L Q"
  using assms
  by (auto simp: tcp_server_listen_def ledger_simps fresh_not_needed filter_fresh intro!: obeys_rules)

lemma keeps_tcp_server_accept [obeys_rules]:
  assumes "live L (KFd l)"
    and "Q (Ret (- 1)) L"
    and "\<And>fd. 0 \<le> fd \<Longrightarrow> \<not> live L (KFd fd) \<Longrightarrow> Q (Ret fd) (fd_res fd # L)"
  shows "keeps v (tcp_server_accept l) L Q"
  using assms by (auto simp: tcp_server_accept_def intro!: obeys_rules)

lemma keeps_write_all [obeys_rules]:
  assumes "live L (KFd fd)"
    and "Q (Ret 0) L" "Q (Ret (- 1)) L" "Q UB L" "Q Hang L"
  shows "keeps v (write_all fuel fd bs) L Q"
  using assms(1)
  by (induction fuel fd bs rule: write_all.induct) (auto intro!: obeys_rules simp: assms)

lemma keeps_read_all [obeys_rules]:
  assumes "live L (KFd fd)"
    and "\<And>d. length d = len \<Longrightarrow> Q (Ret (Inr d)) L" "Q (Ret (Inl (- 1))) L" "Q UB L" "Q Hang L"
  shows "keeps v (read_all fuel fd len) L Q"
  using assms
proof (induction fuel fd len arbitrary: Q rule: read_all.induct)
  case (3 fuel fd len)
  have "keeps v (read_all fuel fd (Suc len)) L Q"
    using "3.prems" by (intro "3.IH"(1) [of "- 1" EINTR]) simp_all
  then show ?case
    using "3.prems" by (auto intro!: obeys_rules "3.IH"(2) split: sum.split)
qed auto

section \<open>The calls the helpers make\<close>

lemma calls_CHECK [only_rules]:
  "calls P (CHECK_NULL p)" "calls P (CHECK_ERRNO r)" "calls P (CHECK_RC r)" "calls P (check_fd fd)"
  "calls P (CHECK_ERRNO_out x)"
  by (auto simp: CHECK_NULL_def CHECK_ERRNO_def CHECK_RC_def check_fd_def CHECK_ERRNO_out_def
      intro!: only_rules)

lemma calls_connect_loop:
  assumes "\<And>d t p. P (Os (Socket d t p))" "\<And>fd a. P (Os (Connect fd a))" "\<And>fd. P (Os (Close fd))"
  shows "calls P (connect_loop rps s)"
  by (induction rps s rule: connect_loop.induct) (auto intro!: only_rules assms)

lemma calls_tcp_client_connect [only_rules]:
  assumes "\<And>d t p. P (Os (Socket d t p))" "\<And>fd a. P (Os (Connect fd a))" "\<And>fd. P (Os (Close fd))"
    "\<And>n q f t. P (Os (Getaddrinfo n q f t))" "\<And>a. P (Os (Freeaddrinfo a))"
  shows "calls P (tcp_client_connect host port)"
  unfolding tcp_client_connect_def by (auto intro!: only_rules calls_connect_loop assms)

lemma calls_tcp_server_listen [only_rules]:
  assumes "\<And>d t p. P (Os (Socket d t p))" "\<And>fd. P (Os (Close fd))" "\<And>fd. P (Os (Setsockopt fd))"
    "\<And>fd a. P (Os (Bind fd a))" "\<And>fd n. P (Os (Listen fd n))"
  shows "calls P (tcp_server_listen port)"
  unfolding tcp_server_listen_def by (auto intro!: only_rules assms)

lemma calls_tcp_server_accept [only_rules]:
  "P (Os (Accept l)) \<Longrightarrow> calls P (tcp_server_accept l)"
  unfolding tcp_server_accept_def by (auto intro!: only_rules)

lemma calls_write_all [only_rules]:
  "(\<And>b. P (Os (Write fd b))) \<Longrightarrow> calls P (write_all fuel fd bs)"
  by (induction fuel fd bs rule: write_all.induct) (auto intro!: only_rules)

lemma calls_read_all [only_rules]:
  assumes "\<And>n. P (Os (Read fd n))"
  shows "calls P (read_all fuel fd len)"
  using assms
proof (induction fuel fd len rule: read_all.induct)
  case (3 fuel fd len)
  have "calls P (read_all fuel fd (Suc len))"
    using "3.prems" by (intro "3.IH"(1) [of "- 1" EINTR]) simp_all
  then show ?case
    by (auto intro!: only_rules "3.IH"(2) "3.prems")
qed (auto intro: only_rules)

section \<open>Properties\<close>

text \<open>C25: \<open>write_all\<close> sends exactly the buffer.  Whatever the socket does (short writes, interrupted
  calls, errors), what the descriptor accepted is a prefix of the buffer, in order and without
  repetition; the result is 0 or -1, and 0 means that all of it was accepted.\<close>

theorem write_all_complete:
  assumes "write_all fuel fd bs v h = (Ret r, es)"
  shows "(\<exists>rest. bs = sent fd es @ rest) \<and> (r = 0 \<and> sent fd es = bs \<or> r = - 1)"
  using write_all_sent [OF assms] write_all_outcome [OF assms] by auto

text \<open>The run the witness needs has one short write and one interrupted call.\<close>

lemma write_all_complete_witness:
  "\<exists>v es. write_all 3 5 [1, 2, 3] v [] = (Ret 0, es) \<and> length es = 3 \<and> sent 5 es = [1, 2, 3]"
proof -
  let ?v = "lab_env 0 0 []\<lparr>env_int := \<lambda>h c. [1, - 1, 2] ! length h, env_errno := \<lambda>h. EINTR\<rparr>"
  have "\<exists>es. write_all 3 5 [1, 2, 3] ?v [] = (Ret 0, es) \<and> length es = 3"
    by (simp add: eval_nat_numeral run_defs)
  then show ?thesis using write_all_complete [of 3 5 "[1, 2, 3]" ?v "[]" 0] by auto
qed

text \<open>C26: \<open>read_all\<close> fills exactly the buffer.  On success the buffer holds the bytes received on the
  descriptor during the call, in order, and their number is the length asked for; nothing is
  written to a descriptor.  Anything else is the error code -1.\<close>

theorem read_all_complete:
  assumes "read_all fuel fd len v h = (Ret x, es)"
  shows "sent fd es = [] \<and> (case x of Inr d \<Rightarrow> rcvd fd es = d \<and> length d = len | Inl e \<Rightarrow> e = - 1)"
  using read_all_rcvd [OF assms] read_all_outcome [OF assms] by (auto split: sum.split)

lemma read_all_complete_witness:
  "\<exists>es. read_all 3 5 4 (lab_env 0 0 [9, 8, 7, 6, 5]) [] = (Ret (Inr [9, 8, 7, 6]), es) \<and>
     rcvd 5 es = [9, 8, 7, 6]"
  using read_all_complete [of 3 5 4 "lab_env 0 0 [9, 8, 7, 6, 5]" "[]" "Inr [9, 8, 7, 6]"]
  by (simp add: lab_tcp)

text \<open>C27: Both transfer loops terminate.  On a machine where no call is interrupted any more after the
  first \<open>N\<close> calls, fuel for those and for one call per byte always suffices.\<close>

theorem transfers_return:
  assumes "calm v N" and "N + max n (length bs) \<le> fuel"
  shows "fst (read_all fuel fd n v h) \<noteq> Hang \<and>
    fst (write_all fuel fd bs v h) \<noteq> Hang"
  using assms write_all_returns [of v N h bs fuel fd] read_all_returns [of v N h n fuel fd] by fastforce

lemma transfers_return_witness:
  "fst (read_all 4 5 4 (lab_env 0 0 []) []) \<noteq> Hang \<and>
   fst (write_all 4 5 [1, 2, 3, 4] (lab_env 0 0 []) []) \<noteq> Hang"
  using transfers_return [of "lab_env 0 0 []" 0 4 "[1, 2, 3, 4]" 4 5 "[]"]
  by (simp add: calm_def lab_env_simps EINTR_def)

text \<open>\<open>tcp_client_connect\<close> gives a connected socket and nothing else.  A descriptor it returns was
  connected, successfully, to one of the addresses the server's name resolved to; every descriptor
  of a failed attempt is closed again and the address list is freed, so the returned descriptor is
  the only resource left, and after a failure there is none.\<close>

theorem tcp_client_connect_tidy:
  assumes "tcp_client_connect host port v h = (Ret fd, es)"
  shows "clean es \<and> set (leftover es) \<subseteq> (if 0 \<le> fd then {fd_res fd} else {}) \<and>
    (0 \<le> fd \<longrightarrow> (\<exists>p addrs. \<exists>a \<in> set addrs.
       (Os (Getaddrinfo host (take 15 (fmt_d port)) AF_UNSPEC SOCK_STREAM), RAddrs 0 p addrs) \<in> set es \<and>
       (Os (Connect fd (Ai_addr (ai_addr a) (ai_addrlen a))), RInt 0) \<in> set es))"
proof -
  have "keeps v (tcp_client_connect host port) []
      (\<lambda>r L. \<forall>fd. r = Ret fd \<longrightarrow> set L \<subseteq> (if 0 \<le> fd then {fd_res fd} else {}))"
    by (rule keeps_tcp_client_connect) auto
  from keeps_clean [OF this assms] leftover_either [OF this assms] tcp_client_connect_reached [OF assms]
  show ?thesis by auto
qed

lemma tcp_client_connect_tidy_witness:
  "\<exists>es. tcp_client_connect ''srv'' 80 (lab_env 0 0 []) [] = (Ret 4, es) \<and> clean es"
  using tcp_client_connect_tidy [of "''srv''" 80 "lab_env 0 0 []" "[]" 4] by (simp add: lab_tcp)

text \<open>\<open>tcp_server_listen\<close> leaves exactly one listening socket, or none.  On every error path after
  the socket was opened it is closed before -1 is returned, and a descriptor that is returned is
  bound to the given port in network byte order and listening.\<close>

theorem tcp_server_listen_tidy:
  assumes "tcp_server_listen port v h = (Ret fd, es)"
  shows "clean es \<and> set (leftover es) \<subseteq> (if 0 \<le> fd then {fd_res fd} else {}) \<and>
    (0 \<le> fd \<longrightarrow> (\<exists>b l. 0 \<le> b \<and> 0 \<le> l \<and>
       (Os (Bind fd (Sin (htons (env_order v) (to_u16 port)) INADDR_ANY)), RInt b) \<in> set es \<and>
       last es = (Os (Listen fd 1), RInt l)))"
proof -
  have "keeps v (tcp_server_listen port) []
      (\<lambda>r L. \<forall>fd. r = Ret fd \<longrightarrow> set L \<subseteq> (if 0 \<le> fd then {fd_res fd} else {}))"
    by (rule keeps_tcp_server_listen) auto
  from keeps_clean [OF this assms] leftover_either [OF this assms] tcp_server_listen_bound [OF assms]
  show ?thesis by auto
qed

lemma tcp_server_listen_tidy_witness:
  "\<exists>es. tcp_server_listen 18515 (lab_env 0 0 []) [] = (Ret 3, es) \<and> clean es"
  using tcp_server_listen_tidy [of 18515 "lab_env 0 0 []" "[]" 3] by (simp add: lab_tcp)

end
