(* ===== verification/Common_Exchange.thy ===== *)
theory Common_Exchange
  imports Common_Tcp
begin

text \<open>
  The metadata exchange of \<^verbatim>\<open>common/rdma_common.c\<close>: the two structures sent over the side channel
  as raw memory, their images, and \<open>exchange_qp_info\<close> and \<open>exchange_mr_info\<close>.  Any structure
  with an image of fixed size that can be read back satisfies the locale \<open>wire\<close>, and what an
  exchange achieves is proved there once.
\<close>

section \<open>Structures on the wire\<close>

record qp_info =
  qi_qp_num :: u32
  qi_lid :: u32
  qi_psn :: u32
  qi_padding :: u32
  qi_gid :: gid

text \<open>The structure before anything was received into it.\<close>

definition zero_qp_info :: qp_info where
  "zero_qp_info = \<lparr>qi_qp_num = 0, qi_lid = 0, qi_psn = 0, qi_padding = 0, qi_gid = 0\<rparr>"

record mr_info =
  mi_addr :: u64
  mi_rkey :: u32
  mi_length :: u32

definition u32_at :: "byte_order \<Rightarrow> nat \<Rightarrow> bytes \<Rightarrow> u32" where
  "u32_at ord i bs = of_nat (dec ord (take 4 (drop i bs)))"

definition u64_at :: "byte_order \<Rightarrow> nat \<Rightarrow> bytes \<Rightarrow> u64" where
  "u64_at ord i bs = of_nat (dec ord (take 8 (drop i bs)))"

definition u16_at :: "byte_order \<Rightarrow> nat \<Rightarrow> bytes \<Rightarrow> u16" where
  "u16_at ord i bs = of_nat (dec ord (take 2 (drop i bs)))"

text \<open>The raw bytes of a GID do not depend on the byte order of the machine.\<close>

definition gid_at :: "nat \<Rightarrow> bytes \<Rightarrow> gid" where
  "gid_at i bs = of_nat (dec Little (take 16 (drop i bs)))"

definition qp_info_bytes :: "byte_order \<Rightarrow> qp_info \<Rightarrow> bytes" where
  "qp_info_bytes ord q =
     enc ord 4 (unat (qi_qp_num q)) @ enc ord 4 (unat (qi_lid q)) @ enc ord 4 (unat (qi_psn q))
     @ enc ord 4 (unat (qi_padding q)) @ gid_raw (qi_gid q)"

definition qp_info_of :: "byte_order \<Rightarrow> bytes \<Rightarrow> qp_info" where
  "qp_info_of ord bs =
     \<lparr>qi_qp_num = u32_at ord 0 bs, qi_lid = u32_at ord 4 bs, qi_psn = u32_at ord 8 bs,
      qi_padding = u32_at ord 12 bs, qi_gid = gid_at 16 bs\<rparr>"

definition mr_info_bytes :: "byte_order \<Rightarrow> mr_info \<Rightarrow> bytes" where
  "mr_info_bytes ord m =
     enc ord 8 (unat (mi_addr m)) @ enc ord 4 (unat (mi_rkey m)) @ enc ord 4 (unat (mi_length m))"

definition mr_info_of :: "byte_order \<Rightarrow> bytes \<Rightarrow> mr_info" where
  "mr_info_of ord bs =
     \<lparr>mi_addr = u64_at ord 0 bs, mi_rkey = u32_at ord 8 bs, mi_length = u32_at ord 12 bs\<rparr>"

lemma dec_gid_raw [simp]: "dec Little (gid_raw g) = unat g"
  using dec_enc_u128 [of Little g] by (simp add: enc_def gid_raw_def)

text \<open>A structure that goes over the wire as its memory image.\<close>

locale wire =
  fixes img :: "byte_order \<Rightarrow> 'a \<Rightarrow> bytes"
    and parse :: "byte_order \<Rightarrow> bytes \<Rightarrow> 'a"
    and sizeof :: nat
  assumes length_img: "length (img ord x) = sizeof"
    and parse_img: "parse ord (img ord x) = x"

definition zero_mr_info :: mr_info where
  "zero_mr_info = \<lparr>mi_addr = 0, mi_rkey = 0, mi_length = 0\<rparr>"

section \<open>The exchange\<close>

definition exchange_via ::
  "(byte_order \<Rightarrow> 'a \<Rightarrow> bytes) \<Rightarrow> (byte_order \<Rightarrow> bytes \<Rightarrow> 'a) \<Rightarrow> nat \<Rightarrow> nat \<Rightarrow> int \<Rightarrow> 'a \<Rightarrow> (int + 'a) io"
  where
  "exchange_via img parse n fuel sockfd loc =
     bnd get_order (\<lambda>ord.
     bnd (write_all fuel sockfd (img ord loc)) (\<lambda>w.
       if w < 0 then ret (Inl (- 1))
       else bnd (read_all fuel sockfd n) (\<lambda>r.
         case r of Inl e \<Rightarrow> ret (Inl (- 1)) | Inr bs \<Rightarrow> ret (Inr (parse ord bs)))))"

definition exchange_qp_info :: "nat \<Rightarrow> int \<Rightarrow> qp_info \<Rightarrow> (int + qp_info) io" where
  "exchange_qp_info = exchange_via qp_info_bytes qp_info_of 32"

definition exchange_mr_info :: "nat \<Rightarrow> int \<Rightarrow> mr_info \<Rightarrow> (int + mr_info) io" where
  "exchange_mr_info = exchange_via mr_info_bytes mr_info_of 16"

text \<open>
  What TCP promises between two processes: the bytes one has received so far are the first of
  those the other has sent.
\<close>

definition delivers :: "int \<Rightarrow> event list \<Rightarrow> int \<Rightarrow> event list \<Rightarrow> bool" where
  "delivers fd_from h_from fd_to h_to \<longleftrightarrow> (\<exists>z. sent fd_from h_from = rcvd fd_to h_to @ z)"

context wire
begin

lemma exchange_transfers:
  assumes "exchange_via img parse sizeof fuel fd x v h = (Ret (Inr y), es)"
  shows "sent fd es = img (env_order v) x" "length (rcvd fd es) = sizeof"
    "y = parse (env_order v) (rcvd fd es)"
proof -
  from assms obtain w bs es1 es2 where
    w: "write_all fuel fd (img (env_order v) x) v h = (Ret w, es1)" "\<not> w < 0"
    and r: "read_all fuel fd sizeof v (h @ es1) = (Ret (Inr bs), es2)"
    and y: "y = parse (env_order v) bs" and es: "es = es1 @ es2"
    by (auto simp: exchange_via_def bnd_eq_Ret get_order_def split: if_splits sum.splits)
      (metis sum.exhaust)
  from write_all_outcome [OF w(1)] w have "w = 0" by auto
  with write_all_sent [OF w(1)] read_all_rcvd [OF r] y es
  show "sent fd es = img (env_order v) x" "length (rcvd fd es) = sizeof"
    "y = parse (env_order v) (rcvd fd es)"
    by auto
qed

text \<open>
  Two processes that exchange over one connection, at the same point of both streams: each has
  read what the other wrote, whatever else they exchange later.
\<close>

lemma meet:
  assumes "y = parse ord (rcvd fd es)" "length (rcvd fd es) = sizeof" "sent fd' es' = img ord x'"
    and start: "rcvd fd h = sent fd' h'"
    and tcp: "delivers fd' (h' @ es' @ zs') fd (h @ es @ zs)"
  shows "y = x'" "rcvd fd (h @ es) = sent fd' (h' @ es')"
proof -
  from tcp start obtain z where "sent fd' es' @ sent fd' zs' = rcvd fd es @ rcvd fd zs @ z"
    by (auto simp: delivers_def)
  with assms(2,3) length_img have "rcvd fd es = sent fd' es'"
    by (metis append_eq_append_conv)
  with assms show "y = x'" "rcvd fd (h @ es) = sent fd' (h' @ es')"
    by (simp_all add: parse_img)
qed

lemma rendezvous:
  assumes A: "exchange_via img parse sizeof fuel fd x v h = (Ret (Inr y), es)"
    and B: "exchange_via img parse sizeof fuel' fd' x' v' h' = (Ret (Inr y'), es')"
    and ord: "env_order v = env_order v'"
    and start: "rcvd fd h = sent fd' h'"
    and tcp: "delivers fd' (h' @ es' @ zs') fd (h @ es @ zs)"
  shows "y = x'" "rcvd fd (h @ es) = sent fd' (h' @ es')"
  using meet [OF exchange_transfers(3,2) [OF A] exchange_transfers(1) [OF B, folded ord] start tcp]
  by simp_all

lemma returns:
  assumes "calm v N" "N + 2 * sizeof \<le> fuel"
  shows "fst (exchange_via img parse sizeof fuel fd x v h) \<noteq> Hang"
proof -
  obtain r es where w: "write_all fuel fd (img (env_order v) x) v h = (r, es)" by fastforce
  have "fst (write_all fuel fd (img (env_order v) x) v h) \<noteq> Hang"
    using assms by (intro write_all_returns) (auto simp: length_img)
  moreover have "fst (read_all fuel fd sizeof v (h @ es)) \<noteq> Hang"
    using assms by (intro read_all_returns) auto
  ultimately show ?thesis
    using w by (auto simp: exchange_via_def bnd_def get_order_def run_simps
        split: outcome.splits prod.splits sum.splits)
qed

end

interpretation qp_wire: wire qp_info_bytes qp_info_of 32
  by unfold_locales
    (simp_all add: qp_info_bytes_def qp_info_of_def u32_at_def gid_at_def)

interpretation mr_wire: wire mr_info_bytes mr_info_of 16
  by unfold_locales
    (simp_all add: mr_info_bytes_def mr_info_of_def u32_at_def u64_at_def)

lemmas wire_simps [simp] = qp_wire.length_img qp_wire.parse_img mr_wire.length_img mr_wire.parse_img

lemma keeps_exchange_via:
  assumes "live L (KFd fd)" "\<And>y. Q (Ret (Inr y)) L" "Q (Ret (Inl (- 1))) L" "Q UB L" "Q Hang L"
  shows "keeps v (exchange_via img parse n fuel fd x) L Q"
  using assms by (auto simp: exchange_via_def intro!: obeys_rules)

lemmas keeps_exchange [obeys_rules] =
  keeps_exchange_via [of _ _ _ _ qp_info_bytes qp_info_of 32, folded exchange_qp_info_def]
  keeps_exchange_via [of _ _ _ _ mr_info_bytes mr_info_of 16, folded exchange_mr_info_def]

lemma calls_exchange [only_rules]:
  assumes "\<And>b. P (Os (Write fd b))" "\<And>n. P (Os (Read fd n))"
  shows "calls P (exchange_qp_info fuel fd q)" "calls P (exchange_mr_info fuel fd m)"
  unfolding exchange_qp_info_def exchange_mr_info_def exchange_via_def
  by (auto intro!: only_rules assms)

section \<open>Printing\<close>

text \<open>The text \<open>print_qp_info\<close> writes, its loop over the GID included.\<close>

definition newline :: string where
  "newline = [char_of (10 :: nat)]"

definition gid_text :: "gid \<Rightarrow> string" where
  "gid_text g =
     concat (map (\<lambda>i. fmt_0x 2 (unat (gid_raw g ! i)) @ (if i mod 2 = 1 \<and> i < 15 then '':'' else ''''))
       [0..<16])"

definition print_qp_info :: "string \<Rightarrow> qp_info \<Rightarrow> string" where
  "print_qp_info label q =
     ''  '' @ label @ '': QPN=0x'' @ fmt_0x 6 (unat (qi_qp_num q)) @ '', LID=0x''
     @ fmt_0x 4 (unat (qi_lid q)) @ '', PSN=0x'' @ fmt_0x 6 (unat (qi_psn q)) @ newline
     @ ''         GID='' @ gid_text (qi_gid q) @ newline"

lemma length_hex_byte [simp]: "length (fmt_0x 2 (unat (b :: byte))) = 2"
  using unat_bound [of b] by (intro length_fmt_0x) auto

lemma concat_pairs: "concat (map f [0..<2 * n]) = concat (map (\<lambda>k. f (2 * k) @ f (2 * k + 1)) [0..<n])"
  by (induction n) auto

lemma gid_text_groups:
  "gid_text g = concat (map (\<lambda>k. fmt_0x 2 (unat (gid_raw g ! (2 * k)))
       @ fmt_0x 2 (unat (gid_raw g ! (2 * k + 1))) @ (if k < 7 then '':'' else [])) [0..<8])"
proof -
  have "gid_text g = concat (map (\<lambda>i. fmt_0x 2 (unat (gid_raw g ! i))
      @ (if i mod 2 = 1 \<and> i < 15 then '':'' else [])) [0..<2 * 8])"
    by (simp add: gid_text_def)
  also have "\<dots> = concat (map (\<lambda>k. fmt_0x 2 (unat (gid_raw g ! (2 * k)))
      @ fmt_0x 2 (unat (gid_raw g ! (2 * k + 1))) @ (if k < 7 then '':'' else [])) [0..<8])"
    unfolding concat_pairs by (intro arg_cong [where f = concat] map_cong) auto
  finally show ?thesis .
qed

lemma length_gid_text: "length (gid_text g) = 39"
  by (simp add: gid_text_def length_concat upt_rec)

section \<open>Properties\<close>

text \<open>C2: \<open>exchange_qp_info\<close> is a rendezvous.  When both processes run it over the two ends of one
  connection, from the same position of the byte streams, and both return success, each holds
  exactly the record the other one sent, all five fields of it.\<close>

theorem exchange_qp_info_rendezvous:
  assumes "exchange_qp_info fuel fd x v h = (Ret (Inr y), es)"
    and "exchange_qp_info fuel' fd' x' v' h' = (Ret (Inr y'), es')"
    and "env_order v = env_order v'"
    and "rcvd fd h = sent fd' h'" "rcvd fd' h' = sent fd h"
    and "delivers fd' (h' @ es') fd (h @ es)" "delivers fd (h @ es) fd' (h' @ es')"
  shows "y = x' \<and> y' = x"
  using qp_wire.rendezvous(1) [of fuel fd x v h y es fuel' fd' x' v' h' y' es' "[]" "[]"]
    qp_wire.rendezvous(1) [of fuel' fd' x' v' h' y' es' fuel fd x v h y es "[]" "[]"] assms
  by (simp add: exchange_qp_info_def)

lemma exchange_qp_info_rendezvous_witness:
  "\<exists>y y' es es'.
     exchange_qp_info 32 3 (zero_qp_info\<lparr>qi_qp_num := 17\<rparr>)
       (lab_env 0 0 (qp_info_bytes Little zero_qp_info)) [] = (Ret (Inr y), es) \<and>
     exchange_qp_info 40 4 zero_qp_info
       (lab_env 0 0 (qp_info_bytes Little (zero_qp_info\<lparr>qi_qp_num := 17\<rparr>))) [] = (Ret (Inr y'), es') \<and>
     y = zero_qp_info \<and> y' = zero_qp_info\<lparr>qi_qp_num := 17\<rparr>"
proof -
  let ?x = "zero_qp_info\<lparr>qi_qp_num := 17\<rparr>"
  let ?v = "lab_env 0 0 (qp_info_bytes Little zero_qp_info)"
  let ?w = "lab_env 0 0 (qp_info_bytes Little ?x)"
  have "\<exists>y y' es es'. exchange_qp_info 32 3 ?x ?v [] = (Ret (Inr y), es) \<and>
      exchange_qp_info 40 4 zero_qp_info ?w [] = (Ret (Inr y'), es') \<and>
      delivers 4 es' 3 es \<and> delivers 3 es 4 es'"
    by (simp add: exchange_qp_info_def exchange_via_def lab_tcp delivers_def)
  then obtain y y' es es' where
    "exchange_qp_info 32 3 ?x ?v [] = (Ret (Inr y), es)"
    "exchange_qp_info 40 4 zero_qp_info ?w [] = (Ret (Inr y'), es')"
    "delivers 4 es' 3 es" "delivers 3 es 4 es'"
    by blast
  with exchange_qp_info_rendezvous [of 32 3 ?x ?v "[]" y es 40 4 zero_qp_info ?w "[]" y' es']
  show ?thesis by (simp add: lab_env_simps)
qed

text \<open>\<open>exchange_mr_info\<close> is a rendezvous.  The address, remote key and length of a memory region
  arrive at the peer as they were sent, over the same kind of aligned connection.\<close>

theorem exchange_mr_info_rendezvous:
  assumes "exchange_mr_info fuel fd x v h = (Ret (Inr y), es)"
    and "exchange_mr_info fuel' fd' x' v' h' = (Ret (Inr y'), es')"
    and "env_order v = env_order v'"
    and "rcvd fd h = sent fd' h'" "rcvd fd' h' = sent fd h"
    and "delivers fd' (h' @ es') fd (h @ es)" "delivers fd (h @ es) fd' (h' @ es')"
  shows "y = x' \<and> y' = x"
  using mr_wire.rendezvous(1) [of fuel fd x v h y es fuel' fd' x' v' h' y' es' "[]" "[]"]
    mr_wire.rendezvous(1) [of fuel' fd' x' v' h' y' es' fuel fd x v h y es "[]" "[]"] assms
  by (simp add: exchange_mr_info_def)

lemma exchange_mr_info_rendezvous_witness:
  "\<exists>y y' es es'.
     exchange_mr_info 32 3 (zero_mr_info\<lparr>mi_addr := 4096, mi_rkey := 9\<rparr>)
       (lab_env 0 0 (mr_info_bytes Little zero_mr_info)) [] = (Ret (Inr y), es) \<and>
     exchange_mr_info 40 4 zero_mr_info
       (lab_env 0 0 (mr_info_bytes Little (zero_mr_info\<lparr>mi_addr := 4096, mi_rkey := 9\<rparr>))) []
       = (Ret (Inr y'), es') \<and>
     y = zero_mr_info \<and> y' = zero_mr_info\<lparr>mi_addr := 4096, mi_rkey := 9\<rparr>"
proof -
  let ?x = "zero_mr_info\<lparr>mi_addr := 4096, mi_rkey := 9\<rparr>"
  let ?v = "lab_env 0 0 (mr_info_bytes Little zero_mr_info)"
  let ?w = "lab_env 0 0 (mr_info_bytes Little ?x)"
  have "\<exists>y y' es es'. exchange_mr_info 32 3 ?x ?v [] = (Ret (Inr y), es) \<and>
      exchange_mr_info 40 4 zero_mr_info ?w [] = (Ret (Inr y'), es') \<and>
      delivers 4 es' 3 es \<and> delivers 3 es 4 es'"
    by (simp add: exchange_mr_info_def exchange_via_def lab_tcp delivers_def)
  then obtain y y' es es' where
    "exchange_mr_info 32 3 ?x ?v [] = (Ret (Inr y), es)"
    "exchange_mr_info 40 4 zero_mr_info ?w [] = (Ret (Inr y'), es')"
    "delivers 4 es' 3 es" "delivers 3 es 4 es'"
    by blast
  with exchange_mr_info_rendezvous [of 32 3 ?x ?v "[]" y es 40 4 zero_mr_info ?w "[]" y' es']
  show ?thesis by (simp add: lab_env_simps)
qed

text \<open>\<open>print_qp_info\<close> writes a GID the way \<^verbatim>\<open>inet_ntop\<close> writes an uncompressed IPv6 address: eight
  groups of four hexadecimal digits, a colon after every group but the last, 39 characters.\<close>

theorem print_qp_info_gid:
  "\<exists>pre gid. print_qp_info label q = pre @ gid @ newline \<and> length gid = 39 \<and>
     gid = concat (map (\<lambda>k. fmt_0x 2 (unat (gid_raw (qi_gid q) ! (2 * k)))
         @ fmt_0x 2 (unat (gid_raw (qi_gid q) ! (2 * k + 1))) @ (if k < 7 then '':'' else [])) [0..<8])"
  unfolding print_qp_info_def append_assoc [symmetric]
  by (intro exI conjI) (rule refl length_gid_text gid_text_groups [unfolded append_assoc [symmetric]])+

end
