(* ===== verification/Common_Device.thy ===== *)
theory Common_Device
  imports Common_Exchange
begin

text \<open>
  The rest of \<^verbatim>\<open>common/rdma_common.c\<close>: opening a device by name, gathering what the peer has to
  know of the local queue pair, and busy polling for one completion.
\<close>

section \<open>Completion polling\<close>

text \<open>\<open>fuel\<close> bounds the number of polls; the source polls until a completion or an error comes.\<close>

fun poll_completion :: "nat \<Rightarrow> ptr \<Rightarrow> (int + ibv_wc) io" where
  "poll_completion 0 cq = hang"
| "poll_completion (Suc fuel) cq =
     bnd (sys_wc (Vb (Ibv_poll_cq cq 1))) (\<lambda>(ne, wcs).
       if ne < 0 then ret (Inl (- 1))
       else if ne = 0 then poll_completion fuel cq
       else case wcs of
         [] \<Rightarrow> undef
       | wc # _ \<Rightarrow> if wc_status wc \<noteq> IBV_WC_SUCCESS then ret (Inl (- 1)) else ret (Inr wc))"

text \<open>An event that is a poll which found nothing.\<close>

definition empty_poll :: "ptr \<Rightarrow> event \<Rightarrow> bool" where
  "empty_poll cq e \<longleftrightarrow> e = (Vb (Ibv_poll_cq cq 1), RWc 0 [])"

lemma poll_completion_Inr:
  "poll_completion fuel cq v h = (Ret (Inr wc), es) \<Longrightarrow>
   \<exists>idle n ws. es = idle @ [(Vb (Ibv_poll_cq cq 1), RWc n (wc # ws))] \<and> 0 < n \<and>
     list_all (empty_poll cq) idle \<and> wc_status wc = IBV_WC_SUCCESS"
proof (induction fuel arbitrary: h es)
  case 0
  then show ?case by simp
next
  case (Suc fuel)
  obtain n ws where b: "env_wc v h (Vb (Ibv_poll_cq cq 1)) = (n, ws)" by fastforce
  let ?ws = "fit_wc (nat n) ws"
  let ?e = "(Vb (Ibv_poll_cq cq 1), RWc n ?ws)"
  consider "n < 0" | "n = 0" | "0 < n" by linarith
  then show ?case
  proof cases
    case 1
    with Suc.prems b show ?thesis by (simp add: bnd_eq_Ret sys_wc_def)
  next
    case 2
    with Suc.prems b obtain es' where
      "poll_completion fuel cq v (h @ [?e]) = (Ret (Inr wc), es')" "es = ?e # es'"
      by (auto simp: bnd_eq_Ret sys_wc_def)
    with Suc.IH 2 obtain idle n' ws' where
      "es = (?e # idle) @ [(Vb (Ibv_poll_cq cq 1), RWc n' (wc # ws'))]" "0 < n'"
      "list_all (empty_poll cq) (?e # idle)" "wc_status wc = IBV_WC_SUCCESS"
      by (fastforce simp: empty_poll_def fit_wc_def)
    then show ?thesis by blast
  next
    case 3
    then obtain w ws' where w: "?ws = w # ws'"
      by (metis length_fit_wc list.exhaust list.size(3) nat_0_iff not_less)
    with 3 Suc.prems b show ?thesis
      by (auto simp: bnd_eq_Ret sys_wc_def split: if_splits intro!: exI [of _ "[]"])
  qed
qed

lemma empty_polls: "list_all (empty_poll cq) es \<Longrightarrow> es = replicate (length es) (Vb (Ibv_poll_cq cq 1), RWc 0 [])"
  by (induction es) (auto simp: empty_poll_def)

lemma poll_completion_returns:
  assumes "\<And>h. N \<le> length h \<Longrightarrow> fst (env_wc v h (Vb (Ibv_poll_cq cq 1))) \<noteq> 0"
  shows "N - length h < fuel \<Longrightarrow> fst (poll_completion fuel cq v h) \<noteq> Hang"
proof (induction fuel arbitrary: h)
  case 0
  then show ?case by simp
next
  case (Suc fuel)
  obtain n ws where b: "env_wc v h (Vb (Ibv_poll_cq cq 1)) = (n, ws)" by fastforce
  let ?e = "(Vb (Ibv_poll_cq cq 1), RWc n (fit_wc (nat n) ws))"
  show ?case
  proof (cases "n = 0")
    case True
    then have "length h < N" using assms [of h] b by (auto simp: not_less [symmetric])
    with Suc have "fst (poll_completion fuel cq v (h @ [?e])) \<noteq> Hang" by simp
    with True b show ?thesis
      by (auto simp: bnd_def sys_wc_def split: prod.splits outcome.splits)
  next
    case False
    with b show ?thesis
      by (auto simp: bnd_def sys_wc_def run_simps split: list.split)
  qed
qed

text \<open>With nothing ever completing, polling never ends, whatever the fuel.\<close>

lemma poll_completion_spins:
  assumes "\<And>h. env_wc v h (Vb (Ibv_poll_cq cq 1)) = (0, [])"
  shows "poll_completion fuel cq v h = (Hang, replicate fuel (Vb (Ibv_poll_cq cq 1), RWc 0 []))"
  by (induction fuel arbitrary: h) (simp_all add: bnd_def sys_wc_def assms fit_wc_def run_simps del: One_nat_def)

lemma keeps_poll_completion [obeys_rules]:
  assumes "live L (KCq cq)" "Q (Ret (Inl (- 1))) L" "Q Hang L"
    and "\<And>wc. wc_status wc = IBV_WC_SUCCESS \<Longrightarrow> Q (Ret (Inr wc)) L"
  shows "keeps v (poll_completion fuel cq) L Q"
proof (induction fuel)
  case 0
  then show ?case using assms by simp
next
  case (Suc fuel)
  then show ?case using assms
    by (auto intro!: obeys_rules split: list.split)
qed

section \<open>Devices\<close>

fun find_named :: "ibv_device list \<Rightarrow> string \<Rightarrow> ibv_device option" where
  "find_named [] name = None"
| "find_named (d # ds) name = (if dev_name d = name then Some d else find_named ds name)"

definition open_device :: "string option \<Rightarrow> ptr io" where
  "open_device name =
     bnd sys_devs (\<lambda>(dev_list, devs).
       if dev_list = 0 then ret 0
       else if length devs = 0
       then seq (sysv (Vb (Ibv_free_device_list dev_list))) (ret 0)
       else case (case name of Some n \<Rightarrow> find_named devs n | None \<Rightarrow> Some (hd devs)) of
         None \<Rightarrow> seq (sysv (Vb (Ibv_free_device_list dev_list))) (ret 0)
       | Some dev \<Rightarrow>
           bnd (sysp (Vb (Ibv_open_device (dev_ptr dev)))) (\<lambda>ctx.
             seq (sysv (Vb (Ibv_free_device_list dev_list))) (ret ctx)))"

text \<open>
  What a program asks for when it names a device or none, stated without a loop, and the devices a
  run has opened.
\<close>

definition chosen :: "string option \<Rightarrow> ibv_device list \<Rightarrow> ibv_device option" where
  "chosen name devs =
     (case filter (\<lambda>d. case name of None \<Rightarrow> True | Some n \<Rightarrow> dev_name d = n) devs of
        [] \<Rightarrow> None | d # _ \<Rightarrow> Some d)"

fun opened_by :: "event \<Rightarrow> ptr list" where
  "opened_by (Vb (Ibv_open_device d), r) = [d]"
| "opened_by _ = []"

definition opened :: "event list \<Rightarrow> ptr list" where
  "opened es = concat (map opened_by es)"

lemma opened_simps [simp]:
  "opened [] = []" "opened (e # es) = opened_by e @ opened es"
  "opened (es @ es') = opened es @ opened es'"
  by (simp_all add: opened_def)

lemma find_named_chosen: "find_named devs n = chosen (Some n) devs"
  by (induction devs) (auto simp: chosen_def)

lemma chosen_None: "chosen None devs = (case devs of [] \<Rightarrow> None | d # _ \<Rightarrow> Some d)"
  by (cases devs) (auto simp: chosen_def)

lemma chosen_in: "chosen name devs = Some d \<Longrightarrow> d \<in> set devs"
  by (auto simp: chosen_def filter_eq_Cons_iff split: list.splits)

lemma chosen_Nil [simp]: "chosen name [] = None"
  by (simp add: chosen_def)

lemma open_device_opens:
  assumes "env_devs v h = (p, devs)" "p \<noteq> 0"
  shows "opened (snd (open_device name v h)) =
     (case chosen name devs of None \<Rightarrow> [] | Some d \<Rightarrow> [dev_ptr d])"
  using assms
  by (auto simp: open_device_def bnd_def seq_def sys_devs_def sysv_def sysp_def run_simps
      find_named_chosen chosen_None split: option.splits list.splits)

lemma open_device_none:
  assumes "env_devs v h = (p, devs)" "p \<noteq> 0" "open_device name v h = (Ret ctx, es)"
  shows "chosen name devs = None \<longrightarrow> ctx = 0"
  using assms
  by (auto simp: open_device_def bnd_def seq_def sys_devs_def sysv_def run_simps
      find_named_chosen chosen_None split: option.splits list.splits if_splits)

text \<open>The device list is freed on every path.\<close>

lemma keeps_open_device [obeys_rules]:
  assumes "wf_ledger L" "Q (Ret 0) L"
    and "\<And>c. c \<noteq> 0 \<Longrightarrow> \<not> live L (KCtx c) \<Longrightarrow> Q (Ret c) (ctx_res c # L)"
  shows "keeps v (open_device name) L Q"
  using assms
  by (auto simp: open_device_def ledger_simps fresh_not_needed filter_fresh
      intro!: obeys_rules split: option.split)

section \<open>Local queue pair information\<close>

text \<open>\<^verbatim>\<open>lrand48() & 0xFFFFFF\<close>, stored in 32 bits.\<close>

definition psn_of :: "int \<Rightarrow> u32" where
  "psn_of rnd = ucast (and (word_of_int rnd :: 64 word) 0xFFFFFF)"

definition get_local_info :: "ptr \<Rightarrow> ibv_qp \<Rightarrow> int \<Rightarrow> int \<Rightarrow> (int + qp_info) io" where
  "get_local_info ctx qp ib_port gid_index =
     bnd (sys_port (Vb (Ibv_query_port ctx (to_u8 ib_port)))) (\<lambda>(r, port_attr).
       if r \<noteq> 0 then ret (Inl (- 1))
       else bnd (sys (Os Lrand48)) (\<lambda>rnd.
         bnd (sys_gid (Vb (Ibv_query_gid ctx (to_u8 ib_port) gid_index))) (\<lambda>(r, gid).
           if r \<noteq> 0 then ret (Inl (- 1))
           else ret (Inr \<lparr>qi_qp_num = qp_num qp, qi_lid = ucast (pa_lid port_attr),
                          qi_psn = psn_of rnd, qi_padding = 0, qi_gid = gid\<rparr>))))"

lemma psn_24_bits: "unat (psn_of rnd) < 2 ^ 24"
proof -
  have "(0xFFFFFF :: 64 word) = mask 24"
    by (simp add: mask_eq_exp_minus_1)
  then have "psn_of rnd = ucast (take_bit 24 (word_of_int rnd :: 64 word))"
    by (simp only: psn_of_def take_bit_eq_mask)
  then have "unat (psn_of rnd) = take_bit 24 (take_bit 32 (unat (word_of_int rnd :: 64 word)))"
    by (simp add: unsigned_ucast_eq unsigned_take_bit_eq take_bit_take_bit)
  then show ?thesis by (simp only: take_bit_take_bit) (simp add: take_bit_eq_mod)
qed

lemma lid_16_bits: "unat (ucast (l :: u16) :: u32) < 2 ^ 16"
  using unat_bound [of l] by (simp add: unsigned_ucast_eq take_bit_eq_mod)

lemma lid_fits: "unat (l :: u32) < 2 ^ 16 \<Longrightarrow> unat (ucast l :: u16) = unat l"
  by (simp add: unsigned_ucast_eq take_bit_eq_mod)

lemma get_local_info_Inr:
  assumes "get_local_info ctx qp p g v h = (Ret (Inr i), es)"
  shows "qi_qp_num i = qp_num qp \<and> unat (qi_psn i) < 2 ^ 24 \<and> unat (qi_lid i) < 2 ^ 16 \<and> qi_padding i = 0"
proof -
  from assms obtain l rnd gid where
    "i = \<lparr>qi_qp_num = qp_num qp, qi_lid = ucast (l :: u16), qi_psn = psn_of rnd, qi_padding = 0,
          qi_gid = gid\<rparr>"
    by (auto simp: get_local_info_def bnd_eq_Ret split: if_splits prod.splits)
  then show ?thesis using psn_24_bits [of rnd] lid_16_bits [of l] by simp
qed

lemma yields_local_info:
  assumes "\<And>i. qi_qp_num i = qp_num qp \<Longrightarrow> unat (qi_psn i) < 2 ^ 24 \<Longrightarrow> unat (qi_lid i) < 2 ^ 16 \<Longrightarrow>
    yields (f i) Q"
  shows "yields (bnd (get_local_info ctx qp p g) (\<lambda>li. bnd (CHECK_ERRNO_out li) f)) Q"
proof (rule yields_bnd [where P = "\<lambda>li. \<forall>i. li = Inr i \<longrightarrow> yields (f i) Q"])
  show "yields (get_local_info ctx qp p g) (\<lambda>li. \<forall>i. li = Inr i \<longrightarrow> yields (f i) Q)"
    unfolding yields_def [of "get_local_info ctx qp p g"]
    using assms get_local_info_Inr by blast
next
  fix li :: "int + qp_info"
  assume "\<forall>i. li = Inr i \<longrightarrow> yields (f i) Q"
  then show "yields (bnd (CHECK_ERRNO_out li) f) Q"
    unfolding yields_def bnd_eq_Ret check_out_Ret by blast
qed

lemma keeps_get_local_info [obeys_rules]:
  assumes "live L (KCtx ctx)" "Q (Ret (Inl (- 1))) L"
    and "\<And>i. qi_qp_num i = qp_num qp \<Longrightarrow> Q (Ret (Inr i)) L"
  shows "keeps v (get_local_info ctx qp p g) L Q"
  using assms by (auto simp: get_local_info_def intro!: obeys_rules)

lemma keeps_CHECK_ERRNO_out [obeys_rules]:
  assumes "\<And>e. r = Inl e \<Longrightarrow> e \<noteq> 0 \<and> Q (Exit 1) L" "\<And>x. r = Inr x \<Longrightarrow> Q (Ret x) L"
  shows "obeys \<delta> v (CHECK_ERRNO_out r) L Q"
  using assms by (auto simp: CHECK_ERRNO_out_def intro!: obeys_rules split: sum.split)

section \<open>Runs in the concrete environment\<close>

lemma lab_poll_completion:
  assumes "0 < fuel"
  shows "poll_completion fuel cq (lab_env q g ps) h =
    (Ret (Inr lab_wc), [(Vb (Ibv_poll_cq cq 1), RWc 1 [lab_wc])])"
  using assms by (cases fuel) (auto simp: run_defs lab_env_simps lab_wc_def zero_wc_def)

lemmas lab_common = lab_tcp lab_options lab_poll_completion open_device_def get_local_info_def
  exchange_qp_info_def exchange_mr_info_def exchange_via_def

section \<open>The calls the helpers make\<close>

lemma calls_poll_completion [only_rules]:
  "P (Vb (Ibv_poll_cq cq 1)) \<Longrightarrow> calls P (poll_completion fuel cq)"
  by (induction fuel) (auto intro!: only_rules)

lemma calls_open_device [only_rules]:
  assumes "P (Vb Ibv_get_device_list)" "\<And>l. P (Vb (Ibv_free_device_list l))"
    "\<And>d. P (Vb (Ibv_open_device d))"
  shows "calls P (open_device name)"
  unfolding open_device_def by (auto intro!: only_rules assms)

lemma calls_get_local_info [only_rules]:
  assumes "\<And>n. P (Vb (Ibv_query_port ctx n))" "\<And>n i. P (Vb (Ibv_query_gid ctx n i))" "P (Os Lrand48)"
  shows "calls P (get_local_info ctx qp p g)"
  unfolding get_local_info_def by (auto intro!: only_rules assms)

section \<open>Properties\<close>

text \<open>A successful \<open>poll_completion\<close> takes one completion and ignores nothing else.  Its calls are
  polls of this queue that found nothing, followed by one that found something, and the work
  completion it hands out is the first entry of that last answer, with status success.\<close>

theorem poll_completion_takes:
  assumes "poll_completion fuel cq v h = (Ret (Inr wc), es)"
  shows "wc_status wc = IBV_WC_SUCCESS \<and>
    (\<exists>n ws. 0 < n \<and> es = replicate (length es - 1) (Vb (Ibv_poll_cq cq 1), RWc 0 [])
       @ [(Vb (Ibv_poll_cq cq 1), RWc n (wc # ws))])"
proof -
  from poll_completion_Inr [OF assms] obtain idle n ws where
    es: "es = idle @ [(Vb (Ibv_poll_cq cq 1), RWc n (wc # ws))]" and "0 < n"
    "list_all (empty_poll cq) idle" "wc_status wc = IBV_WC_SUCCESS"
    by blast
  moreover from this have "es = replicate (length es - 1) (Vb (Ibv_poll_cq cq 1), RWc 0 [])
       @ [(Vb (Ibv_poll_cq cq 1), RWc n (wc # ws))]"
    using empty_polls [of cq idle] by (metis append_same_eq diff_add_inverse2 length_append_singleton
        plus_1_eq_Suc add.commute)
  ultimately show ?thesis by blast
qed

lemma poll_completion_takes_witness:
  "\<exists>es. poll_completion 4 6 (lab_env 0 0 []) [] = (Ret (Inr lab_wc), es) \<and>
     wc_status lab_wc = IBV_WC_SUCCESS"
  using poll_completion_takes [of 4 6 "lab_env 0 0 []" "[]" lab_wc] by (simp add: lab_common)

text \<open>C28: \<open>poll_completion\<close> ends once the queue has something to report.  If every poll made after the
  first \<open>N\<close> calls of the process answers with a completion or an error, \<open>N + 1\<close> polls suffice.\<close>

theorem poll_completion_ends:
  assumes "\<And>h. N \<le> length h \<Longrightarrow> fst (env_wc v h (Vb (Ibv_poll_cq cq 1))) \<noteq> 0" and "N < fuel"
  shows "fst (poll_completion fuel cq v h) \<noteq> Hang"
  using poll_completion_returns [of N v cq h fuel] assms by simp

lemma poll_completion_ends_witness: "fst (poll_completion 1 6 (lab_env 0 0 []) []) \<noteq> Hang"
  by (rule poll_completion_ends [where N = 0]) (simp_all add: lab_env_simps)

text \<open>\<open>poll_completion\<close> has no time limit: on a queue where nothing ever completes it polls for as
  long as it is let, and never reports an error.\<close>

theorem poll_completion_waits:
  assumes "\<And>h. env_wc v h (Vb (Ibv_poll_cq cq 1)) = (0, [])"
  shows "poll_completion fuel cq v h = (Hang, replicate fuel (Vb (Ibv_poll_cq cq 1), RWc 0 []))"
  by (rule poll_completion_spins) (rule assms)

lemma poll_completion_waits_witness:
  "fst (poll_completion 5 6 (lab_env 0 0 []\<lparr>env_wc := \<lambda>h c. (0, [])\<rparr>) []) = Hang"
  using poll_completion_waits [of "lab_env 0 0 []\<lparr>env_wc := \<lambda>h c. (0, [])\<rparr>" 6 5 "[]"] by simp

text \<open>C38: \<open>open_device\<close> opens the device asked for and no other: the first one of that name, or the
  first of the list when no name is given, and none when there is no such device; the device list
  is freed on every path, and no other resource than the returned context is left.\<close>

theorem open_device_selects:
  assumes "env_devs v h = (p, devs)" "p \<noteq> 0"
    and "open_device name v h = (Ret ctx, es)"
  shows "opened es = (case chosen name devs of None \<Rightarrow> [] | Some d \<Rightarrow> [dev_ptr d]) \<and>
    (chosen name devs = None \<longrightarrow> ctx = 0) \<and>
    clean es \<and> set (leftover es) \<subseteq> (if ctx = 0 then {} else {ctx_res ctx})"
proof -
  have "keeps v (open_device name) []
      (\<lambda>r L. \<forall>c. r = Ret c \<longrightarrow> set L \<subseteq> (if c = 0 then {} else {ctx_res c}))"
    by (rule keeps_open_device) auto
  from keeps_clean [OF this assms(3)] leftover_either [OF this assms(3)]
    open_device_opens [OF assms(1,2), of name] open_device_none [OF assms] assms(3)
  show ?thesis by auto
qed

lemma open_device_selects_witness:
  "\<exists>ctx es. open_device (Some ''mlx5_1'') (lab_env 0 0 []) [] = (Ret ctx, es) \<and> opened es = [128] \<and> clean es"
proof -
  obtain ctx es where r: "open_device (Some ''mlx5_1'') (lab_env 0 0 []) [] = (Ret ctx, es)"
    by (simp add: lab_common)
  show ?thesis
    using open_device_selects [OF _ _ r, of 4096] r by (simp add: lab_env_simps lab_handle_def chosen_def)
qed

text \<open>What \<open>get_local_info\<close> tells the peer is well formed: the number of the local queue pair, a
  packet sequence number of 24 bits, whatever the random number generator returned, and a local
  identifier that fits the 16 bits the peer will store it in.\<close>

theorem get_local_info_fits:
  assumes "get_local_info ctx qp port gidx v h = (Ret (Inr i), es)"
  shows "qi_qp_num i = qp_num qp \<and> unat (qi_psn i) < 2 ^ 24 \<and>
    unat (ucast (qi_lid i) :: u16) = unat (qi_lid i) \<and> qi_padding i = 0"
  using get_local_info_Inr [OF assms] by (simp add: lid_fits)

lemma get_local_info_fits_witness:
  "\<exists>i es. get_local_info 1 \<lparr>qp_ptr = 2, qp_num = 17\<rparr> 1 1 (lab_env 17 5 []) [] = (Ret (Inr i), es) \<and>
     unat (qi_psn i) < 2 ^ 24"
proof -
  obtain i es where r: "get_local_info 1 \<lparr>qp_ptr = 2, qp_num = 17\<rparr> 1 1 (lab_env 17 5 []) [] = (Ret (Inr i), es)"
    by (simp add: lab_common)
  show ?thesis using get_local_info_fits [OF r] r by simp
qed

end
