(* ===== verification/Rc_Common.thy ===== *)
theory Rc_Common
  imports Common_Device
begin

text \<open>
  What the chapter 9 programs write out again in every file: the option loop, seeding, opening the
  side channel in the chosen role, the barrier, and the checked walk of a queue pair from RESET to
  RTS.  The walk is an interface: any three transition functions that make one legal
  \<^verbatim>\<open>ibv_modify_qp\<close> call each satisfy the locale \<open>ladder\<close>.
\<close>

section \<open>Options\<close>

record args =
  is_server :: int
  server_name :: "string option"
  dev_name_opt :: "string option"
  tcp_port :: int
  num_iters :: int
  msg_size :: int
  ib_port :: int
  gid_index :: int

text \<open>
  The option loop runs over what \<^verbatim>\<open>getopt\<close> returns: option letters (\<open>?\<close> for an unknown option or
  a missing argument) with their arguments.  \<open>None\<close> is the usage message and the exit.
\<close>

fun parse_opts :: "(args \<Rightarrow> char \<Rightarrow> string \<Rightarrow> args option) \<Rightarrow> args \<Rightarrow> (char \<times> string) list \<Rightarrow> args option"
  where
  "parse_opts one a [] = Some a"
| "parse_opts one a ((c, arg) # opts) =
     (case one a c arg of None \<Rightarrow> None | Some a' \<Rightarrow> parse_opts one a' opts)"

text \<open>The role, its peer and the options are consistent: a client has a server name.\<close>

definition role_ok :: "args \<Rightarrow> bool" where
  "role_ok a \<longleftrightarrow> is_server a \<in> {- 1, 0, 1} \<and> (is_server a = 0 \<longrightarrow> server_name a \<noteq> None)"

text \<open>What every option keeps, the option loop keeps.\<close>

lemma parse_opts_keeps:
  assumes "\<And>a c arg a'. P a \<Longrightarrow> one a c arg = Some a' \<Longrightarrow> P a'"
  shows "P a \<Longrightarrow> parse_opts one a opts = Some a' \<Longrightarrow> P a'"
proof (induction opts arbitrary: a)
  case (Cons opt opts)
  obtain c arg where opt: "opt = (c, arg)" by fastforce
  with Cons.prems obtain a1 where "one a c arg = Some a1" "parse_opts one a1 opts = Some a'"
    by (auto split: option.splits)
  with Cons.IH Cons.prems(1) assms show ?case by blast
qed simp

lemmas parse_opts_role = parse_opts_keeps [where P = role_ok]

section \<open>Seeding, side channel, barrier\<close>

definition seed_prng :: "unit io" where
  "seed_prng = bnd (sys (Os Getpid)) (\<lambda>pid. bnd (sys (Os Time)) (\<lambda>t. sysv (Os (Srand48 (pid * t)))))"

definition side_channel :: "args \<Rightarrow> int io" where
  "side_channel a =
     (if is_server a \<noteq> 0
      then bnd (tcp_server_listen (tcp_port a)) (\<lambda>listen_fd.
        seq (check_fd listen_fd)
          (bnd (tcp_server_accept listen_fd) (\<lambda>sockfd.
            seq (check_fd sockfd)
              (seq (sys (Os (Close listen_fd))) (ret sockfd)))))
      else (case server_name a of
        None \<Rightarrow> undef
      | Some host \<Rightarrow>
          bnd (tcp_client_connect host (tcp_port a)) (\<lambda>sockfd.
            seq (check_fd sockfd) (ret sockfd))))"

text \<open>One byte each way; neither result is looked at.\<close>

definition sync_peer :: "int \<Rightarrow> unit io" where
  "sync_peer sockfd =
     seq (sys (Os (Write sockfd (chars ''R''))))
       (bnd (sys_bytes (Os (Read sockfd 1))) (\<lambda>_. ret ()))"

text \<open>
  Reading a C string out of a buffer of \<open>n\<close> bytes, as \<^verbatim>\<open>%s\<close> and \<^verbatim>\<open>strlen\<close> do: with no NUL byte in the
  buffer the read runs past its end.
\<close>

definition load_str :: "ptr \<Rightarrow> nat \<Rightarrow> bytes io" where
  "load_str p n = bnd (sys_load p n) (\<lambda>d. if 0 \<in> set d then ret (takeWhile (\<lambda>b. b \<noteq> 0) d) else undef)"

section \<open>Arrays of buffers\<close>

text \<open>An address inside a block, given as an offset; the block does not wrap around.\<close>

lemma within_offset:
  assumes "unat p + n \<le> 2 ^ 64" "i + k \<le> n" "0 < k"
  shows "within p n (p + of_nat i) k"
proof -
  have "unat (p + of_nat i) = unat p + i"
    using assms by (simp add: unat_word_ariths unat_of_nat)
  with assms show ?thesis by (simp add: within_def)
qed


text \<open>A loop that allocates and checks \<open>n\<close> buffers of \<open>sz\<close> bytes.\<close>

fun alloc_bufs :: "nat \<Rightarrow> nat \<Rightarrow> ptr list io" where
  "alloc_bufs sz 0 = ret []"
| "alloc_bufs sz (Suc n) =
     bnd (sysp (Os (Calloc 1 sz))) (\<lambda>p. seq (CHECK_NULL p) (
     bnd (alloc_bufs sz n) (\<lambda>ps. ret (p # ps))))"

definition free_bufs :: "ptr list \<Rightarrow> unit io" where
  "free_bufs ps = for_each ps (\<lambda>p. sysv (Os (Free p)))"

text \<open>The ledger after the allocation: the blocks are new, apart from each other and from the rest.\<close>

definition new_bufs :: "nat \<Rightarrow> ptr list \<Rightarrow> ledger \<Rightarrow> bool" where
  "new_bufs sz ps L \<longleftrightarrow> distinct ps \<and> 0 \<notin> set ps \<and>
     (\<forall>p \<in> set ps. \<not> live L (KBuf p) \<and> (\<forall>r \<in> set L. \<not> clash p sz (res_info r)))"

definition bufs :: "nat \<Rightarrow> ptr list \<Rightarrow> ledger" where
  "bufs sz ps = map (\<lambda>p. buf_res p sz) (rev ps)"

lemma bufs_simps [simp]:
  "bufs sz [] = []" "live (bufs sz ps @ L) k \<longleftrightarrow> k \<in> KBuf ` set ps \<or> live L k"
  "needed (bufs sz ps @ L) k \<longleftrightarrow> needed L k"
  "bufs sz (p # ps) @ L = bufs sz ps @ buf_res p sz # L"
  by (auto simp: bufs_def live_def needed_def bex_Un)

lemma keeps_alloc_bufs [obeys_rules]:
  assumes "\<And>ps. length ps = n \<Longrightarrow> new_bufs sz ps L \<Longrightarrow> Q (Ret ps) (bufs sz ps @ L)"
    and "\<And>L'. Q (Exit 1) L'"
  shows "keeps v (alloc_bufs sz n) L Q"
  using assms
proof (induction n arbitrary: L Q)
  case 0
  then show ?case by (auto simp: new_bufs_def bufs_def)
next
  case (Suc n)
  have "Q (Ret (p # ps)) (bufs sz ps @ buf_res p sz # L)"
    if "length ps = n" "new_bufs sz ps (buf_res p sz # L)" "p \<noteq> 0" "\<not> live L (KBuf p)"
      "\<forall>r \<in> set L. \<not> clash p sz (res_info r)" for p ps
    using that Suc.prems(1) [of "p # ps"] by (auto simp: new_bufs_def ledger_simps)
  then show ?case
    by (auto intro!: obeys_rules Suc.IH simp: Suc.prems(2))
qed

lemma keeps_free_bufs:
  assumes "distinct ps" "0 \<notin> set ps"
    and "\<And>p. p \<in> set ps \<Longrightarrow> live L (KBuf p) \<and> \<not> needed L (KBuf p) \<and>
      (\<forall>r \<in> set L. \<not> region_in p (block_size L (KBuf p)) (res_info r))"
    and "Q (Ret ()) (filter (\<lambda>r. res_key r \<notin> KBuf ` set ps) L)"
  shows "keeps v (free_bufs ps) L Q"
  using assms
proof (induction ps arbitrary: L)
  case (Cons p ps)
  let ?L = "filter (\<lambda>r. res_key r \<noteq> KBuf p) L"
  have bsz: "block_size ?L (KBuf q) = block_size L (KBuf q)" if "q \<noteq> p" for q
    using that by (induction L) (auto simp: ledger_simps)
  have "keeps v (free_bufs ps) ?L Q"
  proof (rule Cons.IH)
    fix q assume q: "q \<in> set ps"
    with Cons.prems(1) have "q \<noteq> p" by auto
    with Cons.prems(3) [of q] q show "live ?L (KBuf q) \<and> \<not> needed ?L (KBuf q) \<and>
        (\<forall>r \<in> set ?L. \<not> region_in q (block_size ?L (KBuf q)) (res_info r))"
      by (auto simp: bsz live_def needed_def)
  next
    have "filter (\<lambda>r. res_key r \<notin> KBuf ` set ps) ?L = filter (\<lambda>r. res_key r \<notin> KBuf ` set (p # ps)) L"
      by (auto intro: filter_cong)
    with Cons.prems(4) show "Q (Ret ()) (filter (\<lambda>r. res_key r \<notin> KBuf ` set ps) ?L)" by simp
  qed (use Cons.prems in auto)
  with Cons.prems show ?case
    by (auto simp: free_bufs_def intro!: obeys_rules)
qed (simp add: free_bufs_def)

section \<open>The walk to RTS\<close>

definition climb :: "int io \<Rightarrow> int io \<Rightarrow> int io \<Rightarrow> unit io" where
  "climb to_init to_rtr to_rts =
     bnd to_init (\<lambda>r. seq (CHECK_RC r)
       (bnd to_rtr (\<lambda>r. seq (CHECK_RC r)
         (bnd to_rts (\<lambda>r. CHECK_RC r)))))"

locale ladder =
  fixes ty :: qp_type and q :: ptr and init_attr rtr_attr rts_attr :: qp_attr
    and to_init to_rtr to_rts :: "int io"
  assumes init: "\<exists>m. to_init = sys (Vb (Ibv_modify_qp q init_attr m)) \<and>
      edge_ok ty IBV_QPS_RESET init_attr m"
    and rtr: "\<exists>m. to_rtr = sys (Vb (Ibv_modify_qp q rtr_attr m)) \<and>
      edge_ok ty IBV_QPS_INIT rtr_attr m"
    and rts: "\<exists>m. to_rts = sys (Vb (Ibv_modify_qp q rts_attr m)) \<and>
      edge_ok ty IBV_QPS_RTR rts_attr m"

lemma edge_state: "edge_ok ty IBV_QPS_RESET a m \<Longrightarrow> qa_qp_state a = IBV_QPS_INIT"
  "edge_ok ty IBV_QPS_INIT a m \<Longrightarrow> qa_qp_state a = IBV_QPS_RTR"
  "edge_ok ty IBV_QPS_RTR a m \<Longrightarrow> qa_qp_state a = IBV_QPS_RTS"
  by (auto simp: edge_ok_def)

lemma qp_entry_set: "qp_entry L q = Some (t, st) \<Longrightarrow> qp_entry (set_qp_state q st' L) q = Some (t, st')"
  by (induction L) (auto simp: ledger_simps split: info.splits if_splits)

lemma set_qp_state_twice: "set_qp_state q st (set_qp_state q st' L) = set_qp_state q st L"
  by (induction L) (auto simp: ledger_simps split: info.splits)

text \<open>The modifications of queue pairs a run made, with the answers.\<close>

fun modified_by :: "event \<Rightarrow> (ptr \<times> qp_attr \<times> resp) list" where
  "modified_by (Vb (Ibv_modify_qp q a m), r) = [(q, a, r)]"
| "modified_by _ = []"

definition modified :: "event list \<Rightarrow> (ptr \<times> qp_attr \<times> resp) list" where
  "modified es = concat (map modified_by es)"

lemma modified_simps [simp]:
  "modified [] = []" "modified (e # es) = modified_by e @ modified es"
  "modified (es @ es') = modified es @ modified es'"
  by (simp_all add: modified_def)

fun is_modify :: "call \<Rightarrow> bool" where
  "is_modify (Vb (Ibv_modify_qp q a m)) = True"
| "is_modify _ = False"

lemma modified_none:
  assumes "calls (\<lambda>c. \<not> is_modify c) m" "m v h = (r, es)"
  shows "modified es = []"
  unfolding modified_def
proof (rule only_concat_map [OF assms])
  fix e :: event
  assume "\<not> is_modify (fst e)"
  then show "modified_by e = []"
    by (cases e rule: modified_by.cases) auto
qed

context ladder
begin

text \<open>The walk keeps to the contract and leaves the queue pair ready to send.\<close>

lemma keeps_climb:
  assumes "qp_entry L q = Some (ty, IBV_QPS_RESET)"
    and "Q (Ret ()) (set_qp_state q IBV_QPS_RTS L)" "\<And>L'. Q (Exit 1) L'"
  shows "keeps v (climb to_init to_rtr to_rts) L Q"
proof -
  from init rtr rts obtain m1 m2 m3 where
    eq: "to_init = sys (Vb (Ibv_modify_qp q init_attr m1))"
      "to_rtr = sys (Vb (Ibv_modify_qp q rtr_attr m2))"
      "to_rts = sys (Vb (Ibv_modify_qp q rts_attr m3))"
    and ok: "edge_ok ty IBV_QPS_RESET init_attr m1" "edge_ok ty IBV_QPS_INIT rtr_attr m2"
      "edge_ok ty IBV_QPS_RTR rts_attr m3"
    by auto
  show ?thesis
    unfolding climb_def eq using assms ok
    by (auto intro!: obeys_rules
        simp: qp_entry_set set_qp_state_twice edge_state(1) [OF ok(1)] edge_state(2) [OF ok(2)]
          edge_state(3) [OF ok(3)])
qed

text \<open>A walk that returned has made exactly its three modifications, all of them successful.\<close>

lemma climb_modified:
  assumes "climb to_init to_rtr to_rts v h = (Ret u, es)"
  shows "modified es = [(q, init_attr, RInt 0), (q, rtr_attr, RInt 0), (q, rts_attr, RInt 0)]"
proof -
  from init rtr rts obtain m1 m2 m3 where
    "to_init = sys (Vb (Ibv_modify_qp q init_attr m1))"
    "to_rtr = sys (Vb (Ibv_modify_qp q rtr_attr m2))"
    "to_rts = sys (Vb (Ibv_modify_qp q rts_attr m3))"
    by auto
  with assms show ?thesis
    by (auto simp: climb_def bnd_eq_Ret seq_eq_Ret sys_def CHECK_RC_def split: if_splits)
qed

end

section \<open>Rules for the shared parts\<close>

lemma keeps_seed_prng [obeys_rules]: "Q (Ret ()) L \<Longrightarrow> keeps v seed_prng L Q"
  by (auto simp: seed_prng_def intro!: obeys_rules)

lemma keeps_side_channel [obeys_rules]:
  assumes "wf_ledger L" "role_ok a" "\<And>L'. Q (Exit 1) L'"
    and "\<And>fd. 0 \<le> fd \<Longrightarrow> \<not> live L (KFd fd) \<Longrightarrow> Q (Ret fd) (fd_res fd # L)"
  shows "keeps v (side_channel a) L Q"
  using assms
  by (auto simp: side_channel_def role_ok_def ledger_simps fresh_not_needed filter_fresh
      intro!: obeys_rules)

lemma keeps_sync_peer [obeys_rules]:
  assumes "live L (KFd fd)" "Q (Ret ()) L"
  shows "keeps v (sync_peer fd) L Q"
  using assms by (auto simp: sync_peer_def intro!: obeys_rules)

lemma length_takeWhile_NUL: "0 \<in> set d \<Longrightarrow> length (takeWhile (\<lambda>b. b \<noteq> (0 :: byte)) d) < length d"
  by (induction d) auto

lemma keeps_load_str [obeys_rules]:
  assumes "mem_ok L p n" "Q UB L" "\<And>d. length d < n \<Longrightarrow> Q (Ret d) L"
  shows "keeps v (load_str p n) L Q"
  using assms
  by (auto simp: load_str_def length_takeWhile_NUL intro!: obeys_rules)

lemma calls_load_str [only_rules]: "P (Os (Mem_load p n)) \<Longrightarrow> calls P (load_str p n)"
  unfolding load_str_def by (auto intro!: only_rules)

lemma calls_seed_prng [only_rules]:
  "P (Os Getpid) \<Longrightarrow> P (Os Time) \<Longrightarrow> (\<And>n. P (Os (Srand48 n))) \<Longrightarrow> calls P seed_prng"
  unfolding seed_prng_def by (auto intro!: only_rules)

lemma calls_side_channel [only_rules]:
  assumes "\<And>d t p. P (Os (Socket d t p))" "\<And>fd a. P (Os (Connect fd a))" "\<And>fd. P (Os (Close fd))"
    "\<And>n q f t. P (Os (Getaddrinfo n q f t))" "\<And>a. P (Os (Freeaddrinfo a))"
    "\<And>fd. P (Os (Setsockopt fd))" "\<And>fd a. P (Os (Bind fd a))" "\<And>fd n. P (Os (Listen fd n))"
    "\<And>fd. P (Os (Accept fd))"
  shows "calls P (side_channel a)"
  unfolding side_channel_def by (auto intro!: only_rules assms)

lemma calls_climb [only_rules]:
  "calls P a \<Longrightarrow> calls P b \<Longrightarrow> calls P c \<Longrightarrow> calls P (climb a b c)"
  unfolding climb_def by (auto intro!: only_rules)

section \<open>Outstanding work requests\<close>

text \<open>
  A second contract, on the queues: never more than \<open>cap\<close> posted work requests whose completion
  was not polled.  The network card breaks its side when it completes more than was posted.  A
  failed post does not count.
\<close>

definition flow :: "nat \<Rightarrow> nat \<Rightarrow> event \<Rightarrow> nat verdict" where
  "flow cap n e =
     (case e of
        (Vb (Ibv_post_send q w), r) \<Rightarrow>
          (if rint r \<noteq> 0 then Live n else if n < cap then Live (Suc n) else Misuse)
      | (Vb (Ibv_post_recv q w), r) \<Rightarrow>
          (if rint r \<noteq> 0 then Live n else if n < cap then Live (Suc n) else Misuse)
      | (Vb (Ibv_poll_cq c k), RWc m ws) \<Rightarrow>
          (if m \<le> 0 then Live n else if n < nat m \<or> k < nat m then Breach else Live (n - nat m))
      | _ \<Rightarrow> Live n)"

lemma flow_simps:
  "flow cap n (Vb (Ibv_post_send q w), RInt rc) =
     (if rc \<noteq> 0 then Live n else if n < cap then Live (Suc n) else Misuse)"
  "flow cap n (Vb (Ibv_post_recv q w'), RInt rc) =
     (if rc \<noteq> 0 then Live n else if n < cap then Live (Suc n) else Misuse)"
  "flow cap n (Vb (Ibv_poll_cq c k), RWc m ws) =
     (if m \<le> 0 then Live n else if n < nat m \<or> k < nat m then Breach else Live (n - nat m))"
  by (simp_all add: flow_def)

fun flow_call :: "call \<Rightarrow> bool" where
  "flow_call (Vb (Ibv_post_send q w)) = True"
| "flow_call (Vb (Ibv_post_recv q w)) = True"
| "flow_call (Vb (Ibv_poll_cq c k)) = True"
| "flow_call _ = False"

lemma flow_other: "\<not> flow_call (fst e) \<Longrightarrow> flow cap n e = Live n"
  by (cases e rule: prod.exhaust) (auto simp: flow_def split: call.splits vb_call.splits)

lemma mon_run_flow_other: "list_all (\<lambda>e. \<not> flow_call (fst e)) es \<Longrightarrow> mon_run (flow cap) n es = Live n"
  by (induction es) (auto simp: flow_other)

text \<open>A part of a program that neither posts nor polls leaves the count as it is.\<close>

lemma flow_quiet:
  assumes "calls (\<lambda>c. \<not> flow_call c) m"
    and "\<And>a. Q (Ret a) n" "\<And>k. Q (Exit k) n" "Q UB n" "Q Hang n"
  shows "obeys (flow cap) v m n Q"
  unfolding obeys_def
proof
  fix h
  have Q: "Q r n" for r
    using assms(2-) by (cases r) auto
  have "mon_run (flow cap) n (snd (m v h)) = Live n"
    using assms(1) by (intro mon_run_flow_other) (simp add: only_def)
  then show "fair (Q (fst (m v h))) (mon_run (flow cap) n (snd (m v h)))"
    using Q by simp
qed

text \<open>A poll for one completion that succeeds takes exactly one.\<close>

lemma flow_poll_completion:
  assumes "Q (Ret (Inl (- 1))) n" "Q (Ret (Inl (- 1))) (n - 1)" "Q Hang n"
    and "\<And>wc. 0 < n \<Longrightarrow> Q (Ret (Inr wc)) (n - 1)"
  shows "obeys (flow cap) v (poll_completion fuel cq) n Q"
proof (induction fuel)
  case 0
  then show ?case using assms by simp
next
  case (Suc fuel)
  have one: "n - nat m = n - 1" if "\<not> m < 0" "m \<noteq> 0" "\<not> 1 < m" for m :: int
    using that by (simp add: antisym_conv2)
  show ?case using assms Suc
    by (auto intro!: obeys_rules simp: flow_simps one split: list.split)
qed

section \<open>Two ends of one connection\<close>

text \<open>Calls that move bytes over a descriptor.\<close>

fun is_transfer :: "call \<Rightarrow> bool" where
  "is_transfer (Os (Write fd bs)) = True"
| "is_transfer (Os (Read fd n)) = True"
| "is_transfer _ = False"

lemma transfer_none:
  assumes "calls (\<lambda>c. \<not> is_transfer c) m" "m v h = (r, es)"
  shows "sent fd es = []" "rcvd fd es = []"
proof -
  have 1: "sent_by fd e = []" if "\<not> is_transfer (fst e)" for e
    using that by (cases "(fd, e)" rule: sent_by.cases) auto
  have 2: "rcvd_by fd e = []" if "\<not> is_transfer (fst e)" for e
    using that by (cases "(fd, e)" rule: rcvd_by.cases) auto
  show "sent fd es = []"
    unfolding sent_def by (rule only_concat_map [OF assms]) (rule 1)
  show "rcvd fd es = []"
    unfolding rcvd_def by (rule only_concat_map [OF assms]) (rule 2)
qed

text \<open>
  Two queue pairs are two ends of one reliable connection: each is addressed to the other, each
  expects the packet sequence number the other starts with, they agree on the MTU, and neither
  starts more RDMA reads at a time than the other answers.
\<close>

definition rc_half :: "qp_attr \<Rightarrow> qp_attr \<Rightarrow> qp_attr \<Rightarrow> qp_attr \<Rightarrow> qp_info \<Rightarrow> bool" where
  "rc_half rtr rts rtr' rts' peer \<longleftrightarrow>
     qa_dest_qp_num rtr = qi_qp_num peer \<and>
     ah_dgid (qa_ah_attr rtr) = qi_gid peer \<and>
     unat (ah_dlid (qa_ah_attr rtr)) = unat (qi_lid peer) \<and>
     qa_rq_psn rtr = qa_sq_psn rts' \<and> unat (qa_rq_psn rtr) < 2 ^ 24 \<and>
     qa_path_mtu rtr = qa_path_mtu rtr' \<and>
     qa_max_rd_atomic rts \<le> qa_max_dest_rd_atomic rtr'"

text \<open>RDMA operations a run has posted: where they point to and how many bytes they move.\<close>

definition sge_bytes :: "ibv_sge list \<Rightarrow> nat" where
  "sge_bytes gs = sum_list (map (\<lambda>g. unat (sge_length g)) gs)"

fun rdma_by :: "wr_opcode \<Rightarrow> event \<Rightarrow> (u64 \<times> u32 \<times> nat) list" where
  "rdma_by oc (Vb (Ibv_post_send q w), r) =
     (if sw_opcode w = oc then [(sw_remote_addr w, sw_rkey w, sge_bytes (sw_sg_list w))] else [])"
| "rdma_by oc _ = []"

definition rdma :: "wr_opcode \<Rightarrow> event list \<Rightarrow> (u64 \<times> u32 \<times> nat) list" where
  "rdma oc es = concat (map (rdma_by oc) es)"

lemma rdma_simps [simp]:
  "rdma oc [] = []" "rdma oc (e # es) = rdma_by oc e @ rdma oc es"
  "rdma oc (es @ es') = rdma oc es @ rdma oc es'"
  by (simp_all add: rdma_def)

section \<open>The work a run has done\<close>

text \<open>Accepted work requests by their identifiers, and polls that found a completion, in order.\<close>

datatype work = Posted_recv u64 | Posted_send u64 | Completed

fun work_by :: "event \<Rightarrow> work list" where
  "work_by (Vb (Ibv_post_send q w), RInt rc) = (if rc = 0 then [Posted_send (sw_wr_id w)] else [])"
| "work_by (Vb (Ibv_post_recv q w), RInt rc) = (if rc = 0 then [Posted_recv (rw_wr_id w)] else [])"
| "work_by (Vb (Ibv_poll_cq c k), RWc n ws) = (if 0 < n then [Completed] else [])"
| "work_by _ = []"

definition work :: "event list \<Rightarrow> work list" where
  "work es = concat (map work_by es)"

lemma work_simps [simp]:
  "work [] = []" "work (e # es) = work_by e @ work es" "work (es @ es') = work es @ work es'"
  by (simp_all add: work_def)

lemma work_none: "calls (\<lambda>c. \<not> flow_call c) m \<Longrightarrow> m v h = (r, es) \<Longrightarrow> work es = []"
  unfolding work_def
proof (erule (1) only_concat_map)
  fix e :: event
  assume "\<not> flow_call (fst e)"
  then show "work_by e = []" by (cases e rule: work_by.cases) auto
qed

lemma rdma_poll_completion:
  assumes "poll_completion fuel cq v h = (Ret (Inr wc), es)"
  shows "rdma oc es = []"
proof -
  have "rdma oc idle = []" if "list_all (empty_poll cq) idle" for idle
    using that by (induction idle) (auto simp: empty_poll_def)
  then show ?thesis
    using poll_completion_Inr [OF assms] by auto
qed

lemma work_poll_completion:
  assumes "poll_completion fuel cq v h = (Ret (Inr wc), es)"
  shows "work es = [Completed]"
proof -
  have "work idle = []" if "list_all (empty_poll cq) idle" for idle
    using that by (induction idle) (auto simp: empty_poll_def)
  then show ?thesis
    using poll_completion_Inr [OF assms] by auto
qed

text \<open>A string read from a buffer nobody else writes is the one stored there.\<close>

lemma stored_snoc [simp]: "bs \<noteq> [] \<Longrightarrow> stored p (h @ [(Os (Mem_store p bs), r)]) = bs"
  by (induction h) (auto split: list.split)

lemma load_str_quiet:
  assumes "load_str p n v h = (Ret d, es)"
  shows "work es = []" "rdma oc es = []" "length d < n"
proof -
  from assms obtain k bs where "es = [(Os (Mem_load p n), RBytes k bs)]" "0 \<in> set bs" "length bs = n"
    "d = takeWhile (\<lambda>b. b \<noteq> 0) bs"
    by (auto simp: load_str_def bnd_eq_Ret sys_load_def split: prod.splits if_splits)
  then show "work es = []" "rdma oc es = []" "length d < n"
    by (auto simp: length_takeWhile_NUL)
qed

lemma load_str_own:
  assumes "load_str p n v h = (Ret d, es)" "own_memory v p"
  shows "d = takeWhile (\<lambda>b. b \<noteq> 0) (fit n (stored p h))"
  using assms
  by (auto simp: load_str_def bnd_eq_Ret sys_load_def own_memory_def split: prod.splits if_splits)
    (metis snd_conv)+

text \<open>\<^verbatim>\<open>strlen\<close> of what \<^verbatim>\<open>snprintf\<close> stored into the whole buffer.\<close>

lemma strlen_fit_snprintf:
  assumes "no_nul s" "0 < n"
  shows "length (takeWhile (\<lambda>b. b \<noteq> 0) (fit n (snprintf_bytes n s))) = min (n - 1) (length s)"
proof -
  obtain j where "n - min (length s) (n - Suc 0) = Suc j"
    using assms(2) by (cases "n - min (length s) (n - Suc 0)") auto
  then have "takeWhile (\<lambda>b. b \<noteq> 0) (fit n (snprintf_bytes n s)) = takeWhile (\<lambda>b. b \<noteq> 0) (snprintf_bytes n s)"
    using assms(2) length_snprintf_le [of n s]
    by (simp add: fit_def snprintf_bytes_def takeWhile_tail)
  then show ?thesis
    using strlen_snprintf [OF assms] by (simp add: strlen_def)
qed

lemmas lab_rc = lab_common side_channel_def seed_prng_def sync_peer_def climb_def

end
