(* ===== verification/Rc_Pingpong.thy ===== *)
theory Rc_Pingpong
  imports Rc_Common
begin

text \<open>
  \<^verbatim>\<open>ch09-rc-pingpong/rc_pingpong.c\<close>: two peers bounce a message over a reliable connection.  The
  definitions follow the steps of the source's \<open>main\<close>; \<open>fuel\<close> bounds every loop that waits.
\<close>

section \<open>Queue pair transitions\<close>

definition pp_init_attr :: "int \<Rightarrow> qp_attr" where
  "pp_init_attr port = zero_qp_attr\<lparr>qa_qp_state := IBV_QPS_INIT, qa_pkey_index := 0,
     qa_port_num := to_u8 port, qa_access_flags := {}\<rparr>"

definition pp_modify_qp_to_init :: "ibv_qp \<Rightarrow> int \<Rightarrow> int io" where
  "pp_modify_qp_to_init qp port =
     sys (Vb (Ibv_modify_qp (qp_ptr qp) (pp_init_attr port)
       {IBV_QP_STATE, IBV_QP_PKEY_INDEX, IBV_QP_PORT, IBV_QP_ACCESS_FLAGS}))"

definition pp_rtr_attr :: "int \<Rightarrow> qp_info \<Rightarrow> int \<Rightarrow> qp_attr" where
  "pp_rtr_attr port remote gidx = zero_qp_attr\<lparr>qa_qp_state := IBV_QPS_RTR,
     qa_path_mtu := IBV_MTU_1024, qa_dest_qp_num := qi_qp_num remote,
     qa_rq_psn := qi_psn remote, qa_max_dest_rd_atomic := 0, qa_min_rnr_timer := 12,
     qa_ah_attr := zero_ah\<lparr>ah_is_global := 1, ah_dgid := qi_gid remote,
       ah_sgid_index := to_u8 gidx, ah_hop_limit := 1, ah_dlid := ucast (qi_lid remote),
       ah_sl := 0, ah_src_path_bits := 0, ah_port_num := to_u8 port\<rparr>\<rparr>"

definition pp_modify_qp_to_rtr :: "ibv_qp \<Rightarrow> int \<Rightarrow> qp_info \<Rightarrow> int \<Rightarrow> int io" where
  "pp_modify_qp_to_rtr qp port remote gidx =
     sys (Vb (Ibv_modify_qp (qp_ptr qp) (pp_rtr_attr port remote gidx)
       {IBV_QP_STATE, IBV_QP_AV, IBV_QP_PATH_MTU, IBV_QP_DEST_QPN, IBV_QP_RQ_PSN,
        IBV_QP_MAX_DEST_RD_ATOMIC, IBV_QP_MIN_RNR_TIMER}))"

definition pp_rts_attr :: "u32 \<Rightarrow> qp_attr" where
  "pp_rts_attr local_psn = zero_qp_attr\<lparr>qa_qp_state := IBV_QPS_RTS, qa_sq_psn := local_psn,
     qa_timeout := 14, qa_retry_cnt := 7, qa_rnr_retry := 7, qa_max_rd_atomic := 0\<rparr>"

definition pp_modify_qp_to_rts :: "ibv_qp \<Rightarrow> u32 \<Rightarrow> int io" where
  "pp_modify_qp_to_rts qp local_psn =
     sys (Vb (Ibv_modify_qp (qp_ptr qp) (pp_rts_attr local_psn)
       {IBV_QP_STATE, IBV_QP_SQ_PSN, IBV_QP_TIMEOUT, IBV_QP_RETRY_CNT, IBV_QP_RNR_RETRY,
        IBV_QP_MAX_QP_RD_ATOMIC}))"

interpretation pp: ladder IBV_QPT_RC "qp_ptr qp" "pp_init_attr port" "pp_rtr_attr port remote gidx"
    "pp_rts_attr psn" "pp_modify_qp_to_init qp port" "pp_modify_qp_to_rtr qp port remote gidx"
    "pp_modify_qp_to_rts qp psn" for qp port remote gidx psn
  by unfold_locales
    (auto simp: pp_modify_qp_to_init_def pp_modify_qp_to_rtr_def pp_modify_qp_to_rts_def edge_ok_def
      pp_init_attr_def pp_rtr_attr_def pp_rts_attr_def intro!: exI)

section \<open>Posting\<close>

definition pp_sge :: "ptr \<Rightarrow> u32 \<Rightarrow> ibv_mr \<Rightarrow> ibv_sge" where
  "pp_sge buf len mr = \<lparr>sge_addr = buf, sge_length = len, sge_lkey = mr_lkey mr\<rparr>"

definition pp_post_receive :: "ibv_qp \<Rightarrow> ptr \<Rightarrow> u32 \<Rightarrow> ibv_mr \<Rightarrow> u64 \<Rightarrow> int io" where
  "pp_post_receive qp buf len mr wr_id =
     sys (Vb (Ibv_post_recv (qp_ptr qp)
       \<lparr>rw_wr_id = wr_id, rw_sg_list = [pp_sge buf len mr]\<rparr>))"

definition pp_post_send :: "ibv_qp \<Rightarrow> ptr \<Rightarrow> u32 \<Rightarrow> ibv_mr \<Rightarrow> u64 \<Rightarrow> int io" where
  "pp_post_send qp buf len mr wr_id =
     sys (Vb (Ibv_post_send (qp_ptr qp)
       \<lparr>sw_wr_id = wr_id, sw_sg_list = [pp_sge buf len mr], sw_opcode = IBV_WR_SEND,
        sw_send_flags = {IBV_SEND_SIGNALED}, sw_remote_addr = 0, sw_rkey = 0, sw_ah = 0,
        sw_remote_qpn = 0, sw_remote_qkey = 0\<rparr>))"

definition get_time_ns :: "u64 io" where
  "get_time_ns = bnd sys_time (\<lambda>(s, ns). ret (word_of_int s * 1000000000 + word_of_int ns))"

section \<open>Options\<close>

definition pp_defaults :: args where
  "pp_defaults = \<lparr>is_server = - 1, server_name = None, dev_name_opt = None, tcp_port = DEFAULT_PORT,
     num_iters = DEFAULT_NUM_ITERS, msg_size = DEFAULT_MSG_SIZE, ib_port = DEFAULT_IB_PORT,
     gid_index = DEFAULT_GID_INDEX\<rparr>"

definition pp_option :: "args \<Rightarrow> char \<Rightarrow> string \<Rightarrow> args option" where
  "pp_option a c optarg =
     (if c = CHR ''s'' then Some (a\<lparr>is_server := 1\<rparr>)
      else if c = CHR ''c'' then Some (a\<lparr>is_server := 0, server_name := Some optarg\<rparr>)
      else if c = CHR ''d'' then Some (a\<lparr>dev_name_opt := Some optarg\<rparr>)
      else if c = CHR ''p'' then Some (a\<lparr>tcp_port := atoi optarg\<rparr>)
      else if c = CHR ''n'' then Some (a\<lparr>num_iters := atoi optarg\<rparr>)
      else if c = CHR ''m'' then Some (a\<lparr>msg_size := atoi optarg\<rparr>)
      else if c = CHR ''g'' then Some (a\<lparr>gid_index := atoi optarg\<rparr>)
      else None)"

section \<open>Main\<close>

text \<open>What the steps 1 to 7 leave behind.\<close>

record pp_state =
  pp_ctx :: ptr
  pp_pd :: ptr
  pp_cq :: ptr
  pp_qp :: ibv_qp
  pp_buf :: ptr
  pp_mr :: ibv_mr
  pp_local :: qp_info
  pp_sock :: int
  pp_remote :: qp_info

definition pp_qp_init_attr :: "ptr \<Rightarrow> qp_init_attr" where
  "pp_qp_init_attr cq =
     \<lparr>qi_send_cq = cq, qi_recv_cq = cq, qi_srq = 0,
      qi_cap = \<lparr>max_send_wr = SQ_DEPTH, max_recv_wr = RQ_DEPTH, max_send_sge = 1, max_recv_sge = 1,
        max_inline_data = 0\<rparr>,
      qi_qp_type = IBV_QPT_RC, qi_sq_sig_all = 0\<rparr>"

text \<open>
  Steps 1 to 6: device, protection domain, completion queue, queue pair, memory, local information.
  The socket and the remote information are set by step 7.
\<close>

definition pp_resources :: "args \<Rightarrow> pp_state io" where
  "pp_resources a =
     bnd (open_device (dev_name_opt a)) (\<lambda>ctx. seq (CHECK_NULL ctx) (
     bnd (sysp (Vb (Ibv_alloc_pd ctx))) (\<lambda>pd. seq (CHECK_NULL pd) (
     bnd (sysp (Vb (Ibv_create_cq ctx CQ_DEPTH))) (\<lambda>cq. seq (CHECK_NULL cq) (
     bnd (sys_qp (Vb (Ibv_create_qp pd (pp_qp_init_attr cq)))) (\<lambda>qp. seq (CHECK_NULL (qp_ptr qp)) (
     bnd (sysp (Os (Calloc 1 (to_size (msg_size a))))) (\<lambda>buf. seq (CHECK_NULL buf) (
     bnd (sys_mr (Vb (Ibv_reg_mr pd buf (to_size (msg_size a)) {IBV_ACCESS_LOCAL_WRITE}))) (\<lambda>mr.
     seq (CHECK_NULL (mr_ptr mr)) (
     bnd (get_local_info ctx qp (ib_port a) (gid_index a)) (\<lambda>li. bnd (CHECK_ERRNO_out li) (\<lambda>loc.
     ret \<lparr>pp_ctx = ctx, pp_pd = pd, pp_cq = cq, pp_qp = qp, pp_buf = buf, pp_mr = mr,
          pp_local = loc, pp_sock = - 1, pp_remote = zero_qp_info\<rparr>))))))))))))))"

text \<open>Step 7: the side channel and the exchange over it.\<close>

definition pp_setup :: "nat \<Rightarrow> args \<Rightarrow> pp_state io" where
  "pp_setup fuel a =
     bnd (pp_resources a) (\<lambda>s.
     bnd (side_channel a) (\<lambda>sockfd.
     bnd (exchange_qp_info fuel sockfd (pp_local s)) (\<lambda>ri. bnd (CHECK_ERRNO_out ri) (\<lambda>remote.
     ret (s\<lparr>pp_sock := sockfd, pp_remote := remote\<rparr>)))))"

text \<open>Step 8: RESET to INIT to RTR to RTS.\<close>

definition pp_connect :: "args \<Rightarrow> pp_state \<Rightarrow> unit io" where
  "pp_connect a s =
     climb (pp_modify_qp_to_init (pp_qp s) (ib_port a))
       (pp_modify_qp_to_rtr (pp_qp s) (ib_port a) (pp_remote s) (gid_index a))
       (pp_modify_qp_to_rts (pp_qp s) (qi_psn (pp_local s)))"

text \<open>Step 10: one iteration of the loop, per role.\<close>

definition pp_poll :: "nat \<Rightarrow> pp_state \<Rightarrow> unit io" where
  "pp_poll fuel s =
     bnd (poll_completion fuel (pp_cq s)) (\<lambda>r. bnd (CHECK_ERRNO_out r) (\<lambda>wc. ret ()))"

definition pp_server_iter :: "nat \<Rightarrow> args \<Rightarrow> pp_state \<Rightarrow> nat \<Rightarrow> unit io" where
  "pp_server_iter fuel a s i =
     bnd (pp_post_receive (pp_qp s) (pp_buf s) (to_u32 (msg_size a)) (pp_mr s) (of_nat i)) (\<lambda>r.
     seq (CHECK_ERRNO r) (
     seq (pp_poll fuel s) (
     bnd (pp_post_send (pp_qp s) (pp_buf s) (to_u32 (msg_size a)) (pp_mr s) (of_nat i)) (\<lambda>r.
     seq (CHECK_ERRNO r) (
     pp_poll fuel s)))))"

definition pp_client_iter :: "nat \<Rightarrow> args \<Rightarrow> pp_state \<Rightarrow> nat \<Rightarrow> unit io" where
  "pp_client_iter fuel a s i =
     seq (sysv (Os (Mem_store (pp_buf s)
       (snprintf_bytes (to_size (msg_size a)) (''ping-'' @ fmt_0d 6 (int i)))))) (
     bnd (pp_post_receive (pp_qp s) (pp_buf s) (to_u32 (msg_size a)) (pp_mr s) (of_nat i)) (\<lambda>r.
     seq (CHECK_ERRNO r) (
     bnd (pp_post_send (pp_qp s) (pp_buf s) (to_u32 (msg_size a)) (pp_mr s) (of_nat i)) (\<lambda>r.
     seq (CHECK_ERRNO r) (
     seq (pp_poll fuel s) (
     pp_poll fuel s))))))"

definition pp_loop :: "nat \<Rightarrow> args \<Rightarrow> pp_state \<Rightarrow> unit io" where
  "pp_loop fuel a s =
     for_each [0..<nat (num_iters a)]
       (\<lambda>i. if is_server a \<noteq> 0 then pp_server_iter fuel a s i else pp_client_iter fuel a s i)"

definition pp_cleanup :: "pp_state \<Rightarrow> unit io" where
  "pp_cleanup s =
     seq (sys (Os (Close (pp_sock s)))) (
     seq (sys (Vb (Ibv_destroy_qp (qp_ptr (pp_qp s))))) (
     seq (sys (Vb (Ibv_dereg_mr (mr_ptr (pp_mr s))))) (
     seq (sys (Vb (Ibv_destroy_cq (pp_cq s)))) (
     seq (sys (Vb (Ibv_dealloc_pd (pp_pd s)))) (
     seq (sys (Vb (Ibv_close_device (pp_ctx s)))) (
     sysv (Os (Free (pp_buf s)))))))))"

definition pp_main :: "nat \<Rightarrow> (char \<times> string) list \<Rightarrow> int io" where
  "pp_main fuel opts =
     (case parse_opts pp_option pp_defaults opts of
        None \<Rightarrow> halt EXIT_FAILURE
      | Some a \<Rightarrow>
          if is_server a < 0 then halt EXIT_FAILURE
          else seq seed_prng (
            bnd (pp_setup fuel a) (\<lambda>s.
            seq (pp_connect a s) (
            seq (sync_peer (pp_sock s)) (
            bnd get_time_ns (\<lambda>start_ns.
            seq (pp_loop fuel a s) (
            bnd get_time_ns (\<lambda>end_ns.
            seq (pp_cleanup s) (
            ret 0)))))))))"

section \<open>The program keeps to the contract\<close>

definition pp_ledger :: "args \<Rightarrow> qp_state \<Rightarrow> pp_state \<Rightarrow> ledger" where
  "pp_ledger a st s =
     [fd_res (pp_sock s),
      mr_res (pp_mr s) (pp_pd s) (pp_buf s) (to_size (msg_size a)) {IBV_ACCESS_LOCAL_WRITE},
      buf_res (pp_buf s) (to_size (msg_size a)),
      qp_res (qp_ptr (pp_qp s)) (pp_pd s) (pp_cq s) IBV_QPT_RC st,
      cq_res (pp_cq s) (pp_ctx s), pd_res (pp_pd s) (pp_ctx s), ctx_res (pp_ctx s)]"

lemma pp_role: "role_ok a \<Longrightarrow> pp_option a c arg = Some a' \<Longrightarrow> role_ok a'"
  by (auto simp: pp_option_def role_ok_def split: if_splits)

lemma pp_args_role: "parse_opts pp_option pp_defaults opts = Some a \<Longrightarrow> role_ok a"
  by (rule parse_opts_role [where one = pp_option and a = pp_defaults, OF pp_role]) (auto simp: pp_defaults_def role_ok_def)

lemma keeps_pp_setup [obeys_rules]:
  assumes "role_ok a"
    and "\<And>s L. pp_buf s \<noteq> 0 \<Longrightarrow> L = pp_ledger a IBV_QPS_RESET s \<Longrightarrow> Q (Ret s) L"
    and "\<And>n L. Q (Exit n) L" "\<And>L. Q UB L" "\<And>L. Q Hang L"
  shows "keeps v (pp_setup fuel a) [] Q"
  unfolding pp_setup_def pp_resources_def
  using assms(1)
  by (auto intro!: obeys_rules assms(2-) simp: ledger_simps pp_qp_init_attr_def pp_ledger_def)

lemma keeps_pp_connect [obeys_rules]:
  assumes "Q (Ret ()) (pp_ledger a IBV_QPS_RTS s)" "\<And>n L. Q (Exit n) L"
  shows "keeps v (pp_connect a s) (pp_ledger a IBV_QPS_RESET s) Q"
  unfolding pp_connect_def
  by (rule pp.keeps_climb) (auto simp: assms ledger_simps pp_ledger_def
      intro: assms(1) [unfolded pp_ledger_def])

lemma keeps_pp_poll [obeys_rules]:
  assumes "live L (KCq (pp_cq s))" "Q (Ret ()) L" "\<And>n L. Q (Exit n) L" "\<And>L. Q Hang L"
  shows "keeps v (pp_poll fuel s) L Q"
  unfolding pp_poll_def using assms by (auto intro!: obeys_rules)

lemma keeps_get_time_ns [obeys_rules]: "(\<And>t. Q (Ret t) L) \<Longrightarrow> keeps v get_time_ns L Q"
  unfolding get_time_ns_def by (auto intro!: obeys_rules)

text \<open>Both posts hand out the whole registered buffer, and the formatted ping fits into it.\<close>

lemma pp_ledger_ok [simp]:
  "sge_ok (pp_ledger a st s) {IBV_ACCESS_LOCAL_WRITE} (pp_sge (pp_buf s) (to_u32 (msg_size a)) (pp_mr s))"
  "sge_ok (pp_ledger a st s) {} (pp_sge (pp_buf s) (to_u32 (msg_size a)) (pp_mr s))"
  "qp_entry (pp_ledger a st s) (qp_ptr (pp_qp s)) = Some (IBV_QPT_RC, st)"
  "live (pp_ledger a st s) (KCq (pp_cq s))" "live (pp_ledger a st s) (KFd (pp_sock s))"
  "k \<le> to_size (msg_size a) \<Longrightarrow> mem_ok (pp_ledger a st s) (pp_buf s) k"
  by (auto simp: pp_ledger_def ledger_simps pp_sge_def to_u32_le_to_size)

lemma keeps_pp_loop [obeys_rules]:
  assumes "Q (Ret ()) (pp_ledger a IBV_QPS_RTS s)" "\<And>n L. Q (Exit n) L" "\<And>L. Q Hang L"
  shows "keeps v (pp_loop fuel a s) (pp_ledger a IBV_QPS_RTS s) Q"
  unfolding pp_loop_def pp_server_iter_def pp_client_iter_def pp_post_receive_def pp_post_send_def
  using assms
  by (auto intro!: obeys_for_each_same obeys_rules simp: post_recv_ok_def post_send_ok_def
      length_snprintf_le)

lemma keeps_pp_cleanup [obeys_rules]:
  assumes "pp_buf s \<noteq> 0" "Q (Ret ()) []"
  shows "keeps v (pp_cleanup s) (pp_ledger a st s) Q"
  unfolding pp_cleanup_def pp_ledger_def
  using assms by (auto intro!: obeys_rules simp: ledger_simps)

lemma keeps_pp_main: "keeps v (pp_main fuel opts) [] (\<lambda>r L. r = Ret 0 \<longrightarrow> L = [])"
proof (cases "parse_opts pp_option pp_defaults opts")
  case (Some a)
  with pp_args_role have "role_ok a" by blast
  with Some show ?thesis
    by (auto simp: pp_main_def EXIT_FAILURE_def intro!: obeys_rules)
qed (simp add: pp_main_def EXIT_FAILURE_def)

section \<open>Work requests in flight\<close>

lemmas pp_posts = pp_post_receive_def pp_post_send_def

lemma pp_quiet:
  "calls (\<lambda>c. \<not> flow_call c) (pp_setup fuel a)" "calls (\<lambda>c. \<not> flow_call c) (pp_connect a s)"
  "calls (\<lambda>c. \<not> flow_call c) seed_prng" "calls (\<lambda>c. \<not> flow_call c) (sync_peer fd)"
  "calls (\<lambda>c. \<not> flow_call c) get_time_ns" "calls (\<lambda>c. \<not> flow_call c) (pp_cleanup s)"
  by (auto simp: pp_setup_def pp_resources_def pp_connect_def sync_peer_def get_time_ns_def pp_cleanup_def
      pp_modify_qp_to_init_def pp_modify_qp_to_rtr_def pp_modify_qp_to_rts_def intro!: only_rules)

lemma flow_pp_poll [obeys_rules]:
  assumes "\<And>n'. Q (Exit 1) n'" "\<And>n'. Q Hang n'" "0 < n \<Longrightarrow> Q (Ret ()) (n - 1)"
  shows "obeys (flow cap) v (pp_poll fuel s) n Q"
  unfolding pp_poll_def using assms
  by (auto intro!: obeys_bnd flow_poll_completion keeps_CHECK_ERRNO_out)

lemma flow_pp_loop:
  assumes "\<And>n'. Q (Exit 1) n'" "\<And>n'. Q Hang n'" "Q (Ret ()) 0"
  shows "obeys (flow 2) v (pp_loop fuel a s) 0 Q"
  unfolding pp_loop_def
  by (rule obeys_for_each_same)
    (auto simp: pp_server_iter_def pp_client_iter_def pp_posts flow_simps flow_other assms
      intro!: obeys_rules)

lemma flow_pp_main: "obeys (flow 2) v (pp_main fuel opts) 0 (\<lambda>r n. r = Ret 0 \<longrightarrow> n = 0)"
  unfolding pp_main_def EXIT_FAILURE_def
  by (auto split: option.split intro!: obeys_seq obeys_bnd flow_pp_loop flow_quiet pp_quiet)

section \<open>Two peers\<close>

lemma pp_resources_local:
  "yields (pp_resources a) (\<lambda>s. qi_qp_num (pp_local s) = qp_num (pp_qp s) \<and>
     unat (qi_psn (pp_local s)) < 2 ^ 24 \<and> unat (qi_lid (pp_local s)) < 2 ^ 16)"
  unfolding pp_resources_def
  by (rule yields_local_info yields_skip yields_seq yields_ret)+ simp

text \<open>A finished setup: resources, connection, exchange, in this order.\<close>

lemma pp_setup_parts:
  assumes "pp_setup fuel a v h = (Ret s, es)"
  obtains es1 es2 where "es = es1 @ es2" "sent fd es1 = []" "rcvd fd es1 = []"
    "exchange_qp_info fuel (pp_sock s) (pp_local s) v (h @ es1) = (Ret (Inr (pp_remote s)), es2)"
    "qi_qp_num (pp_local s) = qp_num (pp_qp s)" "unat (qi_psn (pp_local s)) < 2 ^ 24"
    "unat (qi_lid (pp_local s)) < 2 ^ 16" "modified es = []"
proof -
  from assms obtain s0 e1 e2 e3 sock remote where
    r: "pp_resources a v h = (Ret s0, e1)" "side_channel a v (h @ e1) = (Ret sock, e2)"
      "exchange_qp_info fuel sock (pp_local s0) v (h @ e1 @ e2) = (Ret (Inr remote), e3)"
    and s: "s = s0\<lparr>pp_sock := sock, pp_remote := remote\<rparr>" "es = e1 @ e2 @ e3"
    by (auto simp: pp_setup_def bnd_eq_Ret)
  have "calls (\<lambda>c. \<not> is_transfer c) (pp_resources a)" "calls (\<lambda>c. \<not> is_transfer c) (side_channel a)"
    by (auto simp: pp_resources_def intro!: only_rules)
  then have "sent fd (e1 @ e2) = []" "rcvd fd (e1 @ e2) = []"
    using r by (simp_all add: transfer_none)
  moreover have "calls (\<lambda>c. \<not> is_modify c) (pp_setup fuel a)"
    by (auto simp: pp_setup_def pp_resources_def intro!: only_rules)
  then have "modified es = []" using assms by (rule modified_none)
  ultimately show ?thesis
    using that [of "e1 @ e2" e3] r s yieldsD [OF pp_resources_local r(1)] by simp
qed

lemma pp_peers_remote:
  assumes "pp_setup fuel a v [] = (Ret s, es)" "pp_setup fuel' b v' [] = (Ret t, fs)"
    and "env_order v = env_order v'"
    and "delivers (pp_sock t) fs (pp_sock s) es"
  shows "pp_remote s = pp_local t"
proof -
  from assms(1) obtain e1 e2 where A: "es = e1 @ e2" "rcvd (pp_sock s) e1 = []"
    "exchange_qp_info fuel (pp_sock s) (pp_local s) v ([] @ e1) = (Ret (Inr (pp_remote s)), e2)"
    by (rule pp_setup_parts [where fd = "pp_sock s"]) simp
  from assms(2) obtain f1 f2 where B: "fs = f1 @ f2" "sent (pp_sock t) f1 = []"
    "exchange_qp_info fuel' (pp_sock t) (pp_local t) v' ([] @ f1) = (Ret (Inr (pp_remote t)), f2)"
    by (rule pp_setup_parts [where fd = "pp_sock t"]) simp
  show ?thesis
    by (rule qp_wire.rendezvous(1) [OF A(3) [unfolded exchange_qp_info_def]
          B(3) [unfolded exchange_qp_info_def] assms(3), where zs = "[]" and zs' = "[]"])
      (use A(1,2) B(1,2) assms(4) in simp_all)
qed

lemma pp_peers_paired:
  assumes A: "pp_setup fuel a v [] = (Ret s, es)" and B: "pp_setup fuel' b v' [] = (Ret t, fs)"
    and ord: "env_order v = env_order v'"
    and tcp: "delivers (pp_sock t) fs (pp_sock s) es" "delivers (pp_sock s) es (pp_sock t) fs"
    and A': "pp_connect a s v es = (Ret (), es')" and B': "pp_connect b t v' fs = (Ret (), fs')"
  shows "\<exists>i rtr rts i' rtr' rts'.
    modified (es @ es') = map (\<lambda>m. (qp_ptr (pp_qp s), m, RInt 0)) [i, rtr, rts] \<and>
    modified (fs @ fs') = map (\<lambda>m. (qp_ptr (pp_qp t), m, RInt 0)) [i', rtr', rts'] \<and>
    rc_half rtr rts rtr' rts' (pp_local t) \<and> rc_half rtr' rts' rtr rts (pp_local s) \<and>
    qi_qp_num (pp_local s) = qp_num (pp_qp s) \<and> qi_qp_num (pp_local t) = qp_num (pp_qp t)"
proof -
  have rem: "pp_remote s = pp_local t" "pp_remote t = pp_local s"
    using pp_peers_remote [OF A B ord tcp(1)] pp_peers_remote [OF B A ord [symmetric] tcp(2)]
    by simp_all
  from A have s: "modified es = []" "qi_qp_num (pp_local s) = qp_num (pp_qp s)"
    "unat (qi_psn (pp_local s)) < 2 ^ 24" "unat (qi_lid (pp_local s)) < 2 ^ 16"
    by (auto elim: pp_setup_parts)
  from B have t: "modified fs = []" "qi_qp_num (pp_local t) = qp_num (pp_qp t)"
    "unat (qi_psn (pp_local t)) < 2 ^ 24" "unat (qi_lid (pp_local t)) < 2 ^ 16"
    by (auto elim: pp_setup_parts)
  from pp.climb_modified [OF A' [unfolded pp_connect_def]]
    pp.climb_modified [OF B' [unfolded pp_connect_def]] s t rem
  show ?thesis
    by (intro exI) (auto simp: rc_half_def pp_rtr_attr_def pp_rts_attr_def lid_fits)
qed

section \<open>The loop\<close>

lemma work_pp_poll: "pp_poll fuel s v h = (Ret (), es) \<Longrightarrow> work es = [Completed]"
  by (auto simp: pp_poll_def bnd_eq_Ret work_poll_completion)

lemma pp_iter_work:
  "pp_server_iter fuel a s i v h = (Ret (), es) \<Longrightarrow>
   work es = [Posted_recv (of_nat i), Completed, Posted_send (of_nat i), Completed]"
  "pp_client_iter fuel a s i v h = (Ret (), es) \<Longrightarrow>
   work es = [Posted_recv (of_nat i), Posted_send (of_nat i), Completed, Completed]"
  by (auto simp: pp_server_iter_def pp_client_iter_def pp_posts bnd_eq_Ret seq_eq_Ret sys_def
      sysv_def work_pp_poll)

lemma pp_loop_work:
  assumes "pp_loop fuel a s v h = (Ret (), es)"
  shows "work es = concat (map (\<lambda>i. if is_server a \<noteq> 0
      then [Posted_recv (of_nat i), Completed, Posted_send (of_nat i), Completed]
      else [Posted_recv (of_nat i), Posted_send (of_nat i), Completed, Completed])
    [0..<nat (num_iters a)])"
  using assms unfolding pp_loop_def
  by (rule for_each_trace [rotated -1]) (auto simp: pp_iter_work split: if_splits)

section \<open>Properties\<close>

lemmas lab_pp = lab_rc pp_main_def pp_option_def pp_defaults_def pp_setup_def pp_resources_def
  pp_connect_def pp_modify_qp_to_init_def pp_modify_qp_to_rtr_def pp_modify_qp_to_rts_def pp_loop_def
  pp_server_iter_def pp_client_iter_def pp_post_receive_def pp_post_send_def pp_poll_def
  get_time_ns_def pp_cleanup_def

text \<open>C4: The ping-pong program keeps to the verbs contract, whatever the libraries answer.  On every
  path, the error exits included, it uses only live resources, walks the queue pair along legal
  edges with the attributes each edge requires, posts only buffers inside the registered region,
  writes only inside its buffer and destroys nothing that is still needed; and when it returns
  normally it has released everything.\<close>

theorem pp_main_contract:
  assumes "pp_main fuel opts v h = (r, es)"
  shows "clean es \<and> (r = Ret 0 \<longrightarrow> leftover es = [])"
  using keeps_clean [OF keeps_pp_main assms] leftover_either [OF keeps_pp_main assms] by blast

lemma pp_main_contract_witness:
  "\<exists>es. pp_main 32 [(CHR ''s'', []), (CHR ''n'', ''1'')]
      (lab_env 17 5 (qp_info_bytes Little zero_qp_info)) [] = (Ret 0, es) \<and> clean es \<and> leftover es = []"
proof -
  obtain es where r: "pp_main 32 [(CHR ''s'', []), (CHR ''n'', ''1'')]
      (lab_env 17 5 (qp_info_bytes Little zero_qp_info)) [] = (Ret 0, es)"
    by (simp add: lab_pp)
  show ?thesis using pp_main_contract [OF r] r by blast
qed

text \<open>C29: The queues never overflow.  At most two work requests are outstanding at any time, however many
  iterations are asked for, so the queue depths of 16 and the completion queue depth of 128 are
  never exceeded; and a normal end leaves no work request whose completion was not polled.\<close>

theorem pp_main_outstanding:
  assumes "pp_main fuel opts v h = (r, es)"
  shows "mon_run (flow 2) 0 es \<noteq> Misuse \<and> (r = Ret 0 \<longrightarrow> mon_run (flow 2) 0 es \<in> {Live 0, Breach})"
  using obeysD [OF flow_pp_main assms] by (cases "mon_run (flow 2) 0 es") auto

lemma pp_main_outstanding_witness:
  "\<exists>es. pp_main 32 [(CHR ''c'', ''srv''), (CHR ''n'', ''1'')]
      (lab_env 17 5 (qp_info_bytes Little zero_qp_info)) [] = (Ret 0, es) \<and> mon_run (flow 2) 0 es \<noteq> Misuse"
proof -
  obtain es where r: "pp_main 32 [(CHR ''c'', ''srv''), (CHR ''n'', ''1'')]
      (lab_env 17 5 (qp_info_bytes Little zero_qp_info)) [] = (Ret 0, es)"
    by (simp add: lab_pp)
  show ?thesis using pp_main_outstanding [OF r] r by blast
qed

text \<open>C1: Server and client end up as two ends of one reliable connection.  When both processes finish
  setup and connect over one TCP connection, each has made exactly the three modifications of its
  own queue pair, all successful, and the attributes agree pairwise: destination queue pair
  number, GID and LID are the peer's, each side expects the packet sequence number the other
  starts with, the MTUs are equal, and neither initiates more RDMA reads than the peer answers.\<close>

theorem pp_peers_connect:
  assumes "pp_setup fuel a v [] = (Ret s, es)" and "pp_setup fuel' b v' [] = (Ret t, fs)"
    and "env_order v = env_order v'"
    and "delivers (pp_sock t) fs (pp_sock s) es" "delivers (pp_sock s) es (pp_sock t) fs"
    and "pp_connect a s v es = (Ret (), es')" and "pp_connect b t v' fs = (Ret (), fs')"
  shows "\<exists>i rtr rts i' rtr' rts'.
    modified (es @ es') = map (\<lambda>m. (qp_ptr (pp_qp s), m, RInt 0)) [i, rtr, rts] \<and>
    modified (fs @ fs') = map (\<lambda>m. (qp_ptr (pp_qp t), m, RInt 0)) [i', rtr', rts'] \<and>
    rc_half rtr rts rtr' rts' (pp_local t) \<and> rc_half rtr' rts' rtr rts (pp_local s) \<and>
    qi_qp_num (pp_local s) = qp_num (pp_qp s) \<and> qi_qp_num (pp_local t) = qp_num (pp_qp t)"
  by (rule pp_peers_paired [OF assms])

text \<open>The witness: a server in one environment and a client in another, each answered by the other.\<close>

definition pp_lab_info :: "u32 \<Rightarrow> gid \<Rightarrow> qp_info" where
  "pp_lab_info q g = \<lparr>qi_qp_num = q, qi_lid = 3, qi_psn = psn_of (2 ^ 24 + 5), qi_padding = 0, qi_gid = g\<rparr>"

lemma pp_lab_pair:
  "\<exists>s es t fs es' fs'.
     pp_setup 32 (pp_defaults\<lparr>is_server := 1\<rparr>) (lab_env 17 5 (qp_info_bytes Little (pp_lab_info 23 6))) [] = (Ret s, es) \<and>
     pp_setup 32 (pp_defaults\<lparr>is_server := 0, server_name := Some ''srv''\<rparr>)
       (lab_env 23 6 (qp_info_bytes Little (pp_lab_info 17 5))) [] = (Ret t, fs) \<and>
     delivers (pp_sock t) fs (pp_sock s) es \<and> delivers (pp_sock s) es (pp_sock t) fs \<and>
     pp_connect (pp_defaults\<lparr>is_server := 1\<rparr>) s (lab_env 17 5 (qp_info_bytes Little (pp_lab_info 23 6))) es = (Ret (), es') \<and>
     pp_connect (pp_defaults\<lparr>is_server := 0, server_name := Some ''srv''\<rparr>) t
       (lab_env 23 6 (qp_info_bytes Little (pp_lab_info 17 5))) fs = (Ret (), fs') \<and>
     qp_num (pp_qp s) = 17 \<and> qp_num (pp_qp t) = 23"
  by (simp add: lab_pp pp_lab_info_def delivers_def)

lemma pp_peers_connect_witness:
  "\<exists>(s :: pp_state) (t :: pp_state) rtr rts rtr' rts'. qp_num (pp_qp s) = 17 \<and> qp_num (pp_qp t) = 23 \<and>
     rc_half rtr rts rtr' rts' (pp_local t) \<and> qi_qp_num (pp_local t) = 23"
proof -
  from pp_lab_pair obtain s es t fs es' fs' where
    A: "pp_setup 32 (pp_defaults\<lparr>is_server := 1\<rparr>) (lab_env 17 5 (qp_info_bytes Little (pp_lab_info 23 6))) [] = (Ret s, es)"
    and B: "pp_setup 32 (pp_defaults\<lparr>is_server := 0, server_name := Some ''srv''\<rparr>)
      (lab_env 23 6 (qp_info_bytes Little (pp_lab_info 17 5))) [] = (Ret t, fs)"
    and D: "delivers (pp_sock t) fs (pp_sock s) es" "delivers (pp_sock s) es (pp_sock t) fs"
    and C: "pp_connect (pp_defaults\<lparr>is_server := 1\<rparr>) s (lab_env 17 5 (qp_info_bytes Little (pp_lab_info 23 6))) es = (Ret (), es')"
      "pp_connect (pp_defaults\<lparr>is_server := 0, server_name := Some ''srv''\<rparr>) t
       (lab_env 23 6 (qp_info_bytes Little (pp_lab_info 17 5))) fs = (Ret (), fs')"
    and q: "qp_num (pp_qp s) = 17" "qp_num (pp_qp t) = 23"
    by blast
  have "env_order (lab_env q g p) = env_order (lab_env q' g' p')" for q g p q' g' p'
    by (simp add: lab_env_simps)
  from pp_peers_connect [OF A B this D C] obtain rtr rts rtr' rts' where
    "rc_half rtr rts rtr' rts' (pp_local t)" "qi_qp_num (pp_local t) = 23"
    using q by auto
  with q show ?thesis by (intro exI [of _ s] exI [of _ t]) auto
qed

text \<open>C30: The exchange of messages is a strict alternation.  A run of the loop that completes has, for
  each iteration in turn and for nothing else, posted one receive and one send with the
  iteration's number and polled two completions; the server polls for the ping before it sends its
  pong, the client has its receive posted before it sends.\<close>

theorem pp_loop_alternates:
  assumes "pp_loop fuel a s v h = (Ret (), es)"
  shows "work es = concat (map (\<lambda>i. if is_server a \<noteq> 0
      then [Posted_recv (of_nat i), Completed, Posted_send (of_nat i), Completed]
      else [Posted_recv (of_nat i), Posted_send (of_nat i), Completed, Completed])
    [0..<nat (num_iters a)])"
  by (rule pp_loop_work) (rule assms)

definition pp_lab_state :: pp_state where
  "pp_lab_state = \<lparr>pp_ctx = 1, pp_pd = 2, pp_cq = 3, pp_qp = \<lparr>qp_ptr = 4, qp_num = 17\<rparr>, pp_buf = 8192,
     pp_mr = \<lparr>mr_ptr = 5, mr_addr = 8192, mr_lkey = 7, mr_rkey = 9\<rparr>, pp_local = pp_lab_info 17 5,
     pp_sock = 3, pp_remote = pp_lab_info 23 6\<rparr>"

lemma pp_loop_alternates_witness:
  "\<exists>es. pp_loop 4 (pp_defaults\<lparr>is_server := 1, num_iters := 2\<rparr>) pp_lab_state (lab_env 17 5 []) [] = (Ret (), es) \<and>
     work es = [Posted_recv 0, Completed, Posted_send 0, Completed,
                Posted_recv 1, Completed, Posted_send 1, Completed]"
proof -
  obtain es where r: "pp_loop 4 (pp_defaults\<lparr>is_server := 1, num_iters := 2\<rparr>) pp_lab_state (lab_env 17 5 []) []
      = (Ret (), es)"
    by (simp add: lab_pp upt_rec)
  show ?thesis using pp_loop_alternates [OF r] r by (simp add: upt_rec)
qed

end
