(* ===== verification/Rdma_Write.thy ===== *)
theory Rdma_Write
  imports Rc_Common
begin

text \<open>
  \<^verbatim>\<open>ch09-rdma-write/rdma_write.c\<close>: the client writes into a buffer of the server, whose address and
  key it got over the side channel, and then notifies it with a message.  \<open>msg_size\<close> of the options
  is the program's \<^verbatim>\<open>buf_size\<close>.
\<close>

section \<open>Queue pair transitions\<close>

definition NOTIFY_MSG :: string where "NOTIFY_MSG = ''WRITE_DONE''"
definition NOTIFY_SIZE :: nat where "NOTIFY_SIZE = 16"

definition rw_init_attr :: "int \<Rightarrow> qp_attr" where
  "rw_init_attr port = zero_qp_attr\<lparr>qa_qp_state := IBV_QPS_INIT, qa_pkey_index := 0,
     qa_port_num := to_u8 port, qa_access_flags := {IBV_ACCESS_REMOTE_WRITE}\<rparr>"

definition rw_modify_qp_to_init :: "ibv_qp \<Rightarrow> int \<Rightarrow> int io" where
  "rw_modify_qp_to_init qp port =
     sys (Vb (Ibv_modify_qp (qp_ptr qp) (rw_init_attr port)
       {IBV_QP_STATE, IBV_QP_PKEY_INDEX, IBV_QP_PORT, IBV_QP_ACCESS_FLAGS}))"

definition rw_rtr_attr :: "int \<Rightarrow> qp_info \<Rightarrow> int \<Rightarrow> qp_attr" where
  "rw_rtr_attr port remote gidx = zero_qp_attr\<lparr>qa_qp_state := IBV_QPS_RTR,
     qa_path_mtu := IBV_MTU_1024, qa_dest_qp_num := qi_qp_num remote,
     qa_rq_psn := qi_psn remote, qa_max_dest_rd_atomic := 0, qa_min_rnr_timer := 12,
     qa_ah_attr := zero_ah\<lparr>ah_is_global := 1, ah_dgid := qi_gid remote,
       ah_sgid_index := to_u8 gidx, ah_hop_limit := 1, ah_dlid := ucast (qi_lid remote),
       ah_sl := 0, ah_src_path_bits := 0, ah_port_num := to_u8 port\<rparr>\<rparr>"

definition rw_modify_qp_to_rtr :: "ibv_qp \<Rightarrow> int \<Rightarrow> qp_info \<Rightarrow> int \<Rightarrow> int io" where
  "rw_modify_qp_to_rtr qp port remote gidx =
     sys (Vb (Ibv_modify_qp (qp_ptr qp) (rw_rtr_attr port remote gidx)
       {IBV_QP_STATE, IBV_QP_AV, IBV_QP_PATH_MTU, IBV_QP_DEST_QPN, IBV_QP_RQ_PSN,
        IBV_QP_MAX_DEST_RD_ATOMIC, IBV_QP_MIN_RNR_TIMER}))"

definition rw_rts_attr :: "u32 \<Rightarrow> qp_attr" where
  "rw_rts_attr local_psn = zero_qp_attr\<lparr>qa_qp_state := IBV_QPS_RTS, qa_sq_psn := local_psn,
     qa_timeout := 14, qa_retry_cnt := 7, qa_rnr_retry := 7, qa_max_rd_atomic := 0\<rparr>"

definition rw_modify_qp_to_rts :: "ibv_qp \<Rightarrow> u32 \<Rightarrow> int io" where
  "rw_modify_qp_to_rts qp local_psn =
     sys (Vb (Ibv_modify_qp (qp_ptr qp) (rw_rts_attr local_psn)
       {IBV_QP_STATE, IBV_QP_SQ_PSN, IBV_QP_TIMEOUT, IBV_QP_RETRY_CNT, IBV_QP_RNR_RETRY,
        IBV_QP_MAX_QP_RD_ATOMIC}))"

interpretation rw: ladder IBV_QPT_RC "qp_ptr qp" "rw_init_attr port" "rw_rtr_attr port remote gidx"
    "rw_rts_attr psn" "rw_modify_qp_to_init qp port" "rw_modify_qp_to_rtr qp port remote gidx"
    "rw_modify_qp_to_rts qp psn" for qp port remote gidx psn
  by unfold_locales
    (auto simp: rw_modify_qp_to_init_def rw_modify_qp_to_rtr_def rw_modify_qp_to_rts_def edge_ok_def
      rw_init_attr_def rw_rtr_attr_def rw_rts_attr_def intro!: exI)

section \<open>Posting\<close>

definition rw_sge :: "ptr \<Rightarrow> u32 \<Rightarrow> ibv_mr \<Rightarrow> ibv_sge" where
  "rw_sge buf len mr = \<lparr>sge_addr = buf, sge_length = len, sge_lkey = mr_lkey mr\<rparr>"

definition rw_post_rdma_write :: "ibv_qp \<Rightarrow> ptr \<Rightarrow> u32 \<Rightarrow> ibv_mr \<Rightarrow> u64 \<Rightarrow> u32 \<Rightarrow> int io" where
  "rw_post_rdma_write qp local_buf len mr remote_addr rkey =
     sys (Vb (Ibv_post_send (qp_ptr qp)
       \<lparr>sw_wr_id = 0, sw_sg_list = [rw_sge local_buf len mr], sw_opcode = IBV_WR_RDMA_WRITE,
        sw_send_flags = {IBV_SEND_SIGNALED}, sw_remote_addr = remote_addr, sw_rkey = rkey, sw_ah = 0,
        sw_remote_qpn = 0, sw_remote_qkey = 0\<rparr>))"

definition rw_post_send :: "ibv_qp \<Rightarrow> ptr \<Rightarrow> u32 \<Rightarrow> ibv_mr \<Rightarrow> int io" where
  "rw_post_send qp buf len mr =
     sys (Vb (Ibv_post_send (qp_ptr qp)
       \<lparr>sw_wr_id = 1, sw_sg_list = [rw_sge buf len mr], sw_opcode = IBV_WR_SEND,
        sw_send_flags = {IBV_SEND_SIGNALED}, sw_remote_addr = 0, sw_rkey = 0, sw_ah = 0,
        sw_remote_qpn = 0, sw_remote_qkey = 0\<rparr>))"

definition rw_post_receive :: "ibv_qp \<Rightarrow> ptr \<Rightarrow> u32 \<Rightarrow> ibv_mr \<Rightarrow> int io" where
  "rw_post_receive qp buf len mr =
     sys (Vb (Ibv_post_recv (qp_ptr qp) \<lparr>rw_wr_id = 2, rw_sg_list = [rw_sge buf len mr]\<rparr>))"

section \<open>Options\<close>

definition rw_defaults :: args where
  "rw_defaults = \<lparr>is_server = - 1, server_name = None, dev_name_opt = None, tcp_port = DEFAULT_PORT,
     num_iters = 0, msg_size = 1024, ib_port = DEFAULT_IB_PORT, gid_index = DEFAULT_GID_INDEX\<rparr>"

definition rw_option :: "args \<Rightarrow> char \<Rightarrow> string \<Rightarrow> args option" where
  "rw_option a c optarg =
     (if c = CHR ''s'' then Some (a\<lparr>is_server := 1\<rparr>)
      else if c = CHR ''c'' then Some (a\<lparr>is_server := 0, server_name := Some optarg\<rparr>)
      else if c = CHR ''d'' then Some (a\<lparr>dev_name_opt := Some optarg\<rparr>)
      else if c = CHR ''p'' then Some (a\<lparr>tcp_port := atoi optarg\<rparr>)
      else if c = CHR ''m'' then Some (a\<lparr>msg_size := atoi optarg\<rparr>)
      else if c = CHR ''g'' then Some (a\<lparr>gid_index := atoi optarg\<rparr>)
      else None)"

section \<open>Main\<close>

record rw_state =
  rw_ctx :: ptr
  rw_pd :: ptr
  rw_cq :: ptr
  rw_qp :: ibv_qp
  rw_data_buf :: ptr
  rw_data_mr :: ibv_mr
  rw_notify_buf :: ptr
  rw_notify_mr :: ibv_mr
  rw_local :: qp_info
  rw_local_mr :: mr_info
  rw_sock :: int
  rw_remote :: qp_info
  rw_remote_mr :: mr_info

definition rw_qp_init_attr :: "ptr \<Rightarrow> qp_init_attr" where
  "rw_qp_init_attr cq =
     \<lparr>qi_send_cq = cq, qi_recv_cq = cq, qi_srq = 0,
      qi_cap = \<lparr>max_send_wr = SQ_DEPTH, max_recv_wr = RQ_DEPTH, max_send_sge = 1, max_recv_sge = 1,
        max_inline_data = 0\<rparr>,
      qi_qp_type = IBV_QPT_RC, qi_sq_sig_all = 0\<rparr>"

text \<open>What the server exposes: the registered data buffer.\<close>

definition rw_mr_info :: "args \<Rightarrow> ibv_mr \<Rightarrow> mr_info" where
  "rw_mr_info a mr =
     \<lparr>mi_addr = mr_addr mr, mi_rkey = mr_rkey mr, mi_length = to_u32 (msg_size a)\<rparr>"

definition rw_resources :: "args \<Rightarrow> rw_state io" where
  "rw_resources a =
     bnd (open_device (dev_name_opt a)) (\<lambda>ctx. seq (CHECK_NULL ctx) (
     bnd (sysp (Vb (Ibv_alloc_pd ctx))) (\<lambda>pd. seq (CHECK_NULL pd) (
     bnd (sysp (Vb (Ibv_create_cq ctx CQ_DEPTH))) (\<lambda>cq. seq (CHECK_NULL cq) (
     bnd (sys_qp (Vb (Ibv_create_qp pd (rw_qp_init_attr cq)))) (\<lambda>qp. seq (CHECK_NULL (qp_ptr qp)) (
     bnd (sysp (Os (Calloc 1 (to_size (msg_size a))))) (\<lambda>data_buf. seq (CHECK_NULL data_buf) (
     bnd (sys_mr (Vb (Ibv_reg_mr pd data_buf (to_size (msg_size a))
       {IBV_ACCESS_LOCAL_WRITE, IBV_ACCESS_REMOTE_WRITE}))) (\<lambda>data_mr.
     seq (CHECK_NULL (mr_ptr data_mr)) (
     bnd (sysp (Os (Calloc 1 NOTIFY_SIZE))) (\<lambda>notify_buf. seq (CHECK_NULL notify_buf) (
     bnd (sys_mr (Vb (Ibv_reg_mr pd notify_buf NOTIFY_SIZE {IBV_ACCESS_LOCAL_WRITE}))) (\<lambda>notify_mr.
     seq (CHECK_NULL (mr_ptr notify_mr)) (
     bnd (get_local_info ctx qp (ib_port a) (gid_index a)) (\<lambda>li. bnd (CHECK_ERRNO_out li) (\<lambda>loc.
     ret \<lparr>rw_ctx = ctx, rw_pd = pd, rw_cq = cq, rw_qp = qp, rw_data_buf = data_buf,
          rw_data_mr = data_mr, rw_notify_buf = notify_buf, rw_notify_mr = notify_mr,
          rw_local = loc, rw_local_mr = rw_mr_info a data_mr, rw_sock = - 1,
          rw_remote = zero_qp_info, rw_remote_mr = zero_mr_info\<rparr>))))))))))))))))))"

definition rw_setup :: "nat \<Rightarrow> args \<Rightarrow> rw_state io" where
  "rw_setup fuel a =
     bnd (rw_resources a) (\<lambda>s.
     bnd (side_channel a) (\<lambda>sockfd.
     bnd (exchange_qp_info fuel sockfd (rw_local s)) (\<lambda>ri. bnd (CHECK_ERRNO_out ri) (\<lambda>remote.
     bnd (exchange_mr_info fuel sockfd (rw_local_mr s)) (\<lambda>rm. bnd (CHECK_ERRNO_out rm) (\<lambda>remote_mr.
     ret (s\<lparr>rw_sock := sockfd, rw_remote := remote, rw_remote_mr := remote_mr\<rparr>)))))))"

definition rw_connect :: "args \<Rightarrow> rw_state \<Rightarrow> unit io" where
  "rw_connect a s =
     climb (rw_modify_qp_to_init (rw_qp s) (ib_port a))
       (rw_modify_qp_to_rtr (rw_qp s) (ib_port a) (rw_remote s) (gid_index a))
       (rw_modify_qp_to_rts (rw_qp s) (qi_psn (rw_local s)))"

definition rw_poll :: "nat \<Rightarrow> rw_state \<Rightarrow> unit io" where
  "rw_poll fuel s =
     bnd (poll_completion fuel (rw_cq s)) (\<lambda>r. bnd (CHECK_ERRNO_out r) (\<lambda>wc. ret ()))"

text \<open>The server waits for the notification and prints what it finds in its buffers.\<close>

definition rw_server :: "nat \<Rightarrow> args \<Rightarrow> rw_state \<Rightarrow> unit io" where
  "rw_server fuel a s =
     seq (load_str (rw_data_buf s) (to_size (msg_size a))) (
     bnd (rw_post_receive (rw_qp s) (rw_notify_buf s) (of_nat NOTIFY_SIZE) (rw_notify_mr s)) (\<lambda>r.
     seq (CHECK_ERRNO r) (
     seq (rw_poll fuel s) (
     seq (load_str (rw_notify_buf s) NOTIFY_SIZE) (
     seq (load_str (rw_data_buf s) (to_size (msg_size a))) (ret ()))))))"

definition rw_greeting :: string where
  "rw_greeting = ''Hello from RDMA Write! This data was written directly '' @
     ''into the server's memory without any CPU involvement '' @ ''on the server side.''"

definition rw_client :: "nat \<Rightarrow> args \<Rightarrow> rw_state \<Rightarrow> unit io" where
  "rw_client fuel a s =
     seq (sysv (Os (Mem_store (rw_data_buf s) (snprintf_bytes (to_size (msg_size a)) rw_greeting)))) (
     bnd (load_str (rw_data_buf s) (to_size (msg_size a))) (\<lambda>str.
     bnd (rw_post_rdma_write (rw_qp s) (rw_data_buf s) (of_nat (length str + 1)) (rw_data_mr s)
       (mi_addr (rw_remote_mr s)) (mi_rkey (rw_remote_mr s))) (\<lambda>r.
     seq (CHECK_ERRNO r) (
     seq (rw_poll fuel s) (
     seq (sysv (Os (Mem_store (rw_notify_buf s) (strncpy_bytes NOTIFY_SIZE NOTIFY_MSG)))) (
     bnd (rw_post_send (rw_qp s) (rw_notify_buf s) (of_nat NOTIFY_SIZE) (rw_notify_mr s)) (\<lambda>r.
     seq (CHECK_ERRNO r) (
     rw_poll fuel s))))))))"

definition rw_transfer :: "nat \<Rightarrow> args \<Rightarrow> rw_state \<Rightarrow> unit io" where
  "rw_transfer fuel a s = (if is_server a \<noteq> 0 then rw_server fuel a s else rw_client fuel a s)"

definition rw_cleanup :: "rw_state \<Rightarrow> unit io" where
  "rw_cleanup s =
     seq (sys (Os (Close (rw_sock s)))) (
     seq (sys (Vb (Ibv_destroy_qp (qp_ptr (rw_qp s))))) (
     seq (sys (Vb (Ibv_dereg_mr (mr_ptr (rw_data_mr s))))) (
     seq (sys (Vb (Ibv_dereg_mr (mr_ptr (rw_notify_mr s))))) (
     seq (sys (Vb (Ibv_destroy_cq (rw_cq s)))) (
     seq (sys (Vb (Ibv_dealloc_pd (rw_pd s)))) (
     seq (sys (Vb (Ibv_close_device (rw_ctx s)))) (
     seq (sysv (Os (Free (rw_data_buf s)))) (
     sysv (Os (Free (rw_notify_buf s)))))))))))"

definition rw_main :: "nat \<Rightarrow> (char \<times> string) list \<Rightarrow> int io" where
  "rw_main fuel opts =
     (case parse_opts rw_option rw_defaults opts of
        None \<Rightarrow> halt EXIT_FAILURE
      | Some a \<Rightarrow>
          if is_server a < 0 then halt EXIT_FAILURE
          else seq seed_prng (
            bnd (rw_setup fuel a) (\<lambda>s.
            seq (rw_connect a s) (
            seq (sync_peer (rw_sock s)) (
            seq (rw_transfer fuel a s) (
            seq (rw_cleanup s) (
            ret 0)))))))"

section \<open>The program keeps to the contract\<close>

definition rw_ledger :: "args \<Rightarrow> qp_state \<Rightarrow> rw_state \<Rightarrow> ledger" where
  "rw_ledger a st s =
     [fd_res (rw_sock s),
      mr_res (rw_notify_mr s) (rw_pd s) (rw_notify_buf s) NOTIFY_SIZE {IBV_ACCESS_LOCAL_WRITE},
      buf_res (rw_notify_buf s) NOTIFY_SIZE,
      mr_res (rw_data_mr s) (rw_pd s) (rw_data_buf s) (to_size (msg_size a))
        {IBV_ACCESS_LOCAL_WRITE, IBV_ACCESS_REMOTE_WRITE},
      buf_res (rw_data_buf s) (to_size (msg_size a)),
      qp_res (qp_ptr (rw_qp s)) (rw_pd s) (rw_cq s) IBV_QPT_RC st,
      cq_res (rw_cq s) (rw_ctx s), pd_res (rw_pd s) (rw_ctx s), ctx_res (rw_ctx s)]"

text \<open>The two buffers and the two regions are different ones.\<close>

definition rw_apart :: "rw_state \<Rightarrow> bool" where
  "rw_apart s \<longleftrightarrow> rw_data_buf s \<noteq> 0 \<and> rw_notify_buf s \<noteq> 0 \<and> rw_notify_buf s \<noteq> rw_data_buf s \<and>
     mr_ptr (rw_notify_mr s) \<noteq> mr_ptr (rw_data_mr s)"

lemma rw_role: "role_ok a \<Longrightarrow> rw_option a c arg = Some a' \<Longrightarrow> role_ok a'"
  by (auto simp: rw_option_def role_ok_def split: if_splits)

lemma rw_args_role: "parse_opts rw_option rw_defaults opts = Some a \<Longrightarrow> role_ok a"
  by (rule parse_opts_role [where one = rw_option and a = rw_defaults, OF rw_role])
    (auto simp: rw_defaults_def role_ok_def)

lemma keeps_rw_setup [obeys_rules]:
  assumes "role_ok a"
    and "\<And>s L. rw_apart s \<Longrightarrow> L = rw_ledger a IBV_QPS_RESET s \<Longrightarrow> Q (Ret s) L"
    and "\<And>n L. Q (Exit n) L" "\<And>L. Q UB L" "\<And>L. Q Hang L"
  shows "keeps v (rw_setup fuel a) [] Q"
  unfolding rw_setup_def rw_resources_def
  using assms(1)
  by (auto intro!: obeys_rules assms(2-) simp: ledger_simps rw_qp_init_attr_def rw_ledger_def rw_apart_def)

lemma keeps_rw_connect [obeys_rules]:
  assumes "Q (Ret ()) (rw_ledger a IBV_QPS_RTS s)" "\<And>n L. Q (Exit n) L"
  shows "keeps v (rw_connect a s) (rw_ledger a IBV_QPS_RESET s) Q"
  unfolding rw_connect_def
  by (rule rw.keeps_climb) (auto simp: assms ledger_simps rw_ledger_def
      intro: assms(1) [unfolded rw_ledger_def])

lemma keeps_rw_poll [obeys_rules]:
  assumes "live L (KCq (rw_cq s))" "Q (Ret ()) L" "\<And>n L. Q (Exit n) L" "\<And>L. Q Hang L"
  shows "keeps v (rw_poll fuel s) L Q"
  unfolding rw_poll_def using assms by (auto intro!: obeys_rules)

lemma rw_ledger_ok [simp]:
  "sge_ok (rw_ledger a st s) {IBV_ACCESS_LOCAL_WRITE} (rw_sge (rw_notify_buf s) (of_nat NOTIFY_SIZE) (rw_notify_mr s))"
  "sge_ok (rw_ledger a st s) {} (rw_sge (rw_notify_buf s) (of_nat NOTIFY_SIZE) (rw_notify_mr s))"
  "qp_entry (rw_ledger a st s) (qp_ptr (rw_qp s)) = Some (IBV_QPT_RC, st)"
  "live (rw_ledger a st s) (KCq (rw_cq s))" "live (rw_ledger a st s) (KFd (rw_sock s))"
  "k \<le> to_size (msg_size a) \<Longrightarrow> mem_ok (rw_ledger a st s) (rw_data_buf s) k"
  "k \<le> NOTIFY_SIZE \<Longrightarrow> mem_ok (rw_ledger a st s) (rw_notify_buf s) k"
  by (auto simp: rw_ledger_def ledger_simps rw_sge_def NOTIFY_SIZE_def)

lemma rw_ledger_str [simp]:
  assumes "n < to_size (msg_size a)"
  shows "sge_ok (rw_ledger a st s) {} (rw_sge (rw_data_buf s) (of_nat (n + 1)) (rw_data_mr s))"
proof -
  have "unat (of_nat (n + 1) :: u32) \<le> n + 1"
    by (simp only: unat_of_nat mod_less_eq_dividend)
  with assms show ?thesis
    by (auto simp: rw_ledger_def ledger_simps rw_sge_def simp del: of_nat_add of_nat_Suc)
qed

lemma keeps_rw_transfer [obeys_rules]:
  assumes "Q (Ret ()) (rw_ledger a IBV_QPS_RTS s)" "\<And>n L. Q (Exit n) L" "\<And>L. Q Hang L" "\<And>L. Q UB L"
  shows "keeps v (rw_transfer fuel a s) (rw_ledger a IBV_QPS_RTS s) Q"
  unfolding rw_transfer_def rw_server_def rw_client_def rw_post_receive_def rw_post_send_def
    rw_post_rdma_write_def
  using assms rw_ledger_str
  by (auto intro!: obeys_rules simp: post_recv_ok_def post_send_ok_def length_snprintf_le)

lemma keeps_rw_cleanup [obeys_rules]:
  assumes "rw_apart s" "Q (Ret ()) []"
  shows "keeps v (rw_cleanup s) (rw_ledger a st s) Q"
  unfolding rw_cleanup_def rw_ledger_def
  using assms by (auto intro!: obeys_rules simp: ledger_simps rw_apart_def)

lemma keeps_rw_main: "keeps v (rw_main fuel opts) [] (\<lambda>r L. r = Ret 0 \<longrightarrow> L = [])"
proof (cases "parse_opts rw_option rw_defaults opts")
  case (Some a)
  with rw_args_role have "role_ok a" by blast
  with Some show ?thesis
    by (auto simp: rw_main_def EXIT_FAILURE_def intro!: obeys_rules)
qed (simp add: rw_main_def EXIT_FAILURE_def)

section \<open>Two peers\<close>

lemma rw_resources_local:
  "yields (rw_resources a) (\<lambda>s. qi_qp_num (rw_local s) = qp_num (rw_qp s) \<and>
     unat (qi_psn (rw_local s)) < 2 ^ 24 \<and> unat (qi_lid (rw_local s)) < 2 ^ 16 \<and>
     rw_local_mr s = rw_mr_info a (rw_data_mr s))"
  unfolding rw_resources_def
  by (rule yields_local_info yields_skip yields_seq yields_ret)+ simp

lemma rw_setup_parts:
  assumes "rw_setup fuel a v h = (Ret s, es)"
  obtains es1 es2 es3 where "es = es1 @ es2 @ es3" "sent fd es1 = []" "rcvd fd es1 = []"
    "exchange_qp_info fuel (rw_sock s) (rw_local s) v (h @ es1) = (Ret (Inr (rw_remote s)), es2)"
    "exchange_mr_info fuel (rw_sock s) (rw_local_mr s) v ((h @ es1) @ es2) = (Ret (Inr (rw_remote_mr s)), es3)"
    "qi_qp_num (rw_local s) = qp_num (rw_qp s)" "unat (qi_psn (rw_local s)) < 2 ^ 24"
    "unat (qi_lid (rw_local s)) < 2 ^ 16" "rw_local_mr s = rw_mr_info a (rw_data_mr s)"
    "modified es = []"
proof -
  from assms obtain s0 e1 e2 e3 e4 sock remote remote_mr where
    r: "rw_resources a v h = (Ret s0, e1)" "side_channel a v (h @ e1) = (Ret sock, e2)"
      "exchange_qp_info fuel sock (rw_local s0) v (h @ e1 @ e2) = (Ret (Inr remote), e3)"
      "exchange_mr_info fuel sock (rw_local_mr s0) v (h @ e1 @ e2 @ e3) = (Ret (Inr remote_mr), e4)"
    and s: "s = s0\<lparr>rw_sock := sock, rw_remote := remote, rw_remote_mr := remote_mr\<rparr>"
      "es = e1 @ e2 @ e3 @ e4"
    by (auto simp: rw_setup_def bnd_eq_Ret)
  have "calls (\<lambda>c. \<not> is_transfer c) (rw_resources a)" "calls (\<lambda>c. \<not> is_transfer c) (side_channel a)"
    by (auto simp: rw_resources_def intro!: only_rules)
  then have "sent fd (e1 @ e2) = []" "rcvd fd (e1 @ e2) = []"
    using r by (simp_all add: transfer_none)
  moreover have "calls (\<lambda>c. \<not> is_modify c) (rw_setup fuel a)"
    by (auto simp: rw_setup_def rw_resources_def intro!: only_rules)
  then have "modified es = []" using assms by (rule modified_none)
  ultimately show ?thesis
    using that [of "e1 @ e2" e3 e4] r s yieldsD [OF rw_resources_local r(1)] by simp
qed

lemma rw_peers_remote:
  assumes A: "rw_setup fuel a v [] = (Ret s, es)" and B: "rw_setup fuel' b v' [] = (Ret t, fs)"
    and ord: "env_order v = env_order v'"
    and tcp: "delivers (rw_sock t) fs (rw_sock s) es"
  shows "rw_remote s = rw_local t \<and> rw_remote_mr s = rw_local_mr t"
proof -
  from A obtain e1 e2 e3 where e: "es = e1 @ e2 @ e3" "rcvd (rw_sock s) e1 = []"
    "exchange_qp_info fuel (rw_sock s) (rw_local s) v ([] @ e1) = (Ret (Inr (rw_remote s)), e2)"
    "exchange_mr_info fuel (rw_sock s) (rw_local_mr s) v (([] @ e1) @ e2) = (Ret (Inr (rw_remote_mr s)), e3)"
    by (rule rw_setup_parts [where fd = "rw_sock s"]) simp
  from B obtain f1 f2 f3 where f: "fs = f1 @ f2 @ f3" "sent (rw_sock t) f1 = []"
    "exchange_qp_info fuel' (rw_sock t) (rw_local t) v' ([] @ f1) = (Ret (Inr (rw_remote t)), f2)"
    "exchange_mr_info fuel' (rw_sock t) (rw_local_mr t) v' (([] @ f1) @ f2) = (Ret (Inr (rw_remote_mr t)), f3)"
    by (rule rw_setup_parts [where fd = "rw_sock t"]) simp
  note qp = e(3) [unfolded exchange_qp_info_def] f(3) [unfolded exchange_qp_info_def]
  note mr = e(4) [unfolded exchange_mr_info_def] f(4) [unfolded exchange_mr_info_def]
  have 1: "rw_remote s = rw_local t"
    by (rule qp_wire.rendezvous(1) [OF qp ord, where zs = e3 and zs' = f3]) (use e(1,2) f(1,2) tcp in simp_all)
  have "rcvd (rw_sock s) (([] @ e1) @ e2) = sent (rw_sock t) (([] @ f1) @ f2)"
    by (rule qp_wire.rendezvous(2) [OF qp ord, where zs = e3 and zs' = f3]) (use e(1,2) f(1,2) tcp in simp_all)
  then have "rw_remote_mr s = rw_local_mr t"
    by (rule mr_wire.rendezvous(1) [OF mr ord, where zs = "[]" and zs' = "[]"]) (use e(1) f(1) tcp in simp)
  with 1 show ?thesis ..
qed

section \<open>The transfer\<close>

lemma work_rw_poll: "rw_poll fuel s v h = (Ret (), es) \<Longrightarrow> work es = [Completed] \<and> rdma oc es = []"
  by (auto simp: rw_poll_def bnd_eq_Ret work_poll_completion rdma_poll_completion)

lemma rw_server_work:
  assumes "rw_server fuel a s v h = (Ret (), es)"
  shows "work es = [Posted_recv 2, Completed]" "rdma IBV_WR_RDMA_WRITE es = []"
  using assms
  by (auto simp: rw_server_def rw_post_receive_def bnd_eq_Ret seq_eq_Ret sys_def work_rw_poll
      load_str_quiet)

lemma rw_client_work:
  assumes "rw_client fuel a s v h = (Ret (), es)"
  obtains len where "work es = [Posted_send 0, Completed, Posted_send 1, Completed]"
    "rdma IBV_WR_RDMA_WRITE es = [(mi_addr (rw_remote_mr s), mi_rkey (rw_remote_mr s),
       unat (of_nat (len + 1) :: u32))]"
    "len < to_size (msg_size a)"
    "own_memory v (rw_data_buf s) \<longrightarrow> len = min (to_size (msg_size a) - 1) (length rw_greeting)"
proof -
  let ?n = "to_size (msg_size a)"
  let ?h = "h @ [(Os (Mem_store (rw_data_buf s) (snprintf_bytes ?n rw_greeting)), RVoid)]"
  from assms obtain str es1 where
    l: "load_str (rw_data_buf s) ?n v ?h = (Ret str, es1)" and
    w: "work es = [Posted_send 0, Completed, Posted_send 1, Completed]"
      "rdma IBV_WR_RDMA_WRITE es = [(mi_addr (rw_remote_mr s), mi_rkey (rw_remote_mr s),
         unat (of_nat (length str + 1) :: u32))]"
    by (auto simp: rw_client_def rw_post_send_def rw_post_rdma_write_def bnd_eq_Ret seq_eq_Ret sys_def
        sysv_def work_rw_poll load_str_quiet sge_bytes_def rw_sge_def)
  have "length str < ?n" using l by (rule load_str_quiet)
  moreover have "length str = min (?n - 1) (length rw_greeting)" if "own_memory v (rw_data_buf s)"
  proof -
    have "no_nul rw_greeting" by (simp add: no_nul_def rw_greeting_def chars_def)
    moreover have "snprintf_bytes ?n rw_greeting \<noteq> []"
      using \<open>length str < ?n\<close> by (simp add: snprintf_bytes_def)
    ultimately show ?thesis
      using load_str_own [OF l that] \<open>length str < ?n\<close> by (simp add: strlen_fit_snprintf)
  qed
  ultimately show ?thesis using that w by blast
qed

lemma rw_peers_mr:
  assumes A: "rw_setup fuel a v [] = (Ret s, es)" and B: "rw_setup fuel' b v' [] = (Ret t, fs)"
    and ord: "env_order v = env_order v'" and tcp: "delivers (rw_sock s) es (rw_sock t) fs"
  shows "mi_addr (rw_remote_mr t) = mr_addr (rw_data_mr s) \<and> mi_rkey (rw_remote_mr t) = mr_rkey (rw_data_mr s)"
proof -
  from A have "rw_local_mr s = rw_mr_info a (rw_data_mr s)" by (rule rw_setup_parts)
  with rw_peers_remote [OF B A ord [symmetric] tcp] show ?thesis by (simp add: rw_mr_info_def)
qed

section \<open>Properties\<close>

lemmas lab_rw = lab_rc rw_main_def rw_option_def rw_defaults_def rw_setup_def rw_resources_def
  rw_connect_def rw_modify_qp_to_init_def rw_modify_qp_to_rtr_def rw_modify_qp_to_rts_def
  rw_transfer_def rw_server_def rw_client_def rw_post_receive_def rw_post_send_def
  rw_post_rdma_write_def rw_poll_def rw_cleanup_def rw_mr_info_def load_str_def

text \<open>C7: The RDMA write program keeps to the verbs contract on every path, in both roles: the write and
  the notification are taken from inside their registered regions even when the buffer's content
  was changed behind the program's back, strings are stored inside their buffers, the queue pair is
  walked along legal edges, and a normal end leaves no resource.\<close>

theorem rw_main_contract:
  assumes "rw_main fuel opts v h = (r, es)"
  shows "clean es \<and> (r = Ret 0 \<longrightarrow> leftover es = [])"
  using keeps_clean [OF keeps_rw_main assms] leftover_either [OF keeps_rw_main assms] by blast

lemma rw_main_contract_witness:
  "\<exists>es. rw_main 64 [(CHR ''s'', []), (CHR ''m'', ''16'')]
      (lab_env 17 5 (qp_info_bytes Little zero_qp_info @ mr_info_bytes Little zero_mr_info)) []
      = (Ret 0, es) \<and> clean es \<and> leftover es = []"
proof -
  obtain es where r: "rw_main 64 [(CHR ''s'', []), (CHR ''m'', ''16'')]
      (lab_env 17 5 (qp_info_bytes Little zero_qp_info @ mr_info_bytes Little zero_mr_info)) []
      = (Ret 0, es)"
    by (simp add: lab_rw to_size_def fit_def NOTIFY_SIZE_def)
  show ?thesis using rw_main_contract [OF r] r by blast
qed

text \<open>C14: The client's RDMA write lands in the server's buffer.  When client and server have set up over
  one connection and the client's buffer is not larger than the server's, the only RDMA write the
  client posts has the address of the server's registered data buffer and its remote key, and all
  its bytes lie within that buffer.\<close>

theorem rw_write_lands:
  assumes "rw_setup fuel a v [] = (Ret s, es)" and "rw_setup fuel' b v' [] = (Ret t, fs)"
    and "env_order v = env_order v'" and "delivers (rw_sock s) es (rw_sock t) fs"
    and "mr_addr (rw_data_mr s) = rw_data_buf s"
    and "to_size (msg_size b) \<le> to_size (msg_size a)"
    and "rw_client fuel'' b t v' h = (Ret (), gs)"
  shows "\<exists>n. rdma IBV_WR_RDMA_WRITE gs = [(rw_data_buf s, mr_rkey (rw_data_mr s), n)] \<and>
    within (rw_data_buf s) (to_size (msg_size a)) (rw_data_buf s) n"
proof -
  from assms(7) obtain len where
    len: "rdma IBV_WR_RDMA_WRITE gs = [(mi_addr (rw_remote_mr t), mi_rkey (rw_remote_mr t),
       unat (of_nat (len + 1) :: u32))]" "len < to_size (msg_size b)"
    by (rule rw_client_work)
  have "unat (of_nat (len + 1) :: u32) \<le> len + 1"
    by (simp only: unat_of_nat mod_less_eq_dividend)
  with len assms(6) rw_peers_mr [OF assms(1-4)] assms(5) show ?thesis
    by (simp del: of_nat_add of_nat_Suc)
qed

definition rw_lab_info :: "u32 \<Rightarrow> gid \<Rightarrow> qp_info" where
  "rw_lab_info q g = \<lparr>qi_qp_num = q, qi_lid = 3, qi_psn = psn_of (2 ^ 24 + 5), qi_padding = 0, qi_gid = g\<rparr>"

definition rw_lab_stream :: "u32 \<Rightarrow> gid \<Rightarrow> bytes" where
  "rw_lab_stream q g = qp_info_bytes Little (rw_lab_info q g) @
     mr_info_bytes Little \<lparr>mi_addr = 28672, mi_rkey = 9, mi_length = 1024\<rparr>"

lemma rw_lab_pair:
  "\<exists>s es t fs gs.
     rw_setup 64 (rw_defaults\<lparr>is_server := 1\<rparr>) (lab_env 17 5 (rw_lab_stream 23 6)) [] = (Ret s, es) \<and>
     rw_setup 64 (rw_defaults\<lparr>is_server := 0, server_name := Some ''srv''\<rparr>) (lab_env 23 6 (rw_lab_stream 17 5)) []
       = (Ret t, fs) \<and>
     delivers (rw_sock s) es (rw_sock t) fs \<and> mr_addr (rw_data_mr s) = rw_data_buf s \<and>
     rw_client 64 (rw_defaults\<lparr>is_server := 0, server_name := Some ''srv''\<rparr>) t
       (lab_env 23 6 (rw_lab_stream 17 5)) [] = (Ret (), gs) \<and> rw_data_buf s = 28672"
  by (simp add: lab_rw rw_lab_info_def rw_lab_stream_def delivers_def to_size_def snprintf_bytes_def
      fit_def rw_greeting_def chars_def to_u32_def)

lemma rw_write_lands_witness:
  "\<exists>(t :: rw_state) gs n. rw_client 64 (rw_defaults\<lparr>is_server := 0, server_name := Some ''srv''\<rparr>) t
       (lab_env 23 6 (rw_lab_stream 17 5)) [] = (Ret (), gs) \<and>
     rdma IBV_WR_RDMA_WRITE gs = [(28672, 9, n)] \<and> n \<le> 1024"
proof -
  from rw_lab_pair obtain s es t fs gs where
    A: "rw_setup 64 (rw_defaults\<lparr>is_server := 1\<rparr>) (lab_env 17 5 (rw_lab_stream 23 6)) [] = (Ret s, es)"
    and B: "rw_setup 64 (rw_defaults\<lparr>is_server := 0, server_name := Some ''srv''\<rparr>)
       (lab_env 23 6 (rw_lab_stream 17 5)) [] = (Ret t, fs)"
    and D: "delivers (rw_sock s) es (rw_sock t) fs" "mr_addr (rw_data_mr s) = rw_data_buf s"
    and C: "rw_client 64 (rw_defaults\<lparr>is_server := 0, server_name := Some ''srv''\<rparr>) t
       (lab_env 23 6 (rw_lab_stream 17 5)) [] = (Ret (), gs)"
    and b: "rw_data_buf s = 28672"
    by blast
  have o: "env_order (lab_env q g p) = env_order (lab_env q' g' p')" for q g p q' g' p'
    by (simp add: lab_env_simps)
  have k: "mr_rkey (rw_data_mr s) = 9"
    using A by (simp add: lab_rw rw_lab_info_def rw_lab_stream_def to_u32_def) auto
  from rw_write_lands [OF A B o D _ C] b k show ?thesis
    using C by (intro exI [of _ t]) (auto simp: rw_defaults_def to_size_def)
qed


definition rw_lab_state :: rw_state where
  "rw_lab_state = \<lparr>rw_ctx = 1, rw_pd = 2, rw_cq = 3, rw_qp = \<lparr>qp_ptr = 4, qp_num = 17\<rparr>,
     rw_data_buf = 8192, rw_data_mr = \<lparr>mr_ptr = 5, mr_addr = 8192, mr_lkey = 7, mr_rkey = 9\<rparr>,
     rw_notify_buf = 12288, rw_notify_mr = \<lparr>mr_ptr = 6, mr_addr = 12288, mr_lkey = 8, mr_rkey = 9\<rparr>,
     rw_local = rw_lab_info 17 5, rw_local_mr = \<lparr>mi_addr = 8192, mi_rkey = 9, mi_length = 1024\<rparr>,
     rw_sock = 3, rw_remote = rw_lab_info 23 6,
     rw_remote_mr = \<lparr>mi_addr = 28672, mi_rkey = 9, mi_length = 32\<rparr>\<rparr>"


text \<open>The client never looks at the length the server advertised.  Its whole run is the same for
  every value of that field, so nothing in it keeps a write within a smaller buffer of the server.\<close>

theorem rw_client_ignores_length:
  "rw_client fuel a (s\<lparr>rw_remote_mr := (rw_remote_mr s)\<lparr>mi_length := n\<rparr>\<rparr>) v h = rw_client fuel a s v h"
  by (simp add: rw_client_def rw_poll_def)

end
