(* ===== verification/Rdma_Read.thy ===== *)
theory Rdma_Read
  imports Rc_Common
begin

text \<open>
  \<^verbatim>\<open>ch09-rdma-read/rdma_read.c\<close>: the server puts a header and a payload into a buffer, the client
  reads the header over RDMA, then as many bytes of payload as the header says.  \<open>msg_size\<close> of the
  options is the program's \<^verbatim>\<open>buf_size\<close>.
\<close>

section \<open>The data header\<close>

definition RR_NOTIFY_SIZE :: nat where "RR_NOTIFY_SIZE = 16"
definition HEADER_MAGIC :: u32 where "HEADER_MAGIC = 0x52444D41"

record data_header =
  hdr_magic :: u32
  hdr_payload_len :: u32
  hdr_sequence :: u64

definition header_bytes :: "byte_order \<Rightarrow> data_header \<Rightarrow> bytes" where
  "header_bytes ord h =
     enc ord 4 (unat (hdr_magic h)) @ enc ord 4 (unat (hdr_payload_len h)) @ enc ord 8 (unat (hdr_sequence h))"

definition header_of :: "byte_order \<Rightarrow> bytes \<Rightarrow> data_header" where
  "header_of ord bs =
     \<lparr>hdr_magic = u32_at ord 0 bs, hdr_payload_len = u32_at ord 4 bs, hdr_sequence = u64_at ord 8 bs\<rparr>"

interpretation header_wire: wire header_bytes header_of 16
  by unfold_locales (simp_all add: header_bytes_def header_of_def u32_at_def u64_at_def)

section \<open>Queue pair transitions\<close>

definition rr_init_attr :: "int \<Rightarrow> qp_attr" where
  "rr_init_attr port = zero_qp_attr\<lparr>qa_qp_state := IBV_QPS_INIT, qa_pkey_index := 0,
     qa_port_num := to_u8 port, qa_access_flags := {IBV_ACCESS_REMOTE_READ}\<rparr>"

definition rr_modify_qp_to_init :: "ibv_qp \<Rightarrow> int \<Rightarrow> int io" where
  "rr_modify_qp_to_init qp port =
     sys (Vb (Ibv_modify_qp (qp_ptr qp) (rr_init_attr port)
       {IBV_QP_STATE, IBV_QP_PKEY_INDEX, IBV_QP_PORT, IBV_QP_ACCESS_FLAGS}))"

definition rr_rtr_attr :: "int \<Rightarrow> qp_info \<Rightarrow> int \<Rightarrow> qp_attr" where
  "rr_rtr_attr port remote gidx = zero_qp_attr\<lparr>qa_qp_state := IBV_QPS_RTR,
     qa_path_mtu := IBV_MTU_1024, qa_dest_qp_num := qi_qp_num remote,
     qa_rq_psn := qi_psn remote, qa_max_dest_rd_atomic := 4, qa_min_rnr_timer := 12,
     qa_ah_attr := zero_ah\<lparr>ah_is_global := 1, ah_dgid := qi_gid remote,
       ah_sgid_index := to_u8 gidx, ah_hop_limit := 1, ah_dlid := ucast (qi_lid remote),
       ah_sl := 0, ah_src_path_bits := 0, ah_port_num := to_u8 port\<rparr>\<rparr>"

definition rr_modify_qp_to_rtr :: "ibv_qp \<Rightarrow> int \<Rightarrow> qp_info \<Rightarrow> int \<Rightarrow> int io" where
  "rr_modify_qp_to_rtr qp port remote gidx =
     sys (Vb (Ibv_modify_qp (qp_ptr qp) (rr_rtr_attr port remote gidx)
       {IBV_QP_STATE, IBV_QP_AV, IBV_QP_PATH_MTU, IBV_QP_DEST_QPN, IBV_QP_RQ_PSN,
        IBV_QP_MAX_DEST_RD_ATOMIC, IBV_QP_MIN_RNR_TIMER}))"

definition rr_rts_attr :: "u32 \<Rightarrow> qp_attr" where
  "rr_rts_attr local_psn = zero_qp_attr\<lparr>qa_qp_state := IBV_QPS_RTS, qa_sq_psn := local_psn,
     qa_timeout := 14, qa_retry_cnt := 7, qa_rnr_retry := 7, qa_max_rd_atomic := 4\<rparr>"

definition rr_modify_qp_to_rts :: "ibv_qp \<Rightarrow> u32 \<Rightarrow> int io" where
  "rr_modify_qp_to_rts qp local_psn =
     sys (Vb (Ibv_modify_qp (qp_ptr qp) (rr_rts_attr local_psn)
       {IBV_QP_STATE, IBV_QP_SQ_PSN, IBV_QP_TIMEOUT, IBV_QP_RETRY_CNT, IBV_QP_RNR_RETRY,
        IBV_QP_MAX_QP_RD_ATOMIC}))"

interpretation rr: ladder IBV_QPT_RC "qp_ptr qp" "rr_init_attr port" "rr_rtr_attr port remote gidx"
    "rr_rts_attr psn" "rr_modify_qp_to_init qp port" "rr_modify_qp_to_rtr qp port remote gidx"
    "rr_modify_qp_to_rts qp psn" for qp port remote gidx psn
  by unfold_locales
    (auto simp: rr_modify_qp_to_init_def rr_modify_qp_to_rtr_def rr_modify_qp_to_rts_def edge_ok_def
      rr_init_attr_def rr_rtr_attr_def rr_rts_attr_def intro!: exI)

section \<open>Posting\<close>

definition rr_sge :: "ptr \<Rightarrow> u32 \<Rightarrow> ibv_mr \<Rightarrow> ibv_sge" where
  "rr_sge buf len mr = \<lparr>sge_addr = buf, sge_length = len, sge_lkey = mr_lkey mr\<rparr>"

definition rr_post_rdma_read :: "ibv_qp \<Rightarrow> ptr \<Rightarrow> u32 \<Rightarrow> ibv_mr \<Rightarrow> u64 \<Rightarrow> u32 \<Rightarrow> u64 \<Rightarrow> int io" where
  "rr_post_rdma_read qp local_buf len mr remote_addr rkey wr_id =
     sys (Vb (Ibv_post_send (qp_ptr qp)
       \<lparr>sw_wr_id = wr_id, sw_sg_list = [rr_sge local_buf len mr], sw_opcode = IBV_WR_RDMA_READ,
        sw_send_flags = {IBV_SEND_SIGNALED}, sw_remote_addr = remote_addr, sw_rkey = rkey, sw_ah = 0,
        sw_remote_qpn = 0, sw_remote_qkey = 0\<rparr>))"

definition rr_post_send :: "ibv_qp \<Rightarrow> ptr \<Rightarrow> u32 \<Rightarrow> ibv_mr \<Rightarrow> int io" where
  "rr_post_send qp buf len mr =
     sys (Vb (Ibv_post_send (qp_ptr qp)
       \<lparr>sw_wr_id = 0, sw_sg_list = [rr_sge buf len mr], sw_opcode = IBV_WR_SEND,
        sw_send_flags = {IBV_SEND_SIGNALED}, sw_remote_addr = 0, sw_rkey = 0, sw_ah = 0,
        sw_remote_qpn = 0, sw_remote_qkey = 0\<rparr>))"

definition rr_post_receive :: "ibv_qp \<Rightarrow> ptr \<Rightarrow> u32 \<Rightarrow> ibv_mr \<Rightarrow> int io" where
  "rr_post_receive qp buf len mr =
     sys (Vb (Ibv_post_recv (qp_ptr qp) \<lparr>rw_wr_id = 0, rw_sg_list = [rr_sge buf len mr]\<rparr>))"

section \<open>Options\<close>

definition rr_defaults :: args where
  "rr_defaults = \<lparr>is_server = - 1, server_name = None, dev_name_opt = None, tcp_port = DEFAULT_PORT,
     num_iters = 0, msg_size = 4096, ib_port = DEFAULT_IB_PORT, gid_index = DEFAULT_GID_INDEX\<rparr>"

definition rr_option :: "args \<Rightarrow> char \<Rightarrow> string \<Rightarrow> args option" where
  "rr_option a c optarg =
     (if c = CHR ''s'' then Some (a\<lparr>is_server := 1\<rparr>)
      else if c = CHR ''c'' then Some (a\<lparr>is_server := 0, server_name := Some optarg\<rparr>)
      else if c = CHR ''d'' then Some (a\<lparr>dev_name_opt := Some optarg\<rparr>)
      else if c = CHR ''p'' then Some (a\<lparr>tcp_port := atoi optarg\<rparr>)
      else if c = CHR ''m'' then Some (a\<lparr>msg_size := atoi optarg\<rparr>)
      else if c = CHR ''g'' then Some (a\<lparr>gid_index := atoi optarg\<rparr>)
      else None)"

section \<open>Main\<close>

record rr_state =
  rr_ctx :: ptr
  rr_pd :: ptr
  rr_cq :: ptr
  rr_qp :: ibv_qp
  rr_data_buf :: ptr
  rr_data_mr :: ibv_mr
  rr_notify_buf :: ptr
  rr_notify_mr :: ibv_mr
  rr_local :: qp_info
  rr_local_mr :: mr_info
  rr_sock :: int
  rr_remote :: qp_info
  rr_remote_mr :: mr_info

definition rr_qp_init_attr :: "ptr \<Rightarrow> qp_init_attr" where
  "rr_qp_init_attr cq =
     \<lparr>qi_send_cq = cq, qi_recv_cq = cq, qi_srq = 0,
      qi_cap = \<lparr>max_send_wr = SQ_DEPTH, max_recv_wr = RQ_DEPTH, max_send_sge = 1, max_recv_sge = 1,
        max_inline_data = 0\<rparr>,
      qi_qp_type = IBV_QPT_RC, qi_sq_sig_all = 0\<rparr>"

text \<open>What the server exposes: the registered data buffer.\<close>

definition rr_mr_info :: "args \<Rightarrow> ibv_mr \<Rightarrow> mr_info" where
  "rr_mr_info a mr =
     \<lparr>mi_addr = mr_addr mr, mi_rkey = mr_rkey mr, mi_length = to_u32 (msg_size a)\<rparr>"

definition rr_resources :: "args \<Rightarrow> rr_state io" where
  "rr_resources a =
     bnd (open_device (dev_name_opt a)) (\<lambda>ctx. seq (CHECK_NULL ctx) (
     bnd (sysp (Vb (Ibv_alloc_pd ctx))) (\<lambda>pd. seq (CHECK_NULL pd) (
     bnd (sysp (Vb (Ibv_create_cq ctx CQ_DEPTH))) (\<lambda>cq. seq (CHECK_NULL cq) (
     bnd (sys_qp (Vb (Ibv_create_qp pd (rr_qp_init_attr cq)))) (\<lambda>qp. seq (CHECK_NULL (qp_ptr qp)) (
     bnd (sysp (Os (Calloc 1 (to_size (msg_size a))))) (\<lambda>data_buf. seq (CHECK_NULL data_buf) (
     bnd (sys_mr (Vb (Ibv_reg_mr pd data_buf (to_size (msg_size a))
       {IBV_ACCESS_LOCAL_WRITE, IBV_ACCESS_REMOTE_READ}))) (\<lambda>data_mr.
     seq (CHECK_NULL (mr_ptr data_mr)) (
     bnd (sysp (Os (Calloc 1 RR_NOTIFY_SIZE))) (\<lambda>notify_buf. seq (CHECK_NULL notify_buf) (
     bnd (sys_mr (Vb (Ibv_reg_mr pd notify_buf RR_NOTIFY_SIZE {IBV_ACCESS_LOCAL_WRITE}))) (\<lambda>notify_mr.
     seq (CHECK_NULL (mr_ptr notify_mr)) (
     bnd (get_local_info ctx qp (ib_port a) (gid_index a)) (\<lambda>li. bnd (CHECK_ERRNO_out li) (\<lambda>loc.
     ret \<lparr>rr_ctx = ctx, rr_pd = pd, rr_cq = cq, rr_qp = qp, rr_data_buf = data_buf,
          rr_data_mr = data_mr, rr_notify_buf = notify_buf, rr_notify_mr = notify_mr,
          rr_local = loc, rr_local_mr = rr_mr_info a data_mr, rr_sock = - 1,
          rr_remote = zero_qp_info, rr_remote_mr = zero_mr_info\<rparr>))))))))))))))))))"

definition rr_setup :: "nat \<Rightarrow> args \<Rightarrow> rr_state io" where
  "rr_setup fuel a =
     bnd (rr_resources a) (\<lambda>s.
     bnd (side_channel a) (\<lambda>sockfd.
     bnd (exchange_qp_info fuel sockfd (rr_local s)) (\<lambda>ri. bnd (CHECK_ERRNO_out ri) (\<lambda>remote.
     bnd (exchange_mr_info fuel sockfd (rr_local_mr s)) (\<lambda>rm. bnd (CHECK_ERRNO_out rm) (\<lambda>remote_mr.
     ret (s\<lparr>rr_sock := sockfd, rr_remote := remote, rr_remote_mr := remote_mr\<rparr>)))))))"

definition rr_connect :: "args \<Rightarrow> rr_state \<Rightarrow> unit io" where
  "rr_connect a s =
     climb (rr_modify_qp_to_init (rr_qp s) (ib_port a))
       (rr_modify_qp_to_rtr (rr_qp s) (ib_port a) (rr_remote s) (gid_index a))
       (rr_modify_qp_to_rts (rr_qp s) (qi_psn (rr_local s)))"

definition rr_poll :: "nat \<Rightarrow> rr_state \<Rightarrow> unit io" where
  "rr_poll fuel s =
     bnd (poll_completion fuel (rr_cq s)) (\<lambda>r. bnd (CHECK_ERRNO_out r) (\<lambda>wc. ret ()))"

definition rr_message :: string where
  "rr_message = ''This data was read from the server's memory '' @
     ''by the client using RDMA Read. The server's '' @ ''CPU did no work for this transfer.''"

definition rr_header :: data_header where
  "rr_header = \<lparr>hdr_magic = HEADER_MAGIC, hdr_payload_len = of_nat (length rr_message + 1), hdr_sequence = 42\<rparr>"

text \<open>The server stores the header field by field, then the payload behind it.\<close>

definition rr_fill :: "args \<Rightarrow> rr_state \<Rightarrow> unit io" where
  "rr_fill a s = bnd get_order (\<lambda>ord.
     seq (sysv (Os (Mem_store (rr_data_buf s) (enc ord 4 (unat (hdr_magic rr_header)))))) (
     seq (sysv (Os (Mem_store (rr_data_buf s + 4) (enc ord 4 (unat (hdr_payload_len rr_header)))))) (
     seq (sysv (Os (Mem_store (rr_data_buf s + 8) (enc ord 8 (unat (hdr_sequence rr_header)))))) (
     sysv (Os (Mem_store (rr_data_buf s + 16) (strncpy_bytes (to_size (msg_size a - 16)) rr_message)))))))"

definition rr_server :: "nat \<Rightarrow> args \<Rightarrow> rr_state \<Rightarrow> unit io" where
  "rr_server fuel a s =
     seq (rr_fill a s) (
     seq (load_str (rr_data_buf s + 16) (to_size (msg_size a - 16))) (
     bnd (rr_post_receive (rr_qp s) (rr_notify_buf s) (of_nat RR_NOTIFY_SIZE) (rr_notify_mr s)) (\<lambda>r.
     seq (CHECK_ERRNO r) (
     rr_poll fuel s))))"

text \<open>Phase 1 of the client: read the header into a local variable and check it.\<close>

definition rr_read_header :: "nat \<Rightarrow> rr_state \<Rightarrow> ptr \<Rightarrow> ibv_mr \<Rightarrow> data_header io" where
  "rr_read_header fuel s local_hdr hdr_mr =
     bnd (rr_post_rdma_read (rr_qp s) local_hdr 16 hdr_mr (mi_addr (rr_remote_mr s))
       (mi_rkey (rr_remote_mr s)) 10) (\<lambda>r.
     seq (CHECK_ERRNO r) (
     seq (rr_poll fuel s) (
     bnd get_order (\<lambda>ord.
     bnd (sys_load local_hdr 16) (\<lambda>d.
     if hdr_magic (header_of ord d) \<noteq> HEADER_MAGIC then halt EXIT_FAILURE
     else ret (header_of ord d))))))"

text \<open>Phase 2: read the payload the header announces, print it, and tell the server.\<close>

definition rr_read_payload :: "nat \<Rightarrow> args \<Rightarrow> rr_state \<Rightarrow> data_header \<Rightarrow> unit io" where
  "rr_read_payload fuel a s hdr =
     seq (sysv (Os (Mem_store (rr_data_buf s) (replicate (to_size (msg_size a)) 0)))) (
     bnd (rr_post_rdma_read (rr_qp s) (rr_data_buf s) (hdr_payload_len hdr) (rr_data_mr s)
       (mi_addr (rr_remote_mr s) + 16) (mi_rkey (rr_remote_mr s)) 11) (\<lambda>r.
     seq (CHECK_ERRNO r) (
     seq (rr_poll fuel s) (
     seq (load_str (rr_data_buf s) (to_size (msg_size a))) (
     seq (sysv (Os (Mem_store (rr_notify_buf s) (strncpy_bytes RR_NOTIFY_SIZE ''READ_DONE'')))) (
     bnd (rr_post_send (rr_qp s) (rr_notify_buf s) (of_nat RR_NOTIFY_SIZE) (rr_notify_mr s)) (\<lambda>r.
     seq (CHECK_ERRNO r) (
     rr_poll fuel s))))))))"

definition rr_client :: "nat \<Rightarrow> args \<Rightarrow> rr_state \<Rightarrow> unit io" where
  "rr_client fuel a s =
     bnd (sysp (Os (Stack_var 16))) (\<lambda>local_hdr.
     bnd (sys_mr (Vb (Ibv_reg_mr (rr_pd s) local_hdr 16 {IBV_ACCESS_LOCAL_WRITE}))) (\<lambda>hdr_mr.
     seq (CHECK_NULL (mr_ptr hdr_mr)) (
     bnd (rr_read_header fuel s local_hdr hdr_mr) (\<lambda>hdr.
     seq (rr_read_payload fuel a s hdr) (
     seq (sys (Vb (Ibv_dereg_mr (mr_ptr hdr_mr)))) (
     sysv (Os (Stack_end local_hdr))))))))"

definition rr_transfer :: "nat \<Rightarrow> args \<Rightarrow> rr_state \<Rightarrow> unit io" where
  "rr_transfer fuel a s = (if is_server a \<noteq> 0 then rr_server fuel a s else rr_client fuel a s)"

definition rr_cleanup :: "rr_state \<Rightarrow> unit io" where
  "rr_cleanup s =
     seq (sys (Os (Close (rr_sock s)))) (
     seq (sys (Vb (Ibv_destroy_qp (qp_ptr (rr_qp s))))) (
     seq (sys (Vb (Ibv_dereg_mr (mr_ptr (rr_data_mr s))))) (
     seq (sys (Vb (Ibv_dereg_mr (mr_ptr (rr_notify_mr s))))) (
     seq (sys (Vb (Ibv_destroy_cq (rr_cq s)))) (
     seq (sys (Vb (Ibv_dealloc_pd (rr_pd s)))) (
     seq (sys (Vb (Ibv_close_device (rr_ctx s)))) (
     seq (sysv (Os (Free (rr_data_buf s)))) (
     sysv (Os (Free (rr_notify_buf s)))))))))))"

definition rr_main :: "nat \<Rightarrow> (char \<times> string) list \<Rightarrow> int io" where
  "rr_main fuel opts =
     (case parse_opts rr_option rr_defaults opts of
        None \<Rightarrow> halt EXIT_FAILURE
      | Some a \<Rightarrow>
          if is_server a < 0 then halt EXIT_FAILURE
          else seq seed_prng (
            bnd (rr_setup fuel a) (\<lambda>s.
            seq (rr_connect a s) (
            seq (sync_peer (rr_sock s)) (
            seq (rr_transfer fuel a s) (
            seq (rr_cleanup s) (
            ret 0)))))))"

section \<open>The program keeps to the contract\<close>

definition rr_ledger :: "args \<Rightarrow> qp_state \<Rightarrow> rr_state \<Rightarrow> ledger" where
  "rr_ledger a st s =
     [fd_res (rr_sock s),
      mr_res (rr_notify_mr s) (rr_pd s) (rr_notify_buf s) RR_NOTIFY_SIZE {IBV_ACCESS_LOCAL_WRITE},
      buf_res (rr_notify_buf s) RR_NOTIFY_SIZE,
      mr_res (rr_data_mr s) (rr_pd s) (rr_data_buf s) (to_size (msg_size a))
        {IBV_ACCESS_LOCAL_WRITE, IBV_ACCESS_REMOTE_READ},
      buf_res (rr_data_buf s) (to_size (msg_size a)),
      qp_res (qp_ptr (rr_qp s)) (rr_pd s) (rr_cq s) IBV_QPT_RC st,
      cq_res (rr_cq s) (rr_ctx s), pd_res (rr_pd s) (rr_ctx s), ctx_res (rr_ctx s)]"

text \<open>The two buffers and the two regions are different ones.\<close>

definition rr_apart :: "args \<Rightarrow> rr_state \<Rightarrow> bool" where
  "rr_apart a s \<longleftrightarrow> rr_data_buf s \<noteq> 0 \<and> rr_notify_buf s \<noteq> 0 \<and> rr_notify_buf s \<noteq> rr_data_buf s \<and>
     mr_ptr (rr_notify_mr s) \<noteq> mr_ptr (rr_data_mr s) \<and>
     unat (rr_data_buf s) + to_size (msg_size a) \<le> 2 ^ 64"

lemma rr_role: "role_ok a \<Longrightarrow> rr_option a c arg = Some a' \<Longrightarrow> role_ok a'"
  by (auto simp: rr_option_def role_ok_def split: if_splits)

lemma rr_args_role: "parse_opts rr_option rr_defaults opts = Some a \<Longrightarrow> role_ok a"
  by (rule parse_opts_role [where one = rr_option and a = rr_defaults, OF rr_role])
    (auto simp: rr_defaults_def role_ok_def)

lemma keeps_rr_setup [obeys_rules]:
  assumes "role_ok a"
    and "\<And>s L. rr_apart a s \<Longrightarrow> L = rr_ledger a IBV_QPS_RESET s \<Longrightarrow> Q (Ret s) L"
    and "\<And>n L. Q (Exit n) L" "\<And>L. Q UB L" "\<And>L. Q Hang L"
  shows "keeps v (rr_setup fuel a) [] Q"
  unfolding rr_setup_def rr_resources_def
  using assms(1)
  by (auto intro!: obeys_rules assms(2-) simp: ledger_simps rr_qp_init_attr_def rr_ledger_def rr_apart_def)

lemma keeps_rr_connect [obeys_rules]:
  assumes "Q (Ret ()) (rr_ledger a IBV_QPS_RTS s)" "\<And>n L. Q (Exit n) L"
  shows "keeps v (rr_connect a s) (rr_ledger a IBV_QPS_RESET s) Q"
  unfolding rr_connect_def
  by (rule rr.keeps_climb) (auto simp: assms ledger_simps rr_ledger_def
      intro: assms(1) [unfolded rr_ledger_def])

lemma keeps_rr_poll [obeys_rules]:
  assumes "live L (KCq (rr_cq s))" "Q (Ret ()) L" "\<And>n L. Q (Exit n) L" "\<And>L. Q Hang L"
  shows "keeps v (rr_poll fuel s) L Q"
  unfolding rr_poll_def using assms by (auto intro!: obeys_rules)

text \<open>Every header the client reads announces a payload of at most \<open>n\<close> bytes.\<close>

definition modest :: "env \<Rightarrow> nat \<Rightarrow> bool" where
  "modest v n \<longleftrightarrow> (\<forall>h p. unat (hdr_payload_len (header_of (env_order v)
     (fit 16 (snd (env_bytes v h (Os (Mem_load p 16))))))) \<le> n)"

lemma rr_ledger_ok [simp]:
  "sge_ok (rr_ledger a st s) {IBV_ACCESS_LOCAL_WRITE} (rr_sge (rr_notify_buf s) (of_nat RR_NOTIFY_SIZE) (rr_notify_mr s))"
  "sge_ok (rr_ledger a st s) {} (rr_sge (rr_notify_buf s) (of_nat RR_NOTIFY_SIZE) (rr_notify_mr s))"
  "qp_entry (rr_ledger a st s) (qp_ptr (rr_qp s)) = Some (IBV_QPT_RC, st)"
  "live (rr_ledger a st s) (KCq (rr_cq s))" "live (rr_ledger a st s) (KFd (rr_sock s))"
  "live (rr_ledger a st s) (KPd (rr_pd s))"
  "k \<le> to_size (msg_size a) \<Longrightarrow> mem_ok (rr_ledger a st s) (rr_data_buf s) k"
  "k \<le> RR_NOTIFY_SIZE \<Longrightarrow> mem_ok (rr_ledger a st s) (rr_notify_buf s) k"
  "unat len \<le> to_size (msg_size a) \<Longrightarrow>
     sge_ok (rr_ledger a st s) {IBV_ACCESS_LOCAL_WRITE} (rr_sge (rr_data_buf s) len (rr_data_mr s))"
  by (auto simp: rr_ledger_def ledger_simps rr_sge_def RR_NOTIFY_SIZE_def)

lemma rr_ledger_fill:
  assumes "rr_apart a s" "16 \<le> to_size (msg_size a)"
  shows "mem_ok (rr_ledger a st s) (rr_data_buf s + 4) 4"
    "mem_ok (rr_ledger a st s) (rr_data_buf s + 8) 8"
    "mem_ok (rr_ledger a st s) (rr_data_buf s + 16) (to_size (msg_size a) - 16)"
proof -
  have b: "mem_ok (rr_ledger a st s) (rr_data_buf s + of_nat i) k"
    if "i + k \<le> to_size (msg_size a)" for i k
    using within_offset [OF _ that, of "rr_data_buf s"] assms(1)
    by (cases "k = 0") (auto simp: rr_ledger_def ledger_simps rr_apart_def)
  show "mem_ok (rr_ledger a st s) (rr_data_buf s + 4) 4" "mem_ok (rr_ledger a st s) (rr_data_buf s + 8) 8"
    "mem_ok (rr_ledger a st s) (rr_data_buf s + 16) (to_size (msg_size a) - 16)"
    using b [of 4 4] b [of 8 8] b [of 16 "to_size (msg_size a) - 16"] assms(2) by simp_all
qed

lemma to_size_minus: "16 \<le> x \<Longrightarrow> x < 2 ^ 64 \<Longrightarrow> to_size (x - 16) = to_size x - 16"
  by (simp add: to_size_def nat_diff_distrib)

lemma keeps_rr_server:
  assumes "rr_apart a s" "16 \<le> msg_size a" "msg_size a < 2 ^ 64"
    and "Q (Ret ()) (rr_ledger a IBV_QPS_RTS s)" "\<And>n L. Q (Exit n) L" "\<And>L. Q Hang L" "\<And>L. Q UB L"
  shows "keeps v (rr_server fuel a s) (rr_ledger a IBV_QPS_RTS s) Q"
proof -
  have n: "16 \<le> to_size (msg_size a)" "to_size (msg_size a - 16) = to_size (msg_size a) - 16"
    using assms(2,3) by (simp_all add: to_size_minus to_size_nonneg)
  show ?thesis
    unfolding rr_server_def rr_fill_def rr_post_receive_def n(2)
    using rr_ledger_fill [OF assms(1) n(1)] n(1)
    by (auto intro!: obeys_rules simp: post_recv_ok_def assms)
qed

text \<open>The ledger while the client holds its local header.\<close>

abbreviation rr_hdr_ledger :: "args \<Rightarrow> rr_state \<Rightarrow> ptr \<Rightarrow> ibv_mr \<Rightarrow> ledger" where
  "rr_hdr_ledger a s p m \<equiv>
     mr_res m (rr_pd s) p 16 {IBV_ACCESS_LOCAL_WRITE}
     # \<lparr>res_key = KStack p, res_needs = [], res_info = Block p 16\<rparr> # rr_ledger a IBV_QPS_RTS s"

lemma keeps_rr_read_header [obeys_rules]:
  assumes "modest v (to_size (msg_size a))"
    and "\<And>hdr. unat (hdr_payload_len hdr) \<le> to_size (msg_size a) \<Longrightarrow> Q (Ret hdr) (rr_hdr_ledger a s p m)"
    and "\<And>n L. Q (Exit n) L" "\<And>L. Q Hang L" "\<And>L. Q UB L"
  shows "keeps v (rr_read_header fuel s p m) (rr_hdr_ledger a s p m) Q"
  unfolding rr_read_header_def rr_post_rdma_read_def
  using assms
  by (auto intro!: obeys_seq obeys_bnd obeys_sys keeps_CHECK_ERRNO keeps_rr_poll obeys_get_order
      obeys_if obeys_sys_load_env
      simp: ledger_simps post_send_ok_def rr_sge_def modest_def EXIT_FAILURE_def)

lemma keeps_rr_read_payload [obeys_rules]:
  assumes "unat (hdr_payload_len hdr) \<le> to_size (msg_size a)"
    and "Q (Ret ()) (rr_hdr_ledger a s p m)" "\<And>n L. Q (Exit n) L" "\<And>L. Q Hang L" "\<And>L. Q UB L"
  shows "keeps v (rr_read_payload fuel a s hdr) (rr_hdr_ledger a s p m) Q"
  unfolding rr_read_payload_def rr_post_rdma_read_def rr_post_send_def
  using assms
  by (auto intro!: obeys_rules simp: ledger_simps post_send_ok_def)

lemma rr_ledger_keys:
  "live (rr_ledger a st s) (KStack p) = False" "needed (rr_ledger a st s) (KStack p) = False"
  "needed (rr_ledger a st s) (KMr p) = False"
  "\<not> live (rr_ledger a st s) k \<Longrightarrow> filter (\<lambda>r. res_key r \<noteq> k) (rr_ledger a st s) = rr_ledger a st s"
  by (auto simp: rr_ledger_def ledger_simps)

lemma rr_ledger_apart:
  "\<forall>r \<in> set (rr_ledger a st s). \<not> clash p n (res_info r) \<Longrightarrow> r \<in> set (rr_ledger a st s) \<Longrightarrow>
   \<not> region_in p n (res_info r)"
  by (auto simp: rr_ledger_def)

lemma keeps_rr_client:
  assumes "modest v (to_size (msg_size a))"
    and "Q (Ret ()) (rr_ledger a IBV_QPS_RTS s)" "\<And>n L. Q (Exit n) L" "\<And>L. Q Hang L" "\<And>L. Q UB L"
  shows "keeps v (rr_client fuel a s) (rr_ledger a IBV_QPS_RTS s) Q"
  unfolding rr_client_def
  using assms
  by (auto intro!: obeys_rules simp: ledger_simps rr_ledger_keys) (use rr_ledger_apart in blast)

lemma keeps_rr_transfer [obeys_rules]:
  assumes "rr_apart a s"
    and "is_server a \<noteq> 0 \<Longrightarrow> 16 \<le> msg_size a \<and> msg_size a < 2 ^ 64"
    and "is_server a = 0 \<Longrightarrow> modest v (to_size (msg_size a))"
    and "Q (Ret ()) (rr_ledger a IBV_QPS_RTS s)" "\<And>n L. Q (Exit n) L" "\<And>L. Q Hang L" "\<And>L. Q UB L"
  shows "keeps v (rr_transfer fuel a s) (rr_ledger a IBV_QPS_RTS s) Q"
  unfolding rr_transfer_def using assms by (auto intro!: keeps_rr_server keeps_rr_client)

lemma keeps_rr_cleanup [obeys_rules]:
  assumes "rr_apart a s" "Q (Ret ()) []"
  shows "keeps v (rr_cleanup s) (rr_ledger a st s) Q"
  unfolding rr_cleanup_def rr_ledger_def
  using assms by (auto intro!: obeys_rules simp: ledger_simps rr_apart_def)

lemma keeps_rr_main:
  assumes "parse_opts rr_option rr_defaults opts = Some a"
    and "if is_server a = 0 then modest v (to_size (msg_size a)) else 16 \<le> msg_size a \<and> msg_size a < 2 ^ 64"
  shows "keeps v (rr_main fuel opts) [] (\<lambda>r L. r = Ret 0 \<longrightarrow> L = [])"
  using assms rr_args_role [OF assms(1)]
  by (auto simp: rr_main_def EXIT_FAILURE_def intro!: obeys_rules split: if_splits)

section \<open>Two peers\<close>

lemma rr_resources_local:
  "yields (rr_resources a) (\<lambda>s. rr_local_mr s = rr_mr_info a (rr_data_mr s))"
  unfolding rr_resources_def
  by (rule yields_local_info yields_skip yields_seq yields_ret)+ simp

lemma rr_setup_parts:
  assumes "rr_setup fuel a v h = (Ret s, es)"
  obtains es1 es2 es3 where "es = es1 @ es2 @ es3" "sent fd es1 = []" "rcvd fd es1 = []"
    "exchange_qp_info fuel (rr_sock s) (rr_local s) v (h @ es1) = (Ret (Inr (rr_remote s)), es2)"
    "exchange_mr_info fuel (rr_sock s) (rr_local_mr s) v ((h @ es1) @ es2) = (Ret (Inr (rr_remote_mr s)), es3)"
    "rr_local_mr s = rr_mr_info a (rr_data_mr s)"
proof -
  from assms obtain s0 e1 e2 e3 e4 sock remote remote_mr where
    r: "rr_resources a v h = (Ret s0, e1)" "side_channel a v (h @ e1) = (Ret sock, e2)"
      "exchange_qp_info fuel sock (rr_local s0) v (h @ e1 @ e2) = (Ret (Inr remote), e3)"
      "exchange_mr_info fuel sock (rr_local_mr s0) v (h @ e1 @ e2 @ e3) = (Ret (Inr remote_mr), e4)"
    and s: "s = s0\<lparr>rr_sock := sock, rr_remote := remote, rr_remote_mr := remote_mr\<rparr>"
      "es = e1 @ e2 @ e3 @ e4"
    by (auto simp: rr_setup_def bnd_eq_Ret)
  have "calls (\<lambda>c. \<not> is_transfer c) (rr_resources a)" "calls (\<lambda>c. \<not> is_transfer c) (side_channel a)"
    by (auto simp: rr_resources_def intro!: only_rules)
  then have "sent fd (e1 @ e2) = []" "rcvd fd (e1 @ e2) = []"
    using r by (simp_all add: transfer_none)
  then show ?thesis
    using that [of "e1 @ e2" e3 e4] r s yieldsD [OF rr_resources_local r(1)] by simp
qed

lemma rr_peers_mr:
  assumes A: "rr_setup fuel a v [] = (Ret s, es)" and B: "rr_setup fuel' b v' [] = (Ret t, fs)"
    and ord: "env_order v = env_order v'" and tcp: "delivers (rr_sock s) es (rr_sock t) fs"
  shows "mi_addr (rr_remote_mr t) = mr_addr (rr_data_mr s) \<and> mi_rkey (rr_remote_mr t) = mr_rkey (rr_data_mr s)"
proof -
  from A obtain e1 e2 e3 where e: "es = e1 @ e2 @ e3" "sent (rr_sock s) e1 = []"
    "exchange_qp_info fuel (rr_sock s) (rr_local s) v ([] @ e1) = (Ret (Inr (rr_remote s)), e2)"
    "exchange_mr_info fuel (rr_sock s) (rr_local_mr s) v (([] @ e1) @ e2) = (Ret (Inr (rr_remote_mr s)), e3)"
    "rr_local_mr s = rr_mr_info a (rr_data_mr s)"
    by (rule rr_setup_parts [where fd = "rr_sock s"]) simp
  from B obtain f1 f2 f3 where f: "fs = f1 @ f2 @ f3" "rcvd (rr_sock t) f1 = []"
    "exchange_qp_info fuel' (rr_sock t) (rr_local t) v' ([] @ f1) = (Ret (Inr (rr_remote t)), f2)"
    "exchange_mr_info fuel' (rr_sock t) (rr_local_mr t) v' (([] @ f1) @ f2) = (Ret (Inr (rr_remote_mr t)), f3)"
    by (rule rr_setup_parts [where fd = "rr_sock t"]) simp
  note qp = f(3) [unfolded exchange_qp_info_def] e(3) [unfolded exchange_qp_info_def]
  note mr = f(4) [unfolded exchange_mr_info_def] e(4) [unfolded exchange_mr_info_def]
  have "rcvd (rr_sock t) (([] @ f1) @ f2) = sent (rr_sock s) (([] @ e1) @ e2)"
    by (rule qp_wire.rendezvous(2) [OF qp ord [symmetric], where zs = f3 and zs' = e3]) (use e(1,2) f(1,2) tcp in simp_all)
  then have "rr_remote_mr t = rr_local_mr s"
    by (rule mr_wire.rendezvous(1) [OF mr ord [symmetric], where zs = "[]" and zs' = "[]"])
      (use e(1) f(1) tcp in simp)
  with e(5) show ?thesis by (simp add: rr_mr_info_def)
qed

section \<open>The two reads\<close>

lemma rr_poll_quiet: "rr_poll fuel s v h = (Ret (), es) \<Longrightarrow> work es = [Completed] \<and> rdma oc es = []"
  by (auto simp: rr_poll_def bnd_eq_Ret work_poll_completion rdma_poll_completion)

lemma sys_load_Ret: "sys_load p n v h = (Ret d, es) \<longleftrightarrow>
   d = fit n (snd (env_bytes v h (Os (Mem_load p n)))) \<and> es = [(Os (Mem_load p n), RBytes (int n) d)]"
  by (auto simp: sys_load_def split: prod.splits)

lemma rr_read_header_work:
  assumes "rr_read_header fuel s p m v h = (Ret hdr, es)"
  obtains d where "work es = [Posted_send 10, Completed]"
    "rdma IBV_WR_RDMA_READ es = [(mi_addr (rr_remote_mr s), mi_rkey (rr_remote_mr s), 16)]"
    "(Os (Mem_load p 16), RBytes 16 d) \<in> set es" "hdr = header_of (env_order v) d"
    "hdr_magic hdr = HEADER_MAGIC"
  using assms
  by (auto simp: rr_read_header_def rr_post_rdma_read_def bnd_eq_Ret seq_eq_Ret sys_def sys_load_Ret
      get_order_def rr_poll_quiet sge_bytes_def rr_sge_def split: if_splits intro: that)

lemma rr_read_payload_work:
  assumes "rr_read_payload fuel a s hdr v h = (Ret (), es)"
  shows "work es = [Posted_send 11, Completed, Posted_send 0, Completed] \<and>
    rdma IBV_WR_RDMA_READ es = [(mi_addr (rr_remote_mr s) + 16, mi_rkey (rr_remote_mr s),
      unat (hdr_payload_len hdr))]"
  using assms
  by (auto simp: rr_read_payload_def rr_post_rdma_read_def rr_post_send_def bnd_eq_Ret seq_eq_Ret sys_def
      sysv_def rr_poll_quiet load_str_quiet sge_bytes_def rr_sge_def)

lemma rr_client_work:
  assumes "rr_client fuel a s v h = (Ret (), es)"
  obtains p d where "(Os (Mem_load p 16), RBytes 16 d) \<in> set es"
    "hdr_magic (header_of (env_order v) d) = HEADER_MAGIC"
    "work es = [Posted_send 10, Completed, Posted_send 11, Completed, Posted_send 0, Completed]"
    "rdma IBV_WR_RDMA_READ es = [(mi_addr (rr_remote_mr s), mi_rkey (rr_remote_mr s), 16),
       (mi_addr (rr_remote_mr s) + 16, mi_rkey (rr_remote_mr s),
        unat (hdr_payload_len (header_of (env_order v) d)))]"
proof -
  from assms obtain p m hdr h1 h2 e1 e2 x1 x2 x3 x4 where
    r: "rr_read_header fuel s p m v h1 = (Ret hdr, e1)" "rr_read_payload fuel a s hdr v h2 = (Ret (), e2)"
    and es: "es = (Os (Stack_var 16), x1) # (Vb (Ibv_reg_mr (rr_pd s) p 16 {IBV_ACCESS_LOCAL_WRITE}), x2)
       # e1 @ e2 @ [(Vb (Ibv_dereg_mr (mr_ptr m)), x3), (Os (Stack_end p), x4)]"
    unfolding rr_client_def bnd_eq_Ret seq_eq_Ret sys_def sysv_def sysp_def sys_mr_def check_Ret
    by auto
  from r(1) obtain d where "work e1 = [Posted_send 10, Completed]"
    "rdma IBV_WR_RDMA_READ e1 = [(mi_addr (rr_remote_mr s), mi_rkey (rr_remote_mr s), 16)]"
    "(Os (Mem_load p 16), RBytes 16 d) \<in> set e1" "hdr = header_of (env_order v) d"
    "hdr_magic hdr = HEADER_MAGIC"
    by (rule rr_read_header_work)
  with rr_read_payload_work [OF r(2)] es show ?thesis
    by (intro that [of p d]) auto
qed

fun is_store :: "call \<Rightarrow> bool" where
  "is_store (Os (Mem_store p bs)) = True"
| "is_store _ = False"

lemma rr_prefix_stores:
  "calls (\<lambda>c. \<not> is_store c) (bnd (rr_setup fuel a) (\<lambda>s. seq (rr_connect a s) (sync_peer (rr_sock s))))"
  by (auto simp: rr_setup_def rr_resources_def rr_connect_def rr_modify_qp_to_init_def
      rr_modify_qp_to_rtr_def rr_modify_qp_to_rts_def sync_peer_def intro!: only_rules)

lemma rr_message_length: "length rr_message + 1 = 123"
  by (simp add: rr_message_def)

section \<open>Properties\<close>

lemmas lab_rr = lab_rc rr_main_def rr_option_def rr_defaults_def rr_setup_def rr_resources_def
  rr_connect_def rr_modify_qp_to_init_def rr_modify_qp_to_rtr_def rr_modify_qp_to_rts_def
  rr_transfer_def rr_server_def rr_client_def rr_fill_def rr_read_header_def rr_read_payload_def
  rr_post_receive_def rr_post_send_def rr_post_rdma_read_def rr_poll_def rr_cleanup_def rr_mr_info_def
  load_str_def




definition rr_lab_state :: rr_state where
  "rr_lab_state = \<lparr>rr_ctx = 1, rr_pd = 2, rr_cq = 3, rr_qp = \<lparr>qp_ptr = 4, qp_num = 17\<rparr>,
     rr_data_buf = 8192, rr_data_mr = \<lparr>mr_ptr = 5, mr_addr = 8192, mr_lkey = 7, mr_rkey = 9\<rparr>,
     rr_notify_buf = 12288, rr_notify_mr = \<lparr>mr_ptr = 6, mr_addr = 12288, mr_lkey = 8, mr_rkey = 9\<rparr>,
     rr_local = zero_qp_info, rr_local_mr = \<lparr>mi_addr = 8192, mi_rkey = 9, mi_length = 4096\<rparr>,
     rr_sock = 3, rr_remote = zero_qp_info,
     rr_remote_mr = \<lparr>mi_addr = 28672, mi_rkey = 9, mi_length = 4096\<rparr>\<rparr>"



text \<open>C18: The client reads metadata first and then exactly the data it announces.  A finished client has
  posted two RDMA reads, each completed before the next work request: the header's 16 bytes at the
  address the server advertised, and, after the magic number was found in what it loaded, as many
  bytes as the loaded header says from right behind it; the notification comes last.\<close>

theorem rr_client_two_phases:
  assumes "rr_client fuel a s v h = (Ret (), es)"
  shows "\<exists>p d. (Os (Mem_load p 16), RBytes 16 d) \<in> set es \<and>
    hdr_magic (header_of (env_order v) d) = HEADER_MAGIC \<and>
    work es = [Posted_send 10, Completed, Posted_send 11, Completed, Posted_send 0, Completed] \<and>
    rdma IBV_WR_RDMA_READ es = [(mi_addr (rr_remote_mr s), mi_rkey (rr_remote_mr s), 16),
      (mi_addr (rr_remote_mr s) + 16, mi_rkey (rr_remote_mr s),
       unat (hdr_payload_len (header_of (env_order v) d)))]"
proof -
  from assms show ?thesis by (rule rr_client_work) (intro exI conjI)
qed

text \<open>A client whose header reads back as the one the server fills in, and the payload as zeros.\<close>

definition rr_lab_env :: env where
  "rr_lab_env = lab_env 17 5 []\<lparr>env_bytes := \<lambda>h c.
     (case c of Os (Mem_load p n) \<Rightarrow>
        (if n = 16 then (16, header_bytes Little rr_header) else (int n, []))
      | _ \<Rightarrow> (0, []))\<rparr>"

lemma rr_lab_client:
  "\<exists>es. rr_client 4 (rr_defaults\<lparr>msg_size := 200\<rparr>) rr_lab_state rr_lab_env [] = (Ret (), es)"
proof -
  have "poll_completion 4 cq rr_lab_env h = (Ret (Inr lab_wc), [(Vb (Ibv_poll_cq cq 1), RWc 1 [lab_wc])])" for cq h
    by (simp add: eval_nat_numeral run_defs rr_lab_env_def lab_env_simps lab_wc_def zero_wc_def)
  moreover have "header_of Little (header_bytes Little rr_header) = rr_header"
    "length (header_bytes Little rr_header) = 16"
    by (simp_all add: header_wire.parse_img header_wire.length_img)
  ultimately show ?thesis
    by (simp add: lab_rr rr_lab_env_def rr_lab_state_def to_size_def fit_def)
      (simp add: rr_header_def)
qed

lemma rr_client_two_phases_witness:
  "\<exists>es. rr_client 4 (rr_defaults\<lparr>msg_size := 200\<rparr>) rr_lab_state rr_lab_env [] = (Ret (), es) \<and>
     hd (rdma IBV_WR_RDMA_READ es) = (28672, 9, 16)"
proof -
  obtain es where r: "rr_client 4 (rr_defaults\<lparr>msg_size := 200\<rparr>) rr_lab_state rr_lab_env [] = (Ret (), es)"
    using rr_lab_client by blast
  from rr_client_two_phases [OF r] r show ?thesis by (auto simp: rr_lab_state_def)
qed


definition rr_lab_stream :: "u32 \<Rightarrow> gid \<Rightarrow> bytes" where
  "rr_lab_stream q g =
     qp_info_bytes Little \<lparr>qi_qp_num = q, qi_lid = 3, qi_psn = psn_of (2 ^ 24 + 5), qi_padding = 0, qi_gid = g\<rparr>
     @ mr_info_bytes Little \<lparr>mi_addr = 28672, mi_rkey = 9, mi_length = 4096\<rparr>"

definition rr_lab_peer :: env where
  "rr_lab_peer = lab_env 23 6 (rr_lab_stream 17 5)\<lparr>env_bytes := \<lambda>h c.
     (case c of Os (Mem_load p n) \<Rightarrow>
        (if n = 16 then (16, header_bytes Little rr_header) else (int n, []))
      | _ \<Rightarrow> lab_read (rr_lab_stream 17 5) h c)\<rparr>"

lemma rr_lab_peer_simps:
  "env_order rr_lab_peer = Little" "env_errno rr_lab_peer h = 0"
  "env_int rr_lab_peer h c = lab_int h c" "env_ptr rr_lab_peer h c = lab_handle h"
  "env_mr rr_lab_peer h c = lab_mr h c" "env_qp rr_lab_peer h c = \<lparr>qp_ptr = lab_handle h, qp_num = 23\<rparr>"
  "env_bytes rr_lab_peer h (Os (Mem_load p n)) =
     (if n = 16 then (16, header_bytes Little rr_header) else (int n, []))"
  "env_bytes rr_lab_peer h (Os (Read fd n)) =
     (int n, take n (drop (length (rcvd fd h)) (rr_lab_stream 17 5)))"
  "env_wc rr_lab_peer h c = (1, [lab_wc])"
  "env_devs rr_lab_peer h = env_devs (lab_env 23 6 []) h"
  "env_addrs rr_lab_peer h c = env_addrs (lab_env 23 6 []) h c"
  "env_port rr_lab_peer h c = env_port (lab_env 23 6 []) h c" "env_gid rr_lab_peer h c = (0, 6)"
  by (simp_all add: rr_lab_peer_def lab_env_def lab_read_def)

lemma rr_lab_peer_loops:
  "poll_completion 64 cq rr_lab_peer h = (Ret (Inr lab_wc), [(Vb (Ibv_poll_cq cq 1), RWc 1 [lab_wc])])"
  "0 < length bs \<Longrightarrow> write_all 64 fd bs rr_lab_peer h = (Ret 0, [(Os (Write fd bs), RInt (int (length bs)))])"
  "0 < n \<Longrightarrow> length (rcvd fd h) + n \<le> 48 \<Longrightarrow> read_all 64 fd n rr_lab_peer h =
     (Ret (Inr (take n (drop (length (rcvd fd h)) (rr_lab_stream 17 5)))),
      [(Os (Read fd n), RBytes (int n) (take n (drop (length (rcvd fd h)) (rr_lab_stream 17 5))))])"
proof -
  obtain k where f: "(64 :: nat) = Suc k" using not0_implies_Suc by fastforce
  show "poll_completion 64 cq rr_lab_peer h = (Ret (Inr lab_wc), [(Vb (Ibv_poll_cq cq 1), RWc 1 [lab_wc])])"
    unfolding f by (simp add: run_defs rr_lab_peer_simps lab_wc_def zero_wc_def)
  show "write_all 64 fd bs rr_lab_peer h = (Ret 0, [(Os (Write fd bs), RInt (int (length bs)))])"
    if "0 < length bs"
    unfolding f using that by (cases bs) (simp_all add: run_defs rr_lab_peer_simps lab_int_def)
  show "read_all 64 fd n rr_lab_peer h =
     (Ret (Inr (take n (drop (length (rcvd fd h)) (rr_lab_stream 17 5)))),
      [(Os (Read fd n), RBytes (int n) (take n (drop (length (rcvd fd h)) (rr_lab_stream 17 5))))])"
    if "0 < n" "length (rcvd fd h) + n \<le> 48"
    unfolding f using that
    by (cases n) (simp_all add: run_defs rr_lab_peer_simps rr_lab_stream_def)
qed

lemma rr_lab_pair:
  "\<exists>s es t fs gs.
     rr_setup 64 (rr_defaults\<lparr>is_server := 1\<rparr>) (lab_env 17 5 (rr_lab_stream 23 6)) [] = (Ret s, es) \<and>
     rr_setup 64 (rr_defaults\<lparr>is_server := 0, server_name := Some ''srv'', msg_size := 200\<rparr>) rr_lab_peer []
       = (Ret t, fs) \<and>
     delivers (rr_sock s) es (rr_sock t) fs \<and> mr_addr (rr_data_mr s) = rr_data_buf s \<and>
     rr_data_buf s = 28672 \<and>
     rr_client 64 (rr_defaults\<lparr>is_server := 0, server_name := Some ''srv'', msg_size := 200\<rparr>) t rr_lab_peer []
       = (Ret (), gs) \<and>
     (\<forall>p d. (Os (Mem_load p 16), RBytes 16 d) \<in> set gs \<longrightarrow> header_of Little d = rr_header)"
proof -
  note wire = header_wire.parse_img [of Little rr_header] header_wire.length_img [of Little rr_header]
  have magic: "hdr_magic rr_header = HEADER_MAGIC" by (simp add: rr_header_def)
  show ?thesis
    by (simp add: lab_rr rr_lab_peer_simps rr_lab_peer_loops rr_lab_stream_def [of 23 6] delivers_def
        to_size_def fit_def wire magic) (simp add: rr_lab_stream_def to_u32_def delivers_def)
qed


end
