(* ===== verification/Ownership.thy ===== *)
theory Ownership
  imports Rc_Common
begin

text \<open>
  Who owns a receive buffer.  A buffer belongs to the network card from the moment a receive request
  with it was accepted until the request's completion was polled; posting it again before that would
  let two messages be written into it.  The monitor \<open>owner\<close> keeps the posted identifiers with their
  buffers.
\<close>

definition rw_addr :: "recv_wr \<Rightarrow> ptr" where
  "rw_addr w = (case rw_sg_list w of [] \<Rightarrow> 0 | g # gs \<Rightarrow> sge_addr g)"

definition owner :: "(u64 \<times> ptr) set \<Rightarrow> event \<Rightarrow> (u64 \<times> ptr) set verdict" where
  "owner S e =
     (case e of
        (Vb (Ibv_post_recv q w), r) \<Rightarrow>
          (if rint r \<noteq> 0 then Live S
           else if rw_addr w \<in> snd ` S then Misuse
           else Live (insert (rw_wr_id w, rw_addr w) S))
      | (Vb (Ibv_poll_cq c k), RWc m ws) \<Rightarrow>
          (if m \<le> 0 then Live S
           else if k < nat m \<or> \<not> distinct (map wc_wr_id ws) \<or> \<not> wc_wr_id ` set ws \<subseteq> fst ` S then Breach
           else Live {x \<in> S. fst x \<notin> wc_wr_id ` set ws})
      | _ \<Rightarrow> Live S)"

lemma owner_simps [simp]:
  "owner S (Vb (Ibv_post_recv q w), RInt rc) =
     (if rc \<noteq> 0 then Live S else if rw_addr w \<in> snd ` S then Misuse
      else Live (insert (rw_wr_id w, rw_addr w) S))"
  "owner S (Vb (Ibv_poll_cq c k), RWc m ws) =
     (if m \<le> 0 then Live S
      else if k < nat m \<or> \<not> distinct (map wc_wr_id ws) \<or> \<not> wc_wr_id ` set ws \<subseteq> fst ` S then Breach
      else Live {x \<in> S. fst x \<notin> wc_wr_id ` set ws})"
  "owner S (Os c', r) = Live S"
  by (simp_all add: owner_def)

text \<open>A poll for one completion takes back the one buffer it reports.\<close>

lemma owner_poll_completion [obeys_rules]:
  assumes "\<And>S'. Q (Ret (Inl (- 1))) S'" "Q Hang S"
    and "\<And>wc b. (wc_wr_id wc, b) \<in> S \<Longrightarrow> Q (Ret (Inr wc)) {x \<in> S. fst x \<noteq> wc_wr_id wc}"
  shows "obeys owner v (poll_completion fuel cq) S Q"
proof (induction fuel)
  case 0
  then show ?case using assms by simp
next
  case (Suc fuel)
  have one: "ws = []" if "length (w # ws) = nat m" "\<not> m < 0" "m \<noteq> 0" "\<not> Suc 0 < nat m" for w ws m
    using that by (cases ws) auto
  show ?case using assms Suc
    by (auto intro!: obeys_bnd obeys_sys_wc split: list.split dest!: one)
qed

lemma owner_load_str [obeys_rules]:
  assumes "Q UB S" "\<And>d. Q (Ret d) S"
  shows "obeys owner v (load_str p n) S Q"
  using assms by (auto simp: load_str_def intro!: obeys_rules)

text \<open>The index of a buffer comes back from its completion as \<^verbatim>\<open>(int)wc.wr_id\<close>.\<close>

definition buf_idx :: "u64 \<Rightarrow> int" where
  "buf_idx wr_id = sint (ucast wr_id :: u32)"

lemma of_nat_small [simp]: "i < 10000 \<Longrightarrow> j < 10000 \<Longrightarrow> (of_nat i :: u64) = of_nat j \<longleftrightarrow> i = j"
  by (simp add: word_of_nat_eq_iff take_bit_nat_eq_self)

lemma buf_idx_small:
  assumes "i < 10000"
  shows "buf_idx (of_nat i) = int i"
proof -
  have "ucast (of_nat i :: u64) = (of_nat i :: u32)" "sint (of_nat i :: u32) = int i"
    using assms by (simp_all add: unsigned_of_nat signed_of_nat take_bit_nat_eq_self
        signed_take_bit_int_eq_self)
  then show ?thesis by (simp add: buf_idx_def)
qed

end
