(* ===== verification/Ud_Send.thy ===== *)
theory Ud_Send
  imports Ownership
begin

text \<open>
  \<^verbatim>\<open>ch09-ud-example/ud_send.c\<close>: a sender addresses datagrams to a receiver's unreliable datagram
  queue pair through an address handle.  \<open>num_iters\<close> of the options is the program's \<^verbatim>\<open>num_msgs\<close>,
  \<open>is_server\<close> its \<^verbatim>\<open>is_receiver\<close>.
\<close>

section \<open>Parameters and the structure on the wire\<close>

definition GRH_SIZE :: nat where "GRH_SIZE = 40"
definition MAX_MSG_SIZE :: nat where "MAX_MSG_SIZE = 256"
definition BUF_SIZE :: nat where "BUF_SIZE = GRH_SIZE + MAX_MSG_SIZE"
definition NUM_RECV_BUFS :: nat where "NUM_RECV_BUFS = 16"
definition DEFAULT_MSGS :: int where "DEFAULT_MSGS = 10"
definition QKEY :: u32 where "QKEY = 0x11111111"

lemmas ud_sizes = GRH_SIZE_def MAX_MSG_SIZE_def BUF_SIZE_def NUM_RECV_BUFS_def

record ud_info =
  ui_qp_num :: u32
  ui_lid :: u32
  ui_gid :: gid

definition zero_ud_info :: ud_info where
  "zero_ud_info = \<lparr>ui_qp_num = 0, ui_lid = 0, ui_gid = 0\<rparr>"

definition ud_info_bytes :: "byte_order \<Rightarrow> ud_info \<Rightarrow> bytes" where
  "ud_info_bytes ord u = enc ord 4 (unat (ui_qp_num u)) @ enc ord 4 (unat (ui_lid u)) @ gid_raw (ui_gid u)"

definition ud_info_of :: "byte_order \<Rightarrow> bytes \<Rightarrow> ud_info" where
  "ud_info_of ord bs = \<lparr>ui_qp_num = u32_at ord 0 bs, ui_lid = u32_at ord 4 bs, ui_gid = gid_at 8 bs\<rparr>"

interpretation ud_wire: wire ud_info_bytes ud_info_of 24
  by unfold_locales (simp_all add: ud_info_bytes_def ud_info_of_def u32_at_def gid_at_def)

section \<open>Queue pair transitions\<close>

definition ud_init_attr :: "int \<Rightarrow> qp_attr" where
  "ud_init_attr port = zero_qp_attr\<lparr>qa_qp_state := IBV_QPS_INIT, qa_pkey_index := 0,
     qa_port_num := to_u8 port, qa_qkey := QKEY\<rparr>"

definition modify_ud_qp_to_init :: "ibv_qp \<Rightarrow> int \<Rightarrow> int io" where
  "modify_ud_qp_to_init qp port =
     sys (Vb (Ibv_modify_qp (qp_ptr qp) (ud_init_attr port)
       {IBV_QP_STATE, IBV_QP_PKEY_INDEX, IBV_QP_PORT, IBV_QP_QKEY}))"

definition modify_ud_qp_to_rtr :: "ibv_qp \<Rightarrow> int io" where
  "modify_ud_qp_to_rtr qp =
     sys (Vb (Ibv_modify_qp (qp_ptr qp) (zero_qp_attr\<lparr>qa_qp_state := IBV_QPS_RTR\<rparr>) {IBV_QP_STATE}))"

definition modify_ud_qp_to_rts :: "ibv_qp \<Rightarrow> int io" where
  "modify_ud_qp_to_rts qp =
     sys (Vb (Ibv_modify_qp (qp_ptr qp) (zero_qp_attr\<lparr>qa_qp_state := IBV_QPS_RTS, qa_sq_psn := 0\<rparr>)
       {IBV_QP_STATE, IBV_QP_SQ_PSN}))"

interpretation ud: ladder IBV_QPT_UD "qp_ptr qp" "ud_init_attr port" "zero_qp_attr\<lparr>qa_qp_state := IBV_QPS_RTR\<rparr>"
    "zero_qp_attr\<lparr>qa_qp_state := IBV_QPS_RTS, qa_sq_psn := 0\<rparr>" "modify_ud_qp_to_init qp port"
    "modify_ud_qp_to_rtr qp" "modify_ud_qp_to_rts qp" for qp port
  by unfold_locales
    (auto simp: modify_ud_qp_to_init_def modify_ud_qp_to_rtr_def modify_ud_qp_to_rts_def edge_ok_def
      ud_init_attr_def intro!: exI)

section \<open>Posting and exchange\<close>

definition post_ud_receive :: "ibv_qp \<Rightarrow> ptr \<Rightarrow> ibv_mr \<Rightarrow> u64 \<Rightarrow> int io" where
  "post_ud_receive qp buf mr wr_id =
     sys (Vb (Ibv_post_recv (qp_ptr qp)
       \<lparr>rw_wr_id = wr_id,
        rw_sg_list = [\<lparr>sge_addr = buf, sge_length = of_nat BUF_SIZE, sge_lkey = mr_lkey mr\<rparr>]\<rparr>))"

definition post_ud_send :: "ibv_qp \<Rightarrow> ptr \<Rightarrow> u32 \<Rightarrow> ibv_mr \<Rightarrow> ptr \<Rightarrow> u32 \<Rightarrow> u64 \<Rightarrow> int io" where
  "post_ud_send qp buf len mr ah remote_qpn wr_id =
     sys (Vb (Ibv_post_send (qp_ptr qp)
       \<lparr>sw_wr_id = wr_id, sw_sg_list = [\<lparr>sge_addr = buf, sge_length = len, sge_lkey = mr_lkey mr\<rparr>],
        sw_opcode = IBV_WR_SEND, sw_send_flags = {IBV_SEND_SIGNALED}, sw_remote_addr = 0, sw_rkey = 0,
        sw_ah = ah, sw_remote_qpn = remote_qpn, sw_remote_qkey = QKEY\<rparr>))"

text \<open>One write and one read: unlike the common exchanges this one does not loop.\<close>

definition exchange_ud_info :: "int \<Rightarrow> ud_info \<Rightarrow> (int + ud_info) io" where
  "exchange_ud_info sockfd loc =
     bnd get_order (\<lambda>ord.
     bnd (sys (Os (Write sockfd (ud_info_bytes ord loc)))) (\<lambda>w.
       if w \<noteq> 24 then ret (Inl (- 1))
       else bnd (sys_bytes (Os (Read sockfd 24))) (\<lambda>(n, d).
         if n \<noteq> 24 then ret (Inl (- 1)) else ret (Inr (ud_info_of ord d)))))"

section \<open>Options\<close>

definition ud_defaults :: args where
  "ud_defaults = \<lparr>is_server = - 1, server_name = None, dev_name_opt = None, tcp_port = DEFAULT_PORT,
     num_iters = DEFAULT_MSGS, msg_size = 0, ib_port = DEFAULT_IB_PORT, gid_index = DEFAULT_GID_INDEX\<rparr>"

definition ud_option :: "args \<Rightarrow> char \<Rightarrow> string \<Rightarrow> args option" where
  "ud_option a c optarg =
     (if c = CHR ''s'' then Some (a\<lparr>is_server := 1\<rparr>)
      else if c = CHR ''c'' then Some (a\<lparr>is_server := 0, server_name := Some optarg\<rparr>)
      else if c = CHR ''d'' then Some (a\<lparr>dev_name_opt := Some optarg\<rparr>)
      else if c = CHR ''p'' then Some (a\<lparr>tcp_port := atoi optarg\<rparr>)
      else if c = CHR ''n'' then Some (a\<lparr>num_iters := atoi optarg\<rparr>)
      else if c = CHR ''g'' then Some (a\<lparr>gid_index := atoi optarg\<rparr>)
      else None)"

section \<open>Main\<close>

record ud_state =
  ud_ctx :: ptr
  ud_pd :: ptr
  ud_cq :: ptr
  ud_qp :: ibv_qp
  ud_send_buf :: ptr
  ud_send_mr :: ibv_mr
  ud_recv_bufs :: "ptr list"
  ud_recv_pool :: ptr
  ud_recv_mr :: ibv_mr
  ud_local :: ud_info
  ud_sock :: int
  ud_remote :: ud_info

definition ud_qp_init_attr :: "ptr \<Rightarrow> qp_init_attr" where
  "ud_qp_init_attr cq =
     \<lparr>qi_send_cq = cq, qi_recv_cq = cq, qi_srq = 0,
      qi_cap = \<lparr>max_send_wr = SQ_DEPTH, max_recv_wr = int NUM_RECV_BUFS + 4, max_send_sge = 1,
        max_recv_sge = 1, max_inline_data = 0\<rparr>,
      qi_qp_type = IBV_QPT_UD, qi_sq_sig_all = 0\<rparr>"

text \<open>
  The receive buffers are first allocated one by one, then a contiguous pool is registered, the
  single buffers are freed and the array is pointed into the pool.
\<close>

definition ud_pool_slots :: "ptr \<Rightarrow> ptr list" where
  "ud_pool_slots pool = map (\<lambda>i. pool + of_nat (i * BUF_SIZE)) [0..<NUM_RECV_BUFS]"

definition ud_resources :: "args \<Rightarrow> ud_state io" where
  "ud_resources a =
     bnd (open_device (dev_name_opt a)) (\<lambda>ctx. seq (CHECK_NULL ctx) (
     bnd (sysp (Vb (Ibv_alloc_pd ctx))) (\<lambda>pd. seq (CHECK_NULL pd) (
     bnd (sysp (Vb (Ibv_create_cq ctx CQ_DEPTH))) (\<lambda>cq. seq (CHECK_NULL cq) (
     bnd (sys_qp (Vb (Ibv_create_qp pd (ud_qp_init_attr cq)))) (\<lambda>qp. seq (CHECK_NULL (qp_ptr qp)) (
     bnd (sysp (Os (Calloc 1 MAX_MSG_SIZE))) (\<lambda>send_buf. seq (CHECK_NULL send_buf) (
     bnd (sys_mr (Vb (Ibv_reg_mr pd send_buf MAX_MSG_SIZE {IBV_ACCESS_LOCAL_WRITE}))) (\<lambda>send_mr.
     seq (CHECK_NULL (mr_ptr send_mr)) (
     bnd (alloc_bufs BUF_SIZE NUM_RECV_BUFS) (\<lambda>bufs.
     bnd (sysp (Os (Calloc NUM_RECV_BUFS BUF_SIZE))) (\<lambda>pool. seq (CHECK_NULL pool) (
     bnd (sys_mr (Vb (Ibv_reg_mr pd pool (NUM_RECV_BUFS * BUF_SIZE) {IBV_ACCESS_LOCAL_WRITE}))) (\<lambda>recv_mr.
     seq (CHECK_NULL (mr_ptr recv_mr)) (
     seq (free_bufs bufs) (
     ret \<lparr>ud_ctx = ctx, ud_pd = pd, ud_cq = cq, ud_qp = qp, ud_send_buf = send_buf,
          ud_send_mr = send_mr, ud_recv_bufs = ud_pool_slots pool, ud_recv_pool = pool,
          ud_recv_mr = recv_mr, ud_local = zero_ud_info, ud_sock = - 1,
          ud_remote = zero_ud_info\<rparr>))))))))))))))))))"

definition ud_connect :: "args \<Rightarrow> ud_state \<Rightarrow> unit io" where
  "ud_connect a s =
     climb (modify_ud_qp_to_init (ud_qp s) (ib_port a)) (modify_ud_qp_to_rtr (ud_qp s))
       (modify_ud_qp_to_rts (ud_qp s))"

definition ud_local_info :: "args \<Rightarrow> ud_state \<Rightarrow> ud_info io" where
  "ud_local_info a s =
     bnd (sys_port (Vb (Ibv_query_port (ud_ctx s) (to_u8 (ib_port a))))) (\<lambda>(r, port_attr).
     seq (CHECK_ERRNO r) (
     bnd (sys_gid (Vb (Ibv_query_gid (ud_ctx s) (to_u8 (ib_port a)) (gid_index a)))) (\<lambda>(r, gid).
     seq (CHECK_ERRNO r) (
     ret \<lparr>ui_qp_num = qp_num (ud_qp s), ui_lid = ucast (pa_lid port_attr), ui_gid = gid\<rparr>))))"

definition ud_setup :: "args \<Rightarrow> ud_state io" where
  "ud_setup a =
     bnd (ud_resources a) (\<lambda>s.
     seq (ud_connect a s) (
     bnd (ud_local_info a s) (\<lambda>loc.
     bnd (side_channel a) (\<lambda>sockfd.
     bnd (exchange_ud_info sockfd loc) (\<lambda>ri. bnd (CHECK_ERRNO_out ri) (\<lambda>remote.
     ret (s\<lparr>ud_local := loc, ud_sock := sockfd, ud_remote := remote\<rparr>)))))))"

text \<open>
  The receiver: \<open>buf_idx\<close> is the completion's identifier converted to \<^verbatim>\<open>int\<close> and indexes the array of
  buffers; the message printed starts behind the GRH and is looked for a NUL to the pool's end.
\<close>

definition ud_prepost :: "ud_state \<Rightarrow> unit io" where
  "ud_prepost s =
     for_each [0..<NUM_RECV_BUFS] (\<lambda>i.
       bnd (post_ud_receive (ud_qp s) (ud_recv_bufs s ! i) (ud_recv_mr s) (of_nat i)) (\<lambda>r.
       CHECK_ERRNO r))"

definition ud_receive_one :: "nat \<Rightarrow> ud_state \<Rightarrow> unit io" where
  "ud_receive_one fuel s =
     bnd (poll_completion fuel (ud_cq s)) (\<lambda>r. bnd (CHECK_ERRNO_out r) (\<lambda>wc.
       let i = buf_idx (wc_wr_id wc) in
       if i < 0 \<or> int NUM_RECV_BUFS \<le> i then undef
       else seq (load_str (ud_recv_bufs s ! nat i + of_nat GRH_SIZE)
           ((NUM_RECV_BUFS - nat i) * BUF_SIZE - GRH_SIZE)) (
         bnd (post_ud_receive (ud_qp s) (ud_recv_bufs s ! nat i) (ud_recv_mr s) (word_of_int i)) (\<lambda>r.
         CHECK_ERRNO r))))"

definition ud_receiver :: "nat \<Rightarrow> args \<Rightarrow> ud_state \<Rightarrow> unit io" where
  "ud_receiver fuel a s =
     seq (ud_prepost s) (for_each [0..<nat (num_iters a)] (\<lambda>i. ud_receive_one fuel s))"

definition ud_ah_attr :: "args \<Rightarrow> ud_state \<Rightarrow> ah_attr" where
  "ud_ah_attr a s = zero_ah\<lparr>ah_is_global := 1, ah_dgid := ui_gid (ud_remote s),
     ah_sgid_index := to_u8 (gid_index a), ah_hop_limit := 1, ah_dlid := ucast (ui_lid (ud_remote s)),
     ah_sl := 0, ah_src_path_bits := 0, ah_port_num := to_u8 (ib_port a)\<rparr>"

definition ud_text :: "nat \<Rightarrow> string" where
  "ud_text i = ''UD datagram #'' @ fmt_d (int i) @ '' from sender''"

definition ud_send_one :: "nat \<Rightarrow> ud_state \<Rightarrow> ptr \<Rightarrow> nat \<Rightarrow> unit io" where
  "ud_send_one fuel s ah i =
     seq (sysv (Os (Mem_store (ud_send_buf s) (snprintf_bytes MAX_MSG_SIZE (ud_text i))))) (
     bnd (load_str (ud_send_buf s) MAX_MSG_SIZE) (\<lambda>str.
     bnd (post_ud_send (ud_qp s) (ud_send_buf s) (of_nat (length str + 1)) (ud_send_mr s) ah
       (ui_qp_num (ud_remote s)) (of_nat i)) (\<lambda>r.
     seq (CHECK_ERRNO r) (
     bnd (poll_completion fuel (ud_cq s)) (\<lambda>r. bnd (CHECK_ERRNO_out r) (\<lambda>wc.
     seq (load_str (ud_send_buf s) MAX_MSG_SIZE) (ret ())))))))"

definition ud_sender :: "nat \<Rightarrow> args \<Rightarrow> ud_state \<Rightarrow> unit io" where
  "ud_sender fuel a s =
     bnd (sysp (Vb (Ibv_create_ah (ud_pd s) (ud_ah_attr a s)))) (\<lambda>ah. seq (CHECK_NULL ah) (
     seq (for_each [0..<nat (num_iters a)] (\<lambda>i. ud_send_one fuel s ah i)) (
     seq (sys (Vb (Ibv_destroy_ah ah))) (ret ()))))"

definition ud_transfer :: "nat \<Rightarrow> args \<Rightarrow> ud_state \<Rightarrow> unit io" where
  "ud_transfer fuel a s = (if is_server a \<noteq> 0 then ud_receiver fuel a s else ud_sender fuel a s)"

definition ud_cleanup :: "ud_state \<Rightarrow> unit io" where
  "ud_cleanup s =
     seq (sys (Os (Close (ud_sock s)))) (
     seq (sys (Vb (Ibv_destroy_qp (qp_ptr (ud_qp s))))) (
     seq (sys (Vb (Ibv_dereg_mr (mr_ptr (ud_send_mr s))))) (
     seq (sys (Vb (Ibv_dereg_mr (mr_ptr (ud_recv_mr s))))) (
     seq (sys (Vb (Ibv_destroy_cq (ud_cq s)))) (
     seq (sys (Vb (Ibv_dealloc_pd (ud_pd s)))) (
     seq (sys (Vb (Ibv_close_device (ud_ctx s)))) (
     seq (sysv (Os (Free (ud_send_buf s)))) (
     sysv (Os (Free (ud_recv_pool s)))))))))))"

definition ud_main :: "nat \<Rightarrow> (char \<times> string) list \<Rightarrow> int io" where
  "ud_main fuel opts =
     (case parse_opts ud_option ud_defaults opts of
        None \<Rightarrow> halt EXIT_FAILURE
      | Some a \<Rightarrow>
          if is_server a < 0 then halt EXIT_FAILURE
          else bnd (ud_setup a) (\<lambda>s.
            seq (sync_peer (ud_sock s)) (
            seq (ud_transfer fuel a s) (
            seq (ud_cleanup s) (
            ret 0)))))"

section \<open>The program keeps to the contract\<close>

definition ud_res_ledger :: "qp_state \<Rightarrow> ud_state \<Rightarrow> ledger" where
  "ud_res_ledger st s =
     [mr_res (ud_recv_mr s) (ud_pd s) (ud_recv_pool s) (NUM_RECV_BUFS * BUF_SIZE) {IBV_ACCESS_LOCAL_WRITE},
      buf_res (ud_recv_pool s) (NUM_RECV_BUFS * BUF_SIZE),
      mr_res (ud_send_mr s) (ud_pd s) (ud_send_buf s) MAX_MSG_SIZE {IBV_ACCESS_LOCAL_WRITE},
      buf_res (ud_send_buf s) MAX_MSG_SIZE,
      qp_res (qp_ptr (ud_qp s)) (ud_pd s) (ud_cq s) IBV_QPT_UD st,
      cq_res (ud_cq s) (ud_ctx s), pd_res (ud_pd s) (ud_ctx s), ctx_res (ud_ctx s)]"

abbreviation ud_ledger :: "ud_state \<Rightarrow> ledger" where
  "ud_ledger s \<equiv> fd_res (ud_sock s) # ud_res_ledger IBV_QPS_RTS s"

definition ud_apart :: "ud_state \<Rightarrow> bool" where
  "ud_apart s \<longleftrightarrow> ud_send_buf s \<noteq> 0 \<and> ud_recv_pool s \<noteq> 0 \<and> ud_send_buf s \<noteq> ud_recv_pool s \<and>
     mr_ptr (ud_send_mr s) \<noteq> mr_ptr (ud_recv_mr s) \<and>
     unat (ud_recv_pool s) + NUM_RECV_BUFS * BUF_SIZE \<le> 2 ^ 64 \<and>
     ud_recv_bufs s = ud_pool_slots (ud_recv_pool s)"

lemma ud_role: "role_ok a \<Longrightarrow> ud_option a c arg = Some a' \<Longrightarrow> role_ok a'"
  by (auto simp: ud_option_def role_ok_def split: if_splits)

lemma ud_args_role: "parse_opts ud_option ud_defaults opts = Some a \<Longrightarrow> role_ok a"
  by (rule parse_opts_role [where one = ud_option and a = ud_defaults, OF ud_role])
    (auto simp: ud_defaults_def role_ok_def)

lemma set_bufs: "set (bufs n ps) = (\<lambda>p. buf_res p n) ` set ps"
  by (simp add: bufs_def)

text \<open>Freeing the single buffers leaves the pool and everything older.\<close>

lemma keeps_free_singles:
  assumes new: "new_bufs BUF_SIZE ps L" and wf: "\<forall>p. \<not> needed L (KBuf p)"
    and blocks: "\<forall>r \<in> set L. \<forall>a n k A. res_info r = Region a n k A \<longrightarrow> (\<exists>r' \<in> set L. \<exists>m. res_info r' = Block a m)"
    and pool: "\<not> live (bufs BUF_SIZE ps @ L) (KBuf pool)"
      "\<forall>r \<in> set (bufs BUF_SIZE ps @ L). \<not> clash pool n (res_info r)"
    and fin: "Q (Ret ()) (mr_res m pd pool n A # buf_res pool n # L)"
  shows "keeps v (free_bufs ps) (mr_res m pd pool n A # buf_res pool n # bufs BUF_SIZE ps @ L) Q"
proof (rule keeps_free_bufs)
  let ?K = "mr_res m pd pool n A # buf_res pool n # bufs BUF_SIZE ps @ L"
  show "distinct ps" "0 \<notin> set ps" using new by (auto simp: new_bufs_def)
  have ne: "pool \<noteq> p" if "p \<in> set ps" for p using pool(1) that by auto
  have size: "block_size (bufs BUF_SIZE ps @ L) (KBuf p) = BUF_SIZE" if "p \<in> set ps" for p
  proof -
    have "block_size (map (\<lambda>p. buf_res p BUF_SIZE) qs @ L) (KBuf p) = BUF_SIZE" if "p \<in> set qs" for qs
      using that by (induction qs) (auto simp: ledger_simps)
    with that show ?thesis by (simp add: bufs_def)
  qed
  show "live ?K (KBuf p) \<and> \<not> needed ?K (KBuf p) \<and>
      (\<forall>r \<in> set ?K. \<not> region_in p (block_size ?K (KBuf p)) (res_info r))" if p: "p \<in> set ps" for p
  proof -
    have "buf_res p BUF_SIZE \<in> set (bufs BUF_SIZE ps @ L)"
      using p by (simp add: bufs_def)
    with pool(2) have "\<not> clash pool n (res_info (buf_res p BUF_SIZE))" by blast
    then have "\<not> region_in p BUF_SIZE (Region pool n (mr_lkey m) A)" by simp
    moreover have "\<not> region_in p BUF_SIZE (res_info r)" if "r \<in> set L" for r
    proof (cases "res_info r")
      case (Region a k key A')
      with blocks that obtain r' k' where "r' \<in> set L" "res_info r' = Block a k'" by blast
      with new p Region show ?thesis by (fastforce simp: new_bufs_def)
    qed auto
    ultimately show ?thesis
      using p wf ne [OF p] size [OF p] by (auto simp: ledger_simps set_bufs)
  qed
  have "filter (\<lambda>r. res_key r \<notin> KBuf ` set ps) L = L"
    using new by (auto simp: new_bufs_def live_def filter_id_conv)
  then have "filter (\<lambda>r. res_key r \<notin> KBuf ` set ps) ?K = mr_res m pd pool n A # buf_res pool n # L"
    using ne by (auto simp: set_bufs filter_empty_conv)
  with fin show "Q (Ret ()) (filter (\<lambda>r. res_key r \<notin> KBuf ` set ps) ?K)" by simp
qed

lemma keeps_ud_resources [obeys_rules]:
  assumes "\<And>s L. ud_apart s \<Longrightarrow> L = ud_res_ledger IBV_QPS_RESET s \<Longrightarrow> Q (Ret s) L"
    and "\<And>n L. Q (Exit n) L"
  shows "keeps v (ud_resources a) [] Q"
  unfolding ud_resources_def
  by (auto intro!: obeys_rules keeps_free_singles assms
      simp: ledger_simps ud_qp_init_attr_def ud_res_ledger_def ud_apart_def new_bufs_def)

lemma keeps_ud_connect [obeys_rules]:
  assumes "Q (Ret ()) (ud_res_ledger IBV_QPS_RTS s)" "\<And>n L. Q (Exit n) L"
  shows "keeps v (ud_connect a s) (ud_res_ledger IBV_QPS_RESET s) Q"
  unfolding ud_connect_def
  by (rule ud.keeps_climb) (auto simp: assms ledger_simps ud_res_ledger_def
      intro: assms(1) [unfolded ud_res_ledger_def])

lemma keeps_ud_local_info [obeys_rules]:
  assumes "live L (KCtx (ud_ctx s))" "\<And>n L. Q (Exit n) L"
    and "\<And>u. ui_qp_num u = qp_num (ud_qp s) \<Longrightarrow> Q (Ret u) L"
  shows "keeps v (ud_local_info a s) L Q"
  unfolding ud_local_info_def using assms by (auto intro!: obeys_rules)

lemma keeps_exchange_ud_info [obeys_rules]:
  assumes "live L (KFd fd)" "\<And>y. Q (Ret (Inr y)) L" "Q (Ret (Inl (- 1))) L"
  shows "keeps v (exchange_ud_info fd u) L Q"
  unfolding exchange_ud_info_def using assms by (auto intro!: obeys_rules)

lemma ud_res_ledger_same [simp]:
  "ud_res_ledger st (s\<lparr>ud_local := u, ud_sock := fd, ud_remote := w\<rparr>) = ud_res_ledger st s"
  "ud_apart (s\<lparr>ud_local := u, ud_sock := fd, ud_remote := w\<rparr>) = ud_apart s"
  by (simp_all add: ud_res_ledger_def ud_apart_def)

lemma ud_res_ledger_ok [simp]:
  "wf_ledger (ud_res_ledger st s)" "live (ud_res_ledger st s) (KCtx (ud_ctx s))"
  "live (ud_res_ledger st s) (KPd (ud_pd s))" "live (ud_res_ledger st s) (KCq (ud_cq s))"
  "\<not> live (ud_res_ledger st s) (KFd fd)" "\<not> live (ud_res_ledger st s) (KAh ah)"
  "\<not> needed (ud_res_ledger st s) (KFd fd)" "\<not> needed (ud_res_ledger st s) (KAh ah)"
  "qp_entry (ud_res_ledger st s) (qp_ptr (ud_qp s)) = Some (IBV_QPT_UD, st)"
  by (simp_all add: ud_res_ledger_def ledger_simps)

lemma keeps_ud_setup [obeys_rules]:
  assumes "role_ok a"
    and "\<And>s L. ud_apart s \<Longrightarrow> L = ud_ledger s \<Longrightarrow> Q (Ret s) L"
    and "\<And>n L. Q (Exit n) L"
  shows "keeps v (ud_setup a) [] Q"
  unfolding ud_setup_def
  using assms(1) by (auto intro!: obeys_rules assms(2-) simp: ledger_simps)

text \<open>The slots of the pool.\<close>

lemma ud_slot: "i < NUM_RECV_BUFS \<Longrightarrow> ud_pool_slots p ! i = p + of_nat (i * BUF_SIZE)"
  by (simp add: ud_pool_slots_def)

lemma ud_pool_ok:
  assumes "ud_apart s" "i < NUM_RECV_BUFS"
  shows "sge_ok (ud_res_ledger st s) {IBV_ACCESS_LOCAL_WRITE}
      \<lparr>sge_addr = ud_recv_bufs s ! i, sge_length = of_nat BUF_SIZE, sge_lkey = mr_lkey (ud_recv_mr s)\<rparr>"
    and "mem_ok (ud_res_ledger st s) (ud_recv_bufs s ! i + of_nat GRH_SIZE)
      ((NUM_RECV_BUFS - i) * BUF_SIZE - GRH_SIZE)"
proof -
  from assms have a: "unat (ud_recv_pool s) + NUM_RECV_BUFS * BUF_SIZE \<le> 2 ^ 64"
    and slot: "ud_recv_bufs s ! i = ud_recv_pool s + of_nat (i * BUF_SIZE)"
    by (simp_all add: ud_apart_def ud_slot)
  have i: "i * BUF_SIZE + BUF_SIZE \<le> NUM_RECV_BUFS * BUF_SIZE"
    using assms(2) by (simp add: ud_sizes)
  have "within (ud_recv_pool s) (NUM_RECV_BUFS * BUF_SIZE) (ud_recv_pool s + of_nat (i * BUF_SIZE)) BUF_SIZE"
    by (rule within_offset [OF a i]) (simp add: ud_sizes)
  moreover have "unat (of_nat BUF_SIZE :: u32) = BUF_SIZE"
    by (simp add: ud_sizes)
  ultimately show "sge_ok (ud_res_ledger st s) {IBV_ACCESS_LOCAL_WRITE}
      \<lparr>sge_addr = ud_recv_bufs s ! i, sge_length = of_nat BUF_SIZE, sge_lkey = mr_lkey (ud_recv_mr s)\<rparr>"
    by (simp add: slot ud_res_ledger_def ledger_simps)
  have j: "i * BUF_SIZE + GRH_SIZE + ((NUM_RECV_BUFS - i) * BUF_SIZE - GRH_SIZE) \<le> NUM_RECV_BUFS * BUF_SIZE"
    "0 < (NUM_RECV_BUFS - i) * BUF_SIZE - GRH_SIZE"
    using assms(2) by (auto simp: ud_sizes)
  have "within (ud_recv_pool s) (NUM_RECV_BUFS * BUF_SIZE)
      (ud_recv_pool s + of_nat (i * BUF_SIZE + GRH_SIZE)) ((NUM_RECV_BUFS - i) * BUF_SIZE - GRH_SIZE)"
    by (rule within_offset [OF a j])
  then show "mem_ok (ud_res_ledger st s) (ud_recv_bufs s ! i + of_nat GRH_SIZE)
      ((NUM_RECV_BUFS - i) * BUF_SIZE - GRH_SIZE)"
    by (simp add: slot ud_res_ledger_def ledger_simps add.assoc)
qed

lemma keeps_ud_prepost [obeys_rules]:
  assumes "ud_apart s" "Q (Ret ()) (ud_ledger s)" "\<And>n L. Q (Exit n) L"
  shows "keeps v (ud_prepost s) (ud_ledger s) Q"
  unfolding ud_prepost_def post_ud_receive_def
  using assms ud_pool_ok [OF assms(1)]
  by (auto intro!: obeys_for_each_same obeys_rules simp: post_recv_ok_def ledger_simps)

lemma keeps_ud_receive_one [obeys_rules]:
  assumes "ud_apart s" "Q (Ret ()) (ud_ledger s)" "\<And>n L. Q (Exit n) L" "\<And>L. Q UB L" "\<And>L. Q Hang L"
  shows "keeps v (ud_receive_one fuel s) (ud_ledger s) Q"
  unfolding ud_receive_one_def post_ud_receive_def Let_def
  using assms ud_pool_ok [OF assms(1)]
  by (auto intro!: obeys_rules simp: post_recv_ok_def ledger_simps)

lemma keeps_ud_send_one:
  assumes "\<And>n. n < MAX_MSG_SIZE \<Longrightarrow> Q (Ret ()) L" "\<And>n L. Q (Exit n) L" "\<And>L. Q UB L" "\<And>L. Q Hang L"
    and L: "L = \<lparr>res_key = KAh ah, res_needs = [KPd (ud_pd s)], res_info = Plain\<rparr> # ud_ledger s"
  shows "keeps v (ud_send_one fuel s ah i) L Q"
proof -
  have m: "mem_ok (ud_res_ledger IBV_QPS_RTS s) (ud_send_buf s) k" if "k \<le> MAX_MSG_SIZE" for k
    using that by (auto simp: ud_res_ledger_def ledger_simps)
  have "unat (of_nat (n + 1) :: u32) \<le> n + 1" for n
    by (simp only: unat_of_nat mod_less_eq_dividend)
  then have g: "sge_ok (ud_res_ledger IBV_QPS_RTS s) {}
      \<lparr>sge_addr = ud_send_buf s, sge_length = of_nat (n + 1), sge_lkey = mr_lkey (ud_send_mr s)\<rparr>"
    if "n < MAX_MSG_SIZE" for n
    using that le_trans [of "unat (of_nat (n + 1) :: u32)" "n + 1" MAX_MSG_SIZE]
    by (auto simp: ud_res_ledger_def ledger_simps simp del: of_nat_add of_nat_Suc)
  have "0 < MAX_MSG_SIZE" by (simp add: ud_sizes)
  show ?thesis
    unfolding ud_send_one_def post_ud_send_def L
    using assms(1-4) \<open>0 < MAX_MSG_SIZE\<close> m g unfolding L
    by (auto intro!: obeys_rules simp: post_send_ok_def ledger_simps length_snprintf_le
        simp del: of_nat_add of_nat_Suc)
qed

lemma keeps_ud_transfer [obeys_rules]:
  assumes "ud_apart s" "Q (Ret ()) (ud_ledger s)" "\<And>n L. Q (Exit n) L" "\<And>L. Q UB L" "\<And>L. Q Hang L"
  shows "keeps v (ud_transfer fuel a s) (ud_ledger s) Q"
  unfolding ud_transfer_def ud_receiver_def ud_sender_def
  using assms
  by (auto intro!: obeys_rules obeys_for_each_same keeps_ud_send_one
      simp: ledger_simps filter_fresh)

lemma keeps_ud_cleanup [obeys_rules]:
  assumes "ud_apart s" "Q (Ret ()) []"
  shows "keeps v (ud_cleanup s) (ud_ledger s) Q"
  unfolding ud_cleanup_def ud_res_ledger_def
  using assms by (auto intro!: obeys_rules simp: ledger_simps ud_apart_def)

lemma keeps_ud_main: "keeps v (ud_main fuel opts) [] (\<lambda>r L. r = Ret 0 \<longrightarrow> L = [])"
proof (cases "parse_opts ud_option ud_defaults opts")
  case (Some a)
  with ud_args_role have "role_ok a" by blast
  with Some show ?thesis
    by (auto simp: ud_main_def EXIT_FAILURE_def ledger_simps intro!: obeys_rules)
qed (simp add: ud_main_def EXIT_FAILURE_def)

section \<open>Ownership of the receive buffers\<close>

definition ud_slots :: "ud_state \<Rightarrow> (u64 \<times> ptr) set" where
  "ud_slots s = (\<lambda>i. (of_nat i, ud_recv_bufs s ! i)) ` {..<NUM_RECV_BUFS}"

lemma ud_slots_inj:
  assumes "ud_recv_bufs s = ud_pool_slots pool" "i < NUM_RECV_BUFS" "j < NUM_RECV_BUFS"
  shows "ud_recv_bufs s ! i = ud_recv_bufs s ! j \<longleftrightarrow> i = j" "(of_nat i :: u64) = of_nat j \<longleftrightarrow> i = j"
proof -
  have "i * BUF_SIZE < 10000" "j * BUF_SIZE < 10000"
    using assms by (simp_all add: ud_sizes)
  then have "(of_nat (i * BUF_SIZE) :: u64) = of_nat (j * BUF_SIZE) \<longleftrightarrow> i * BUF_SIZE = j * BUF_SIZE"
    by (rule of_nat_small)
  moreover have "i * BUF_SIZE = j * BUF_SIZE \<longleftrightarrow> i = j" by (simp add: ud_sizes)
  ultimately show "ud_recv_bufs s ! i = ud_recv_bufs s ! j \<longleftrightarrow> i = j"
    using assms(2,3) unfolding assms(1) by (simp only: ud_slot) simp
  show "(of_nat i :: u64) = of_nat j \<longleftrightarrow> i = j"
    using assms(2,3) by (intro of_nat_small) (simp_all add: ud_sizes)
qed

lemma buf_idx_of_nat: "i < NUM_RECV_BUFS \<Longrightarrow> buf_idx (of_nat i) = int i"
  by (rule buf_idx_small) (simp add: ud_sizes)

lemma owner_prepost:
  assumes "ud_recv_bufs s = ud_pool_slots pool" "Q (Ret ()) (ud_slots s)" "\<And>n S. Q (Exit n) S"
  shows "obeys owner v (ud_prepost s) {} Q"
proof -
  let ?S = "\<lambda>n. (\<lambda>i. (of_nat i :: u64, ud_recv_bufs s ! i)) ` {..<n}"
  have "obeys owner v (for_each [k..<NUM_RECV_BUFS] (\<lambda>i.
      bnd (post_ud_receive (ud_qp s) (ud_recv_bufs s ! i) (ud_recv_mr s) (of_nat i)) (\<lambda>r. CHECK_ERRNO r)))
      (?S k) Q" if "k \<le> NUM_RECV_BUFS" for k
    using that
  proof (induction "NUM_RECV_BUFS - k" arbitrary: k)
    case 0
    then show ?case using assms(2) by (simp add: ud_slots_def)
  next
    case (Suc m)
    then have k: "k < NUM_RECV_BUFS" and
      rest: "obeys owner v (for_each [Suc k..<NUM_RECV_BUFS] (\<lambda>i.
        bnd (post_ud_receive (ud_qp s) (ud_recv_bufs s ! i) (ud_recv_mr s) (of_nat i)) (\<lambda>r. CHECK_ERRNO r)))
        (?S (Suc k)) Q"
      by simp_all
    have "ud_recv_bufs s ! k \<notin> snd ` ?S k"
    proof
      assume "ud_recv_bufs s ! k \<in> snd ` ?S k"
      then obtain j where "j < k" "ud_recv_bufs s ! k = ud_recv_bufs s ! j" by auto
      with ud_slots_inj(1) [OF assms(1) k, of j] k show False by simp
    qed
    moreover have "insert (of_nat k, ud_recv_bufs s ! k) (?S k) = ?S (Suc k)"
      by (simp add: lessThan_Suc)
    ultimately show ?case
      using k rest assms(3) unfolding post_ud_receive_def
      by (auto simp: upt_conv_Cons rw_addr_def intro!: obeys_rules simp del: upt_Suc)
  qed
  from this [of 0] show ?thesis by (simp add: ud_prepost_def)
qed

lemma owner_receive_one:
  assumes "ud_recv_bufs s = ud_pool_slots pool" "Q (Ret ()) (ud_slots s)"
    and "\<And>n S. Q (Exit n) S" "\<And>S. Q UB S" "\<And>S. Q Hang S"
  shows "obeys owner v (ud_receive_one fuel s) (ud_slots s) Q"
proof -
  have again: "buf_idx w = int i \<and> word_of_int (int i) = w \<and>
      ud_recv_bufs s ! i \<notin> snd ` {x \<in> ud_slots s. fst x \<noteq> w} \<and>
      insert (w, ud_recv_bufs s ! i) {x \<in> ud_slots s. fst x \<noteq> w} = ud_slots s"
    if "i < NUM_RECV_BUFS" "w = of_nat i" for i w
    using that ud_slots_inj [OF assms(1) that(1)] buf_idx_of_nat [OF that(1)]
    by (auto simp: ud_slots_def) metis+
  have mem: "\<exists>i < NUM_RECV_BUFS. w = of_nat i" if "(w, b) \<in> ud_slots s" for w b
    using that by (auto simp: ud_slots_def)
  have "obeys owner v
      (let i = buf_idx w in
       if i < 0 \<or> int NUM_RECV_BUFS \<le> i then undef
       else seq (load_str (ud_recv_bufs s ! nat i + of_nat GRH_SIZE)
           ((NUM_RECV_BUFS - nat i) * BUF_SIZE - GRH_SIZE)) (
         bnd (post_ud_receive (ud_qp s) (ud_recv_bufs s ! nat i) (ud_recv_mr s) (word_of_int i)) (\<lambda>r.
         CHECK_ERRNO r))) {x \<in> ud_slots s. fst x \<noteq> w} Q"
    if "(w, b) \<in> ud_slots s" for w b
  proof -
    from mem [OF that] obtain i where i: "i < NUM_RECV_BUFS" "w = of_nat i" by blast
    from again [OF this] show ?thesis
      using i assms(2-) unfolding post_ud_receive_def Let_def
      by (auto intro!: obeys_rules simp: rw_addr_def)
  qed
  then show ?thesis
    unfolding ud_receive_one_def using assms(2-)
    by (auto intro!: obeys_bnd owner_poll_completion keeps_CHECK_ERRNO_out)
qed

lemma owner_receiver:
  assumes "ud_recv_bufs s = ud_pool_slots pool"
  shows "obeys owner v (ud_receiver fuel a s) {} (\<lambda>r S. r = Ret () \<longrightarrow> S = ud_slots s)"
  unfolding ud_receiver_def
  by (auto intro!: obeys_seq owner_prepost [OF assms] obeys_for_each_same owner_receive_one [OF assms])

section \<open>Two peers\<close>

lemma exchange_ud_info_transfers:
  assumes "exchange_ud_info fd x v h = (Ret (Inr y), es)"
  shows "sent fd es = ud_info_bytes (env_order v) x" "length (rcvd fd es) = 24"
    "y = ud_info_of (env_order v) (rcvd fd es)"
  using assms ud_wire.length_img [of "env_order v" x]
  by (auto simp: exchange_ud_info_def bnd_eq_Ret get_order_def sys_def sys_bytes_def
      split: if_splits prod.splits)

lemma ud_setup_parts:
  assumes "ud_setup a v h = (Ret s, es)"
  obtains es1 es2 where "es = es1 @ es2" "sent fd es1 = []" "rcvd fd es1 = []"
    "exchange_ud_info (ud_sock s) (ud_local s) v (h @ es1) = (Ret (Inr (ud_remote s)), es2)"
    "ui_qp_num (ud_local s) = qp_num (ud_qp s)" "unat (ui_lid (ud_local s)) < 2 ^ 16"
    "modified es = map (\<lambda>m. (qp_ptr (ud_qp s), m, RInt 0))
       [ud_init_attr (ib_port a), zero_qp_attr\<lparr>qa_qp_state := IBV_QPS_RTR\<rparr>,
        zero_qp_attr\<lparr>qa_qp_state := IBV_QPS_RTS, qa_sq_psn := 0\<rparr>]"
proof -
  from assms obtain s0 e1 e2 e3 e4 e5 u sock remote where
    r: "ud_resources a v h = (Ret s0, e1)" "ud_connect a s0 v (h @ e1) = (Ret (), e2)"
      "ud_local_info a s0 v (h @ e1 @ e2) = (Ret u, e3)"
      "side_channel a v (h @ e1 @ e2 @ e3) = (Ret sock, e4)"
      "exchange_ud_info sock u v (h @ e1 @ e2 @ e3 @ e4) = (Ret (Inr remote), e5)"
    and s: "s = s0\<lparr>ud_local := u, ud_sock := sock, ud_remote := remote\<rparr>"
      "es = e1 @ e2 @ e3 @ e4 @ e5"
    by (auto simp: ud_setup_def bnd_eq_Ret seq_eq_Ret)
  have bufs: "calls P (alloc_bufs k n)" "calls P (free_bufs ps)"
    if "\<And>i j. P (Os (Calloc i j))" "\<And>p. P (Os (Free p))" for P k n ps
  proof -
    show "calls P (alloc_bufs k n)" by (induction n) (auto intro!: only_rules that)
    show "calls P (free_bufs ps)" by (auto simp: free_bufs_def intro!: only_rules that)
  qed
  have "calls (\<lambda>c. \<not> is_transfer c) (ud_resources a)" "calls (\<lambda>c. \<not> is_transfer c) (side_channel a)"
    "calls (\<lambda>c. \<not> is_transfer c) (ud_connect a s0)" "calls (\<lambda>c. \<not> is_transfer c) (ud_local_info a s0)"
    by (auto simp: ud_resources_def ud_connect_def ud_local_info_def modify_ud_qp_to_init_def
        modify_ud_qp_to_rtr_def modify_ud_qp_to_rts_def intro!: only_rules bufs)
  then have "sent fd (e1 @ e2 @ e3 @ e4) = []" "rcvd fd (e1 @ e2 @ e3 @ e4) = []"
    using r by (simp_all add: transfer_none)
  moreover have "calls (\<lambda>c. \<not> is_modify c) (ud_resources a)" "calls (\<lambda>c. \<not> is_modify c) (side_channel a)"
    "calls (\<lambda>c. \<not> is_modify c) (exchange_ud_info sock u)" "calls (\<lambda>c. \<not> is_modify c) (ud_local_info a s0)"
    by (auto simp: ud_resources_def exchange_ud_info_def ud_local_info_def intro!: only_rules bufs)
  then have "modified es = modified e2"
    using r s(2) by (simp add: modified_none)
  moreover have "\<exists>l. ui_qp_num u = qp_num (ud_qp s0) \<and> ui_lid u = ucast (l :: u16)"
    using r(3) by (auto simp: ud_local_info_def bnd_eq_Ret seq_eq_Ret split: prod.splits)
  ultimately show ?thesis
    using that [of "e1 @ e2 @ e3 @ e4" e5] r s lid_16_bits
      ud.climb_modified [OF r(2) [unfolded ud_connect_def]]
    by auto
qed

section \<open>The datagrams of a sender\<close>

text \<open>Address handles created, and datagrams posted: handle, queue pair number, key, length.\<close>

fun handle_by :: "event \<Rightarrow> (ah_attr \<times> resp) list" where
  "handle_by (Vb (Ibv_create_ah pd a), r) = [(a, r)]"
| "handle_by _ = []"

fun datagram_by :: "event \<Rightarrow> (ptr \<times> u32 \<times> u32 \<times> nat) list" where
  "datagram_by (Vb (Ibv_post_send q w), r) =
     [(sw_ah w, sw_remote_qpn w, sw_remote_qkey w, sge_bytes (sw_sg_list w))]"
| "datagram_by _ = []"

definition handles :: "event list \<Rightarrow> (ah_attr \<times> resp) list" where
  "handles es = concat (map handle_by es)"

definition datagrams :: "event list \<Rightarrow> (ptr \<times> u32 \<times> u32 \<times> nat) list" where
  "datagrams es = concat (map datagram_by es)"

lemma trace_simps [simp]:
  "handles [] = []" "handles (e # es) = handle_by e @ handles es" "handles (es @ es') = handles es @ handles es'"
  "datagrams [] = []" "datagrams (e # es) = datagram_by e @ datagrams es"
  "datagrams (es @ es') = datagrams es @ datagrams es'"
  by (simp_all add: handles_def datagrams_def)

fun other_call :: "call \<Rightarrow> bool" where
  "other_call (Vb (Ibv_create_ah pd a)) = False"
| "other_call (Vb (Ibv_post_send q w)) = False"
| "other_call _ = True"

lemma trace_none:
  assumes "calls other_call m" "m v h = (r, es)"
  shows "handles es = []" "datagrams es = []"
proof -
  have "handle_by e = []" if "other_call (fst e)" for e
    using that by (cases e rule: handle_by.cases) auto
  moreover have "datagram_by e = []" if "other_call (fst e)" for e
    using that by (cases e rule: datagram_by.cases) auto
  ultimately show "handles es = []" "datagrams es = []"
    unfolding handles_def datagrams_def using only_concat_map [OF assms] by blast+
qed

lemma ud_send_one_trace:
  assumes "ud_send_one fuel s ah i v h = (Ret (), es)"
  shows "handles es = []" "\<exists>n. datagrams es = [(ah, ui_qp_num (ud_remote s), QKEY, n)] \<and> n \<le> MAX_MSG_SIZE"
proof -
  have q: "handles es = [] \<and> datagrams es = []"
    if "poll_completion fuel cq v h = (r, es)" for cq h r es
    using trace_none [where m = "poll_completion fuel cq", OF calls_poll_completion that] by simp
  have l: "handles es = [] \<and> datagrams es = [] \<and> length d < n"
    if "load_str p n v h = (Ret d, es)" for p n h d es
    using that trace_none [where m = "load_str p n", OF calls_load_str that] load_str_quiet [OF that]
    by simp
  have u: "unat (of_nat (n + 1) :: u32) \<le> MAX_MSG_SIZE" if "n < MAX_MSG_SIZE" for n
    using that le_trans [of "unat (of_nat (n + 1) :: u32)" "n + 1" MAX_MSG_SIZE]
    by (simp add: unat_of_nat del: of_nat_add of_nat_Suc)
  show "handles es = []" "\<exists>n. datagrams es = [(ah, ui_qp_num (ud_remote s), QKEY, n)] \<and> n \<le> MAX_MSG_SIZE"
    using assms u
    by (auto simp: ud_send_one_def post_ud_send_def bnd_eq_Ret seq_eq_Ret sys_def sysv_def
        sge_bytes_def dest!: l q simp del: of_nat_add of_nat_Suc)
qed

lemma ud_sender_trace:
  assumes "ud_sender fuel a s v h = (Ret (), es)"
  obtains ah where "handles es = [(ud_ah_attr a s, RPtr ah)]" "length (datagrams es) = nat (num_iters a)"
    "list_all (\<lambda>(x, q, k, n). x = ah \<and> q = ui_qp_num (ud_remote s) \<and> k = QKEY \<and> n \<le> MAX_MSG_SIZE) (datagrams es)"
proof -
  from assms obtain ah g es1 c where
    es: "es = (Vb (Ibv_create_ah (ud_pd s) (ud_ah_attr a s)), RPtr ah) # es1 @ [(Vb (Ibv_destroy_ah ah), c)]"
    and loop: "for_each [0..<nat (num_iters a)] (\<lambda>i. ud_send_one fuel s ah i) v g = (Ret (), es1)"
    by (auto simp: ud_sender_def bnd_eq_Ret seq_eq_Ret sys_def sysp_def)
  have "handles es1 = concat (map (\<lambda>_. []) [0..<nat (num_iters a)])"
    using loop by (rule for_each_trace [rotated -1]) (auto simp: ud_send_one_trace)
  moreover have "length (datagrams es1) = length [0..<nat (num_iters a)] \<and>
      list_all (\<lambda>(x, q, k, n). x = ah \<and> q = ui_qp_num (ud_remote s) \<and> k = QKEY \<and> n \<le> MAX_MSG_SIZE) (datagrams es1)"
    using loop by (rule for_each_each [rotated -1]) (auto dest: ud_send_one_trace(2))
  ultimately show ?thesis using that es by (auto simp: concat_eq_Nil_conv)
qed

lemma ud_peers_remote:
  assumes A: "ud_setup a v [] = (Ret s, es)" and B: "ud_setup b v' [] = (Ret t, fs)"
    and ord: "env_order v = env_order v'" and tcp: "delivers (ud_sock s) es (ud_sock t) fs"
  shows "ud_remote t = ud_local s"
proof -
  from A obtain e1 e2 where e: "es = e1 @ e2" "sent (ud_sock s) e1 = []"
    "exchange_ud_info (ud_sock s) (ud_local s) v ([] @ e1) = (Ret (Inr (ud_remote s)), e2)"
    by (rule ud_setup_parts [where fd = "ud_sock s"]) simp
  from B obtain f1 f2 where f: "fs = f1 @ f2" "rcvd (ud_sock t) f1 = []"
    "exchange_ud_info (ud_sock t) (ud_local t) v' ([] @ f1) = (Ret (Inr (ud_remote t)), f2)"
    by (rule ud_setup_parts [where fd = "ud_sock t"]) simp
  show ?thesis
    by (rule ud_wire.meet(1) [OF exchange_ud_info_transfers(3,2) [OF f(3)]
          exchange_ud_info_transfers(1) [OF e(3), unfolded ord], where zs = "[]" and zs' = "[]"])
      (use e(1,2) f(1,2) tcp in simp_all)
qed

lemma ud_prefix_receives:
  "calls (\<lambda>c. \<forall>q w. c \<noteq> Vb (Ibv_post_recv q w)) (bnd (ud_setup a) (\<lambda>s. sync_peer (ud_sock s)))"
proof -
  have bufs: "calls P (alloc_bufs k n)" "calls P (free_bufs ps)"
    if "\<And>i j. P (Os (Calloc i j))" "\<And>p. P (Os (Free p))" for P k n ps
  proof -
    show "calls P (alloc_bufs k n)" by (induction n) (auto intro!: only_rules that)
    show "calls P (free_bufs ps)" by (auto simp: free_bufs_def intro!: only_rules that)
  qed
  show ?thesis
    by (auto simp: ud_setup_def ud_resources_def ud_connect_def ud_local_info_def modify_ud_qp_to_init_def
        modify_ud_qp_to_rtr_def modify_ud_qp_to_rts_def exchange_ud_info_def sync_peer_def
        intro!: only_rules bufs)
qed

section \<open>Properties\<close>

text \<open>C12: The datagram program keeps to the verbs contract on every path: the single receive buffers it
  replaces by a pool are all freed while the pool and the send buffer stay registered, every receive
  posted covers one slot of the registered pool, no slot is indexed outside the array, datagrams
  are posted with a live address handle, and a normal end leaves no resource.\<close>

theorem ud_main_contract:
  assumes "ud_main fuel opts v h = (r, es)"
  shows "clean es \<and> (r = Ret 0 \<longrightarrow> leftover es = [])"
  using keeps_clean [OF keeps_ud_main assms] leftover_either [OF keeps_ud_main assms] by blast

lemma alloc_bufs_numeral:
  "alloc_bufs sz (numeral k) =
     bnd (sysp (Os (Calloc 1 sz))) (\<lambda>p. seq (CHECK_NULL p) (
     bnd (alloc_bufs sz (pred_numeral k)) (\<lambda>ps. ret (p # ps))))"
  by (simp add: numeral_eq_Suc)

lemmas lab_ud = lab_rc ud_main_def ud_option_def ud_defaults_def ud_setup_def ud_resources_def
  alloc_bufs_numeral free_bufs_def ud_sizes ud_connect_def ud_local_info_def exchange_ud_info_def
  modify_ud_qp_to_init_def modify_ud_qp_to_rtr_def modify_ud_qp_to_rts_def ud_transfer_def
  ud_receiver_def ud_prepost_def ud_sender_def ud_send_one_def post_ud_send_def post_ud_receive_def
  load_str_def ud_cleanup_def ud_wire.length_img ud_wire.parse_img

lemma ud_main_contract_witness:
  "\<exists>es. ud_main 4 [(CHR ''c'', ''srv''), (CHR ''n'', ''0'')] (lab_env 17 5 (ud_info_bytes Little zero_ud_info)) []
      = (Ret 0, es) \<and> clean es \<and> leftover es = []"
proof -
  obtain es where r: "ud_main 4 [(CHR ''c'', ''srv''), (CHR ''n'', ''0'')]
      (lab_env 17 5 (ud_info_bytes Little zero_ud_info)) [] = (Ret 0, es)"
    by (simp add: lab_ud)
  show ?thesis using ud_main_contract [OF r] r by blast
qed

text \<open>C5: A receive buffer is never posted while the network card owns it.  Through the whole of the
  receiver, whichever posted receives complete in whatever order, a slot is posted only after its
  completion was polled, and whenever the receiver ends normally exactly the 16 slots are posted.\<close>

theorem ud_receiver_ownership:
  assumes "ud_recv_bufs s = ud_pool_slots pool" and "ud_receiver fuel a s v h = (r, es)"
  shows "mon_run owner {} es \<noteq> Misuse \<and>
    (r = Ret () \<longrightarrow> mon_run owner {} es \<in> {Breach, Live (ud_slots s)})"
  using obeysD [OF owner_receiver [OF assms(1)] assms(2)] by (cases "mon_run owner {} es") auto

definition ud_lab_state :: ud_state where
  "ud_lab_state = \<lparr>ud_ctx = 1, ud_pd = 2, ud_cq = 3, ud_qp = \<lparr>qp_ptr = 4, qp_num = 17\<rparr>,
     ud_send_buf = 8192, ud_send_mr = \<lparr>mr_ptr = 5, mr_addr = 8192, mr_lkey = 7, mr_rkey = 9\<rparr>,
     ud_recv_bufs = ud_pool_slots 65536, ud_recv_pool = 65536,
     ud_recv_mr = \<lparr>mr_ptr = 6, mr_addr = 65536, mr_lkey = 8, mr_rkey = 9\<rparr>,
     ud_local = zero_ud_info, ud_sock = 3, ud_remote = zero_ud_info\<rparr>"

lemma upt_16: "[0..<16] = [0, 1, 2, 3, 4, 5, 6, 7, 8, 9, 10, 11, 12, 13, 14, 15 :: nat]"
  by (simp add: upt_rec)

lemma ud_receiver_ownership_witness:
  "\<exists>es. ud_receiver 4 (ud_defaults\<lparr>num_iters := 1\<rparr>) ud_lab_state (lab_env 17 5 []) [] = (Ret (), es) \<and>
     mon_run owner {} es \<noteq> Misuse"
proof -
  have "stored p h = [] \<Longrightarrow> load_str p (Suc n) (lab_env 17 5 []) h
      = (Ret [], [(Os (Mem_load p (Suc n)), RBytes (int (Suc n)) (replicate (Suc n) 0))])" for p h n
    by (simp add: load_str_def run_defs lab_env_simps lab_read_def fit_def)
  from this [where n = 4695] have l: "stored p h = [] \<Longrightarrow> load_str p 4696 (lab_env 17 5 []) h
      = (Ret [], [(Os (Mem_load p 4696), RBytes 4696 (replicate 4696 0))])" for p h
    by simp
  have "buf_idx 0 = 0" by (simp add: buf_idx_def)
  then obtain es where r: "ud_receiver 4 (ud_defaults\<lparr>num_iters := 1\<rparr>) ud_lab_state (lab_env 17 5 []) [] = (Ret (), es)"
    using l by (simp add: lab_tcp lab_poll_completion ud_receiver_def ud_prepost_def post_ud_receive_def
        ud_receive_one_def ud_lab_state_def ud_sizes ud_defaults_def upt_16 lab_wc_def zero_wc_def Let_def)
  show ?thesis
    using ud_receiver_ownership [OF _ r, of 65536] r by (simp add: ud_lab_state_def)
qed

text \<open>C36: The sender's datagrams are addressed to the receiver and fit its buffers.  When the two have set
  up over one connection, the one address handle a finished sender created has the receiver's GID
  and LID, and it has posted as many datagrams as asked for, each over that handle, to the
  receiver's queue pair number, with the key the receiver gave its queue pair when it moved it to
  INIT, and short enough for a receive buffer after the 40 bytes of the GRH.\<close>

theorem ud_datagrams_reach:
  assumes "ud_setup a v [] = (Ret s, es)" and "ud_setup b v' [] = (Ret t, fs)"
    and "env_order v = env_order v'" and "delivers (ud_sock s) es (ud_sock t) fs"
    and "ud_sender fuel b t v' h = (Ret (), gs)"
  shows "\<exists>attr ah key rest. handles gs = [(attr, RPtr ah)] \<and> ah_dgid attr = ui_gid (ud_local s) \<and>
    unat (ah_dlid attr) = unat (ui_lid (ud_local s)) \<and>
    map (\<lambda>(q, m, rc). (q, qa_qkey m, rc)) (modified es) = (qp_ptr (ud_qp s), key, RInt 0) # rest \<and>
    length (datagrams gs) = nat (num_iters b) \<and>
    list_all (\<lambda>(x, q, k, n). x = ah \<and> q = qp_num (ud_qp s) \<and> k = key \<and> GRH_SIZE + n \<le> BUF_SIZE)
      (datagrams gs)"
proof -
  from assms(1) have s: "ui_qp_num (ud_local s) = qp_num (ud_qp s)" "unat (ui_lid (ud_local s)) < 2 ^ 16"
    "modified es = map (\<lambda>m. (qp_ptr (ud_qp s), m, RInt 0))
       [ud_init_attr (ib_port a), zero_qp_attr\<lparr>qa_qp_state := IBV_QPS_RTR\<rparr>,
        zero_qp_attr\<lparr>qa_qp_state := IBV_QPS_RTS, qa_sq_psn := 0\<rparr>]"
    by (auto elim: ud_setup_parts)
  from assms(5) obtain ah where h: "handles gs = [(ud_ah_attr b t, RPtr ah)]"
    and l: "length (datagrams gs) = nat (num_iters b)"
    and g: "list_all (\<lambda>(x, q, k, n). x = ah \<and> q = ui_qp_num (ud_remote t) \<and> k = QKEY \<and> n \<le> MAX_MSG_SIZE) (datagrams gs)"
    by (rule ud_sender_trace)
  have r: "ud_remote t = ud_local s" by (rule ud_peers_remote [OF assms(1-4)])
  have "ah_dgid (ud_ah_attr b t) = ui_gid (ud_local s)"
    "unat (ah_dlid (ud_ah_attr b t)) = unat (ui_lid (ud_local s))"
    using s(2) by (simp_all add: ud_ah_attr_def r lid_fits)
  moreover obtain rest where "map (\<lambda>(q, m, rc). (q, qa_qkey m, rc)) (modified es)
      = (qp_ptr (ud_qp s), QKEY, RInt 0) # rest"
    unfolding s(3) by (simp add: ud_init_attr_def)
  moreover have "list_all (\<lambda>(x, q, k, n). x = ah \<and> q = qp_num (ud_qp s) \<and> k = QKEY \<and> GRH_SIZE + n \<le> BUF_SIZE)
      (datagrams gs)"
    using g by (rule list.pred_mono_strong) (auto simp: r s(1) BUF_SIZE_def)
  ultimately show ?thesis using h l by (intro exI conjI)
qed

lemma ud_lab_pair:
  "\<exists>s es t fs gs.
     ud_setup (ud_defaults\<lparr>is_server := 1\<rparr>) (lab_env 17 5 (ud_info_bytes Little zero_ud_info)) [] = (Ret s, es) \<and>
     ud_setup (ud_defaults\<lparr>is_server := 0, server_name := Some ''srv'', num_iters := 1\<rparr>)
       (lab_env 23 6 (ud_info_bytes Little \<lparr>ui_qp_num = 17, ui_lid = 3, ui_gid = 5\<rparr>)) [] = (Ret t, fs) \<and>
     delivers (ud_sock s) es (ud_sock t) fs \<and>
     ud_sender 4 (ud_defaults\<lparr>is_server := 0, server_name := Some ''srv'', num_iters := 1\<rparr>) t
       (lab_env 23 6 (ud_info_bytes Little \<lparr>ui_qp_num = 17, ui_lid = 3, ui_gid = 5\<rparr>)) [] = (Ret (), gs) \<and>
     qp_num (ud_qp s) = 17"
proof -
  have "digit 0 = CHR ''0''" by code_simp
  then have "numeral_string 10 0 = ''0''" by (subst numeral_string.simps) simp
  then have "fmt_d 0 = ''0''" by (simp add: fmt_d_def)
  then show ?thesis
    by (simp add: lab_ud delivers_def snprintf_bytes_def fit_def ud_text_def chars_def)
qed

lemma ud_datagrams_reach_witness:
  "\<exists>(t :: ud_state) gs. ud_sender 4 (ud_defaults\<lparr>is_server := 0, server_name := Some ''srv'', num_iters := 1\<rparr>) t
       (lab_env 23 6 (ud_info_bytes Little \<lparr>ui_qp_num = 17, ui_lid = 3, ui_gid = 5\<rparr>)) [] = (Ret (), gs) \<and>
     length (datagrams gs) = 1"
proof -
  from ud_lab_pair obtain s es t fs gs where
    A: "ud_setup (ud_defaults\<lparr>is_server := 1\<rparr>) (lab_env 17 5 (ud_info_bytes Little zero_ud_info)) [] = (Ret s, es)"
    and B: "ud_setup (ud_defaults\<lparr>is_server := 0, server_name := Some ''srv'', num_iters := 1\<rparr>)
       (lab_env 23 6 (ud_info_bytes Little \<lparr>ui_qp_num = 17, ui_lid = 3, ui_gid = 5\<rparr>)) [] = (Ret t, fs)"
    and D: "delivers (ud_sock s) es (ud_sock t) fs"
    and C: "ud_sender 4 (ud_defaults\<lparr>is_server := 0, server_name := Some ''srv'', num_iters := 1\<rparr>) t
       (lab_env 23 6 (ud_info_bytes Little \<lparr>ui_qp_num = 17, ui_lid = 3, ui_gid = 5\<rparr>)) [] = (Ret (), gs)"
    by blast
  have "env_order (lab_env 17 5 p) = env_order (lab_env 23 6 q)" for p q
    by (simp add: lab_env_simps)
  from ud_datagrams_reach [OF A B this D C] have "length (datagrams gs) = 1" by auto
  with C show ?thesis by (intro exI conjI)
qed

text \<open>The receiver has posted no receive when the barrier lets the sender go: up to and including the
  synchronization byte it posts none, so datagrams sent at once may find no buffer and be dropped.\<close>

theorem ud_receives_late:
  "list_all (\<lambda>e. \<forall>q w. fst e \<noteq> Vb (Ibv_post_recv q w))
     (snd (bnd (ud_setup a) (\<lambda>s. sync_peer (ud_sock s)) v h))"
  using ud_prefix_receives [of a] by (simp add: only_def)

end
