(* ===== verification/Hello_Verbs.thy ===== *)
theory Hello_Verbs
  imports Rc_Common
begin

text \<open>
  \<^verbatim>\<open>ch08-hello-verbs/hello_verbs.c\<close>: opens a device, prints what it can do, its port and its GID
  table, creates one resource of each kind and destroys them in reverse order.  What the program
  prints on \<^verbatim>\<open>stdout\<close> is modelled: texts printed without a call between them are one \<open>Print\<close>.
  The numbers the library writes back into \<^verbatim>\<open>cq->cqe\<close> and \<^verbatim>\<open>qp_init_attr.cap\<close> are printed by the
  program and not modelled, nor are the messages on \<^verbatim>\<open>stderr\<close>.
\<close>

definition put :: "string \<Rightarrow> unit io" where
  "put s = sysv (Os (Print s))"

text \<open>The conversions \<^verbatim>\<open>%x\<close> and \<^verbatim>\<open>%2d\<close>.\<close>

definition fmt_x :: "nat \<Rightarrow> string" where
  "fmt_x n = numeral_string 16 n"

definition fmt_2d :: "nat \<Rightarrow> string" where
  "fmt_2d n = replicate (2 - length (fmt_u n)) (CHR '' '') @ fmt_u n"

section \<open>Parameters\<close>

definition HV_BUFFER_SIZE :: nat where "HV_BUFFER_SIZE = 4096"
definition MAX_GID_DISPLAY :: int where "MAX_GID_DISPLAY = 16"

definition DIE :: "'a io" where
  "DIE = halt EXIT_FAILURE"

section \<open>Device and port\<close>

definition atomic_str :: "atomic_cap \<Rightarrow> string" where
  "atomic_str c =
     (case c of IBV_ATOMIC_NONE \<Rightarrow> ''NONE'' | IBV_ATOMIC_HCA \<Rightarrow> ''HCA-local''
      | IBV_ATOMIC_GLOB \<Rightarrow> ''Global'' | Atomic_other n \<Rightarrow> ''Unknown'')"

definition field :: "string \<Rightarrow> string \<Rightarrow> string" where
  "field label val = ''  '' @ label @ val @ newline"

definition device_text :: "ibv_device_attr \<Rightarrow> string" where
  "device_text a =
     newline @ ''=== Device Capabilities ==='' @ newline
     @ field ''Firmware version:      '' (da_fw_ver a)
     @ field ''Node GUID:             '' (fmt_0x 16 (unat (da_node_guid a)))
     @ field ''System image GUID:     '' (fmt_0x 16 (unat (da_sys_image_guid a)))
     @ field ''Max MR size:           0x'' (fmt_x (unat (da_max_mr_size a)))
     @ field ''Page size cap:         0x'' (fmt_x (unat (da_page_size_cap a)))
     @ field ''Vendor ID:             0x'' (fmt_0x 4 (unat (da_vendor_id a)))
     @ field ''Vendor part ID:        '' (fmt_u (unat (da_vendor_part_id a)))
     @ field ''HW version:            '' (fmt_u (unat (da_hw_ver a)))
     @ field ''Max QPs:               '' (fmt_d (da_max_qp a))
     @ field ''Max QP WRs:            '' (fmt_d (da_max_qp_wr a))
     @ field ''Max SGE per WR:        '' (fmt_d (da_max_sge a))
     @ field ''Max SGE per RD WR:     '' (fmt_d (da_max_sge_rd a))
     @ field ''Max CQs:               '' (fmt_d (da_max_cq a))
     @ field ''Max CQE per CQ:        '' (fmt_d (da_max_cqe a))
     @ field ''Max MRs:               '' (fmt_d (da_max_mr a))
     @ field ''Max PDs:               '' (fmt_d (da_max_pd a))
     @ field ''Max QP RD atoms:       '' (fmt_d (da_max_qp_rd_atom a))
     @ field ''Max QP init RD atoms:  '' (fmt_d (da_max_qp_init_rd_atom a))
     @ field ''Max SRQs:              '' (fmt_d (da_max_srq a))
     @ field ''Max SRQ WRs:           '' (fmt_d (da_max_srq_wr a))
     @ field ''Max SRQ SGE:           '' (fmt_d (da_max_srq_sge a))
     @ field ''Max multicast groups:  '' (fmt_d (da_max_mcast_grp a))
     @ field ''Physical port count:   '' (fmt_u (unat (da_phys_port_cnt a)))
     @ field ''Atomic capability:     '' (atomic_str (da_atomic_cap a))"

definition print_device_capabilities :: "ibv_device_attr \<Rightarrow> unit io" where
  "print_device_capabilities a = put (device_text a)"

definition state_str :: "port_state \<Rightarrow> string" where
  "state_str s =
     (case s of IBV_PORT_DOWN \<Rightarrow> ''DOWN'' | IBV_PORT_INIT \<Rightarrow> ''INIT'' | IBV_PORT_ARMED \<Rightarrow> ''ARMED''
      | IBV_PORT_ACTIVE \<Rightarrow> ''ACTIVE'' | Port_state_other n \<Rightarrow> ''UNKNOWN'')"

definition link_str :: "link_layer \<Rightarrow> string" where
  "link_str l =
     (case l of IBV_LINK_LAYER_INFINIBAND \<Rightarrow> ''InfiniBand'' | IBV_LINK_LAYER_ETHERNET \<Rightarrow> ''Ethernet''
      | Link_layer_other n \<Rightarrow> ''Unknown'')"

definition mtu_str :: "mtu \<Rightarrow> string" where
  "mtu_str u =
     (case u of IBV_MTU_256 \<Rightarrow> ''256'' | IBV_MTU_512 \<Rightarrow> ''512'' | IBV_MTU_1024 \<Rightarrow> ''1024''
      | IBV_MTU_2048 \<Rightarrow> ''2048'' | IBV_MTU_4096 \<Rightarrow> ''4096'' | Mtu_other n \<Rightarrow> ''Unknown'')"

definition port_text :: "ibv_port_attr \<Rightarrow> u8 \<Rightarrow> string" where
  "port_text a port_num =
     newline @ ''=== Port '' @ fmt_u (unat port_num) @ '' Information ==='' @ newline
     @ field ''State:             '' (state_str (pa_state a))
     @ field ''Link layer:        '' (link_str (pa_link_layer a))
     @ field ''Active MTU:        '' (mtu_str (pa_active_mtu a) @ '' bytes'')
     @ field ''LID:               '' (fmt_u (unat (pa_lid a)))
     @ field ''SM LID:            '' (fmt_u (unat (pa_sm_lid a)))
     @ field ''Max message size:  0x'' (fmt_x (unat (pa_max_msg_sz a)))
     @ field ''GID table length:  '' (fmt_d (pa_gid_tbl_len a))
     @ field ''PKey table length: '' (fmt_u (unat (pa_pkey_tbl_len a)))"

definition print_port_info :: "ibv_port_attr \<Rightarrow> u8 \<Rightarrow> unit io" where
  "print_port_info a port_num = put (port_text a port_num)"

section \<open>The GID table\<close>

definition gid_type :: "gid \<Rightarrow> string" where
  "gid_type g =
     (if gid_raw g ! 0 = 0xfe \<and> gid_raw g ! 1 = 0x80 then ''link-local''
      else if gid_raw g ! 0 = 0 \<and> gid_raw g ! 1 = 0 \<and> gid_raw g ! 10 = 0xff \<and> gid_raw g ! 11 = 0xff
      then ''IPv4-mapped''
      else ''IPv6'')"

definition gid_line :: "nat \<Rightarrow> gid \<Rightarrow> string" where
  "gid_line i g = ''  GID['' @ fmt_2d i @ ''] ('' @ gid_type g @ ''): '' @ gid_text g @ newline"

text \<open>The loop over the indices, with the count of the lines shown.\<close>

fun gid_rows :: "ptr \<Rightarrow> u8 \<Rightarrow> nat list \<Rightarrow> nat \<Rightarrow> nat io" where
  "gid_rows ctx port_num [] shown = ret shown"
| "gid_rows ctx port_num (i # is) shown =
     bnd (sys_gid (Vb (Ibv_query_gid ctx port_num (int i)))) (\<lambda>(r, gid).
       if r \<noteq> 0 then gid_rows ctx port_num is shown
       else if list_all (\<lambda>b. b = 0) (gid_raw gid) then gid_rows ctx port_num is shown
       else seq (put (gid_line i gid)) (gid_rows ctx port_num is (shown + 1)))"

definition print_gid_table :: "ptr \<Rightarrow> u8 \<Rightarrow> int \<Rightarrow> unit io" where
  "print_gid_table ctx port_num gid_tbl_len =
     seq (put (newline @ ''=== GID Table (Port '' @ fmt_u (unat port_num) @ '') ==='' @ newline)) (
     bnd (gid_rows ctx port_num
       [0..<nat (if gid_tbl_len < MAX_GID_DISPLAY then gid_tbl_len else MAX_GID_DISPLAY)] 0) (\<lambda>shown.
     if shown = 0 then put (''  (no non-zero GID entries found)'' @ newline) else ret ()))"

section \<open>Main\<close>

definition found_text :: "ibv_device list \<Rightarrow> string" where
  "found_text devs =
     ''Found '' @ fmt_u (length devs) @ '' RDMA device(s):'' @ newline
     @ concat (map (\<lambda>(i, d). ''  ['' @ fmt_u i @ ''] '' @ dev_name d @ '' (GUID: ''
         @ fmt_0x 16 (unat (dev_guid d)) @ '')'' @ newline) (enumerate 0 devs))"

text \<open>Step 1: the device list is freed on every path, also before each exit.\<close>

definition hv_open :: "string option \<Rightarrow> (ibv_device \<times> ptr) io" where
  "hv_open requested_dev =
     bnd sys_devs (\<lambda>(dev_list, devs).
       if dev_list = 0 then DIE
       else seq (put (found_text devs)) (
         if length devs = 0 then seq (sysv (Vb (Ibv_free_device_list dev_list))) DIE
         else case (case requested_dev of Some n \<Rightarrow> find_named devs n | None \<Rightarrow> Some (hd devs)) of
           None \<Rightarrow> seq (sysv (Vb (Ibv_free_device_list dev_list))) DIE
         | Some ib_dev \<Rightarrow>
             seq (put ((if requested_dev = None
                 then newline @ ''No device specified; using first device: '' @ dev_name ib_dev @ newline else [])
               @ newline @ ''Opening device: '' @ dev_name ib_dev @ newline)) (
             bnd (sysp (Vb (Ibv_open_device (dev_ptr ib_dev)))) (\<lambda>ctx.
               if ctx = 0 then seq (sysv (Vb (Ibv_free_device_list dev_list))) DIE
               else seq (sysv (Vb (Ibv_free_device_list dev_list))) (ret (ib_dev, ctx))))))"

record hv_state =
  hv_ctx :: ptr
  hv_pd :: ptr
  hv_cq :: ptr
  hv_buf :: ptr
  hv_mr :: ibv_mr
  hv_qp :: ibv_qp

text \<open>Steps 2 and 3.\<close>

definition hv_query :: "ptr \<Rightarrow> ibv_port_attr io" where
  "hv_query ctx =
     bnd (sys_devattr (Vb (Ibv_query_device ctx))) (\<lambda>(r, dev_attr).
     if r \<noteq> 0 then DIE
     else seq (print_device_capabilities dev_attr) (
     bnd (sys_port (Vb (Ibv_query_port ctx 1))) (\<lambda>(r, port_attr).
     if r \<noteq> 0 then DIE
     else seq (print_port_info port_attr 1) (
     seq (print_gid_table ctx 1 (pa_gid_tbl_len port_attr)) (
     ret port_attr)))))"

definition hv_qp_init_attr :: "ptr \<Rightarrow> qp_init_attr" where
  "hv_qp_init_attr cq =
     \<lparr>qi_send_cq = cq, qi_recv_cq = cq, qi_srq = 0,
      qi_cap = \<lparr>max_send_wr = 16, max_recv_wr = 16, max_send_sge = 1, max_recv_sge = 1,
        max_inline_data = 0\<rparr>,
      qi_qp_type = IBV_QPT_RC, qi_sq_sig_all = 1\<rparr>"

text \<open>Steps 4 to 7.\<close>

definition hv_create :: "ptr \<Rightarrow> hv_state io" where
  "hv_create ctx =
     bnd (sysp (Vb (Ibv_alloc_pd ctx))) (\<lambda>pd. if pd = 0 then DIE else
     bnd (sysp (Vb (Ibv_create_cq ctx 16))) (\<lambda>cq. if cq = 0 then DIE else
     bnd (sysp (Os (Malloc HV_BUFFER_SIZE))) (\<lambda>buf. if buf = 0 then DIE else
     seq (sysv (Os (Mem_store buf (replicate HV_BUFFER_SIZE 0)))) (
     bnd (sys_mr (Vb (Ibv_reg_mr pd buf HV_BUFFER_SIZE
       {IBV_ACCESS_LOCAL_WRITE, IBV_ACCESS_REMOTE_WRITE, IBV_ACCESS_REMOTE_READ}))) (\<lambda>mr.
     if mr_ptr mr = 0 then DIE else
     bnd (sys_qp (Vb (Ibv_create_qp pd (hv_qp_init_attr cq)))) (\<lambda>qp. if qp_ptr qp = 0 then DIE else
     ret \<lparr>hv_ctx = ctx, hv_pd = pd, hv_cq = cq, hv_buf = buf, hv_mr = mr, hv_qp = qp\<rparr>))))))"

text \<open>Step 9: a destructor that fails is reported, and the next one is called all the same.\<close>

definition warn_unless :: "int \<Rightarrow> string \<Rightarrow> unit io" where
  "warn_unless r s = (if r \<noteq> 0 then ret () else put (''  '' @ s @ newline))"

definition hv_cleanup :: "hv_state \<Rightarrow> unit io" where
  "hv_cleanup s =
     bnd (sys (Vb (Ibv_destroy_qp (qp_ptr (hv_qp s))))) (\<lambda>r. seq (warn_unless r ''QP destroyed'') (
     bnd (sys (Vb (Ibv_dereg_mr (mr_ptr (hv_mr s))))) (\<lambda>r. seq (warn_unless r ''MR deregistered'') (
     seq (sysv (Os (Free (hv_buf s)))) (
     seq (put (''  Buffer freed'' @ newline)) (
     bnd (sys (Vb (Ibv_destroy_cq (hv_cq s)))) (\<lambda>r. seq (warn_unless r ''CQ destroyed'') (
     bnd (sys (Vb (Ibv_dealloc_pd (hv_pd s)))) (\<lambda>r. seq (warn_unless r ''PD deallocated'') (
     bnd (sys (Vb (Ibv_close_device (hv_ctx s)))) (\<lambda>r. seq (warn_unless r ''Device closed'') (
     put (newline @ ''All resources freed successfully. Done.'' @ newline)))))))))))))"

definition summary_text :: "ibv_device \<Rightarrow> ibv_port_attr \<Rightarrow> hv_state \<Rightarrow> string" where
  "summary_text dev port_attr s =
     newline @ ''=== Resource Summary ==='' @ newline
     @ field ''Device:  '' (dev_name dev)
     @ field ''Port:    '' (fmt_u 1 @ '' ('' @ (if pa_state port_attr = IBV_PORT_ACTIVE then ''ACTIVE'' else ''NOT ACTIVE'')
         @ '', '' @ (if pa_link_layer port_attr = IBV_LINK_LAYER_ETHERNET then ''Ethernet'' else ''InfiniBand'') @ '')'')
     @ field ''PD:      '' ''allocated''"

definition resource_text :: "hv_state \<Rightarrow> string" where
  "resource_text s =
     field ''MR:      '' (fmt_u HV_BUFFER_SIZE @ '' bytes, lkey=0x'' @ fmt_0x 8 (unat (mr_lkey (hv_mr s)))
       @ '', rkey=0x'' @ fmt_0x 8 (unat (mr_rkey (hv_mr s))))
     @ field ''QP:      '' (''num='' @ fmt_u (unat (qp_num (hv_qp s))) @ '', type=RC, state=RESET'')
     @ newline @ ''Cleaning up resources...'' @ newline"

definition hv_main :: "string option \<Rightarrow> int io" where
  "hv_main requested_dev =
     bnd (hv_open requested_dev) (\<lambda>(dev, ctx).
     bnd (hv_query ctx) (\<lambda>port_attr.
     bnd (hv_create ctx) (\<lambda>s.
     seq (put (summary_text dev port_attr s)) (
     seq (put (resource_text s)) (
     seq (hv_cleanup s) (
     ret 0))))))"

section \<open>The program keeps to the contract\<close>

definition hv_ledger :: "hv_state \<Rightarrow> ledger" where
  "hv_ledger s =
     [qp_res (qp_ptr (hv_qp s)) (hv_pd s) (hv_cq s) IBV_QPT_RC IBV_QPS_RESET,
      mr_res (hv_mr s) (hv_pd s) (hv_buf s) HV_BUFFER_SIZE
        {IBV_ACCESS_LOCAL_WRITE, IBV_ACCESS_REMOTE_WRITE, IBV_ACCESS_REMOTE_READ},
      buf_res (hv_buf s) HV_BUFFER_SIZE, cq_res (hv_cq s) (hv_ctx s), pd_res (hv_pd s) (hv_ctx s),
      ctx_res (hv_ctx s)]"

lemma keeps_put [obeys_rules]: "Q (Ret ()) L \<Longrightarrow> keeps v (put s) L Q"
  by (auto simp: put_def intro!: obeys_rules)

lemma keeps_warn_unless [obeys_rules]: "Q (Ret ()) L \<Longrightarrow> keeps v (warn_unless r s) L Q"
  by (auto simp: warn_unless_def intro!: obeys_rules)

lemma keeps_gid_rows [obeys_rules]:
  assumes "live L (KCtx ctx)" "\<And>n. Q (Ret n) L"
  shows "keeps v (gid_rows ctx p is n) L Q"
proof (induction "is" arbitrary: n)
  case (Cons i "is")
  with assms show ?case by (auto intro!: obeys_rules)
qed (simp add: assms)

lemma keeps_hv_query [obeys_rules]:
  assumes "live L (KCtx ctx)" "\<And>a. Q (Ret a) L" "Q (Exit 1) L"
  shows "keeps v (hv_query ctx) L Q"
  using assms
  by (auto simp: hv_query_def print_device_capabilities_def print_port_info_def print_gid_table_def
      DIE_def EXIT_FAILURE_def intro!: obeys_rules)

lemma keeps_hv_open [obeys_rules]:
  assumes "Q (Exit 1) []" "\<And>d c. c \<noteq> 0 \<Longrightarrow> Q (Ret (d, c)) [ctx_res c]"
  shows "keeps v (hv_open dev) [] Q"
  using assms
  by (auto simp: hv_open_def DIE_def EXIT_FAILURE_def ledger_simps intro!: obeys_rules
      split: option.split)

definition no_list :: "ledger \<Rightarrow> bool" where
  "no_list L \<longleftrightarrow> (\<forall>p. \<not> live L (KDevs p))"

lemma keeps_hv_create [obeys_rules]:
  assumes "\<And>s L. hv_buf s \<noteq> 0 \<Longrightarrow> hv_ctx s = ctx \<Longrightarrow> L = hv_ledger s \<Longrightarrow> Q (Ret s) L"
    and "\<And>L. no_list L \<Longrightarrow> Q (Exit 1) L"
  shows "keeps v (hv_create ctx) [ctx_res ctx] Q"
  unfolding hv_create_def
  by (auto intro!: obeys_rules assms
      simp: ledger_simps hv_qp_init_attr_def hv_ledger_def DIE_def EXIT_FAILURE_def no_list_def)

lemma keeps_hv_cleanup [obeys_rules]:
  assumes "hv_buf s \<noteq> 0" "Q (Ret ()) []"
  shows "keeps v (hv_cleanup s) (hv_ledger s) Q"
  unfolding hv_cleanup_def hv_ledger_def
  using assms by (auto intro!: obeys_rules simp: ledger_simps)

lemma keeps_hv_main:
  "keeps v (hv_main dev) [] (\<lambda>r L. no_list L \<and> (\<forall>n. r = Ret n \<longrightarrow> n = 0 \<and> L = []))"
  unfolding hv_main_def
  by (auto intro!: obeys_rules simp: no_list_def ledger_simps)

section \<open>What the program prints\<close>

fun printed_by :: "event \<Rightarrow> string" where
  "printed_by (Os (Print s), r) = s"
| "printed_by _ = []"

definition printed :: "event list \<Rightarrow> string" where
  "printed es = concat (map printed_by es)"

lemma printed_simps [simp]:
  "printed [] = []" "printed (e # es) = printed_by e @ printed es"
  "printed (es @ es') = printed es @ printed es'"
  by (simp_all add: printed_def)

lemma le_value_zeros: "list_all (\<lambda>b. b = 0) bs \<Longrightarrow> le_value bs = 0"
  by (induction bs) auto

lemma gid_raw_zero: "list_all (\<lambda>b. b = 0) (gid_raw g) \<longleftrightarrow> g = 0"
proof
  assume "list_all (\<lambda>b. b = 0) (gid_raw g)"
  then have "le_value (gid_raw g) = 0" by (rule le_value_zeros)
  then have "unat g mod 256 ^ 16 = 0" by (simp add: gid_raw_def le_value_le_bytes)
  with unat_bound [of g] show "g = 0" by (simp add: unat_eq_zero)
next
  have "list_all (\<lambda>b. b = 0) (le_bytes n 0)" for n by (induction n) auto
  then show "g = 0 \<Longrightarrow> list_all (\<lambda>b. b = 0) (gid_raw g)" by (simp add: gid_raw_def)
qed

text \<open>The rows of a table of answers that are worth a line.\<close>

definition gid_shown :: "(int \<Rightarrow> int \<times> gid) \<Rightarrow> nat list \<Rightarrow> nat list" where
  "gid_shown tbl is = filter (\<lambda>i. fst (tbl (int i)) = 0 \<and> snd (tbl (int i)) \<noteq> 0) is"

lemma gid_shown_simps [simp]:
  "gid_shown tbl [] = []"
  "gid_shown tbl (i # is) =
     (if fst (tbl (int i)) = 0 \<and> snd (tbl (int i)) \<noteq> 0 then i # gid_shown tbl is else gid_shown tbl is)"
  by (simp_all add: gid_shown_def)

lemma gid_rows_prints:
  assumes "\<And>h i. env_gid v h (Vb (Ibv_query_gid ctx p i)) = tbl i"
  shows "\<exists>es. gid_rows ctx p is n v h = (Ret (n + length (gid_shown tbl is)), es) \<and>
    printed es = concat (map (\<lambda>i. gid_line i (snd (tbl (int i)))) (gid_shown tbl is))"
proof (induction "is" arbitrary: n h)
  case (Cons i "is")
  let ?q = "(Vb (Ibv_query_gid ctx p (int i)), RGid (fst (tbl (int i))) (snd (tbl (int i))))"
  let ?l = "gid_line i (snd (tbl (int i)))"
  from Cons [of n "h @ [?q]"] Cons [of "n + 1" "(h @ [?q]) @ [(Os (Print ?l), RVoid)]"] show ?case
    by (auto simp: bnd_def seq_def sys_gid_def put_def sysv_def assms gid_raw_zero
        split: prod.splits)
qed (simp add: run_simps)

text \<open>Whatever the destructors answer, the last text printed claims that they succeeded.\<close>

definition ends_with :: "string \<Rightarrow> unit io \<Rightarrow> bool" where
  "ends_with t m \<longleftrightarrow> (\<forall>v h. \<exists>es pre. m v h = (Ret (), es) \<and> printed es = pre @ t)"

lemma ends_with_put: "ends_with t (put t)"
  by (simp add: ends_with_def put_def sysv_def)

lemma ends_with_seq:
  assumes "\<And>v h. \<exists>a es. m v h = (Ret a, es)" "ends_with t n"
  shows "ends_with t (seq m n)"
  unfolding ends_with_def
proof (intro allI)
  fix v h
  obtain a es where m: "m v h = (Ret a, es)" using assms(1) by blast
  obtain es' pre where "n v (h @ es) = (Ret (), es')" "printed es' = pre @ t"
    using assms(2) unfolding ends_with_def by blast
  with m have "seq m n v h = (Ret (), es @ es')" "printed (es @ es') = (printed es @ pre) @ t"
    by (simp_all add: run_seq)
  then show "\<exists>es pre. seq m n v h = (Ret (), es) \<and> printed es = pre @ t" by blast
qed

lemma ends_with_sys:
  assumes "\<And>r. ends_with t (f r)"
  shows "ends_with t (bnd (sys c) f)"
  unfolding ends_with_def
proof (intro allI)
  fix v :: env and h
  let ?r = "env_int v h c"
  obtain es' pre where "f ?r v (h @ [(c, RInt ?r)]) = (Ret (), es')" "printed es' = pre @ t"
    using assms unfolding ends_with_def by blast
  then have "bnd (sys c) f v h = (Ret (), (c, RInt ?r) # es')"
    "printed ((c, RInt ?r) # es') = (printed_by (c, RInt ?r) @ pre) @ t"
    by (simp_all add: run_bnd sys_def)
  then show "\<exists>es pre. bnd (sys c) f v h = (Ret (), es) \<and> printed es = pre @ t" by blast
qed

lemma hv_claims_success:
  "ends_with (newline @ ''All resources freed successfully. Done.'' @ newline) (hv_cleanup s)"
  unfolding hv_cleanup_def
  by (intro ends_with_sys ends_with_seq ends_with_put) (auto simp: warn_unless_def put_def sysv_def run_simps)

section \<open>Properties\<close>

text \<open>C13: The program keeps to the verbs contract on every path.  It frees the device list whatever
  happens, also before it exits because there is no device or not the one asked for, and a run that
  returns has destroyed everything it created.\<close>

theorem hv_main_contract:
  assumes "hv_main dev v h = (r, es)"
  shows "clean es \<and> no_list (leftover es) \<and> (r = Ret 0 \<longrightarrow> leftover es = [])"
proof -
  have "no_list []" by (simp add: no_list_def ledger_simps)
  then show ?thesis
    using keeps_clean [OF keeps_hv_main assms] obeysD [OF keeps_hv_main assms]
    by (cases "mon_run contract [] es") (auto simp: leftover_def)
qed

text \<open>C37: The GID table shown is the table of the port.  When the queries of the port answer as \<open>tbl\<close>
  says, \<open>print_gid_table\<close> prints one line, with index, type and value, for each of the first 16
  indices of the table (or all, if there are fewer) whose query succeeds with a GID other than zero,
  in order, and says so if there is none.\<close>

theorem hv_gid_table:
  assumes "\<And>h i. env_gid v h (Vb (Ibv_query_gid ctx p i)) = tbl i"
  shows "\<exists>es. print_gid_table ctx p len v h = (Ret (), es) \<and>
    printed es = newline @ ''=== GID Table (Port '' @ fmt_u (unat p) @ '') ==='' @ newline @
      (let rows = filter (\<lambda>i. fst (tbl (int i)) = 0 \<and> snd (tbl (int i)) \<noteq> 0) [0..<nat (min len 16)]
       in if rows = [] then ''  (no non-zero GID entries found)'' @ newline
          else concat (map (\<lambda>i. gid_line i (snd (tbl (int i)))) rows))"
proof -
  let ?is = "[0..<nat (min len 16)]"
  let ?t = "newline @ ''=== GID Table (Port '' @ fmt_u (unat p) @ '') ==='' @ newline"
  have m: "(if len < MAX_GID_DISPLAY then len else MAX_GID_DISPLAY) = min len 16"
    by (simp add: MAX_GID_DISPLAY_def min_def)
  obtain es where g: "gid_rows ctx p ?is 0 v (h @ [(Os (Print ?t), RVoid)]) = (Ret (length (gid_shown tbl ?is)), es)"
    "printed es = concat (map (\<lambda>i. gid_line i (snd (tbl (int i)))) (gid_shown tbl ?is))"
    using gid_rows_prints [of v ctx p tbl ?is 0 "h @ [(Os (Print ?t), RVoid)]"] assms by auto
  then show ?thesis
    unfolding print_gid_table_def m gid_shown_def [symmetric] Let_def
    by (auto simp: run_bnd run_seq put_def sys_defs run_simps)
qed

text \<open>The program in the concrete environment, where the two rows of the table hold the same GID.\<close>

lemmas lab_hv = lab_rc hv_main_def hv_open_def hv_query_def hv_create_def hv_cleanup_def put_def
  print_device_capabilities_def print_port_info_def print_gid_table_def warn_unless_def DIE_def
  MAX_GID_DISPLAY_def

lemma hv_main_contract_witness:
  "\<exists>es. hv_main (Some ''mlx5_1'') (lab_env 17 5 []) [] = (Ret 0, es) \<and> clean es \<and> leftover es = []"
proof -
  have u: "[0..<2] = [0, 1 :: nat]" by (simp add: upt_rec)
  obtain es where r: "hv_main (Some ''mlx5_1'') (lab_env 17 5 []) [] = (Ret 0, es)"
    by (simp add: lab_hv u gid_raw_zero)
  show ?thesis using hv_main_contract [OF r] r by blast
qed

lemma hv_gid_table_witness:
  "\<exists>es. print_gid_table 4096 1 2 (lab_env 17 5 []) [] = (Ret (), es) \<and>
     printed es = newline @ ''=== GID Table (Port '' @ fmt_u (unat (1 :: u8)) @ '') ==='' @ newline
       @ gid_line 0 5 @ gid_line 1 5"
proof -
  have u: "[0..<2] = [0, 1 :: nat]" by (simp add: upt_rec)
  show ?thesis
    using hv_gid_table [where v = "lab_env 17 5 []" and ctx = 4096 and p = 1 and len = 2 and h = "[]"
        and tbl = "\<lambda>i. (0, 5)"]
    by (simp add: lab_env_simps u)
qed

end
