(* ===== verification/Sound.thy ===== *)
theory Sound
  imports Contract
begin

text \<open>
  What the contract keeps of every ledger, whatever calls are made: no key is live twice, every
  resource outlives the ones that need it, and blocks of memory do not overlap.  Also a monitor that
  remembers, next to its state, what the calls so far were.
\<close>

section \<open>Sound ledgers\<close>

definition apart_blocks :: "res \<Rightarrow> res \<Rightarrow> bool" where
  "apart_blocks r r' \<longleftrightarrow> (\<forall>p n. res_info r = Block p n \<longrightarrow> \<not> clash p n (res_info r'))"

definition sound :: "ledger \<Rightarrow> bool" where
  "sound L \<longleftrightarrow> distinct (map res_key L) \<and> wf_ledger L \<and> sorted_wrt apart_blocks L"

lemma live_set: "live L k \<longleftrightarrow> k \<in> res_key ` set L"
  by (auto simp: live_def)

lemma live_append [simp]: "live (K @ L) k \<longleftrightarrow> live K k \<or> live L k"
  by (auto simp: live_def)

lemma needed_append [simp]: "needed (K @ L) k \<longleftrightarrow> needed K k \<or> needed L k"
  by (auto simp: needed_def)

lemma sound_Nil [simp]: "sound []"
  by (simp add: sound_def)

lemma sound_Cons:
  assumes "sound L" "\<not> live L (res_key r)" "\<forall>k \<in> set (res_needs r). live L k"
    and "\<And>p n. res_info r = Block p n \<Longrightarrow> \<forall>r' \<in> set L. \<not> clash p n (res_info r')"
  shows "sound (r # L)"
  using assms by (auto simp: sound_def live_set apart_blocks_def)

lemma wf_filter: "wf_ledger L \<Longrightarrow> \<not> needed L k \<Longrightarrow> wf_ledger (filter (\<lambda>r. res_key r \<noteq> k) L)"
  by (induction L) (auto simp: ledger_simps live_def)

lemma sound_filter: "sound L \<Longrightarrow> \<not> needed L k \<Longrightarrow> sound (filter (\<lambda>r. res_key r \<noteq> k) L)"
  by (auto simp: sound_def wf_filter distinct_map_filter sorted_wrt_filter)

text \<open>Changing what the ledger remembers of a resource that is no block keeps it sound.\<close>

lemma map_same:
  assumes "\<And>r. res_key (f r) = res_key r" "\<And>r. res_needs (f r) = res_needs r"
  shows "live (map f L) k = live L k" "needed (map f L) k = needed L k" "wf_ledger (map f L) = wf_ledger L"
proof -
  show l: "live (map f L) k = live L k" "needed (map f L) k = needed L k" for L k
    using assms by (auto simp: live_def needed_def)
  show "wf_ledger (map f L) = wf_ledger L"
    by (induction L) (simp_all add: assms l)
qed

lemma sound_map:
  assumes "sound L" "\<And>r. res_key (f r) = res_key r" "\<And>r. res_needs (f r) = res_needs r"
    and "\<And>r p n. res_info (f r) = Block p n \<Longrightarrow> res_info r = Block p n"
  shows "sound (map f L)"
proof -
  have c: "clash p n (res_info (f r)) \<Longrightarrow> clash p n (res_info r)" for p n r
    using assms(4) [of r] by (cases "res_info (f r)") auto
  have "apart_blocks r r' \<Longrightarrow> apart_blocks (f r) (f r')" for r r'
    using c assms(4) unfolding apart_blocks_def by blast
  then have "sorted_wrt apart_blocks (map f L)"
    using assms(1) unfolding sorted_wrt_map sound_def by (blast intro: sorted_wrt_mono_rel)
  then show ?thesis
    using assms(1) by (simp add: sound_def comp_def assms(2) map_same(3) [OF assms(2,3)])
qed

lemma sound_set_qp_state: "sound L \<Longrightarrow> sound (set_qp_state q st L)"
  unfolding set_qp_state_def by (rule sound_map) (auto split: info.splits if_splits)

lemma sound_set_id: "sound L \<Longrightarrow> sound (set_id i ph q L)"
  unfolding set_id_def by (rule sound_map) (auto split: if_splits)

lemma sound_open_lib: "sound L \<Longrightarrow> sound (open_lib c L)"
proof -
  have "wf_ledger (L @ [r])" if "wf_ledger L" "res_needs r = []" for L r
    using that by (induction L) auto
  then show "sound L \<Longrightarrow> sound (open_lib c L)"
    by (auto simp: sound_def open_lib_def live_set sorted_wrt_append apart_blocks_def)
qed

lemma live_changed [simp]:
  "live (set_qp_state q st L) k = live L k" "live (set_id i ph q' L) k = live L k"
  "needed (set_qp_state q st L) k = needed L k" "needed (set_id i ph q' L) k = needed L k"
  "live (open_lib c L) k \<longleftrightarrow> live L k \<or> k = KCtx c"
  "needed (open_lib c L) k = needed L k"
proof -
  show "live (set_qp_state q st L) k = live L k" "needed (set_qp_state q st L) k = needed L k"
    unfolding set_qp_state_def by (rule map_same; simp split: info.split)+
  show "live (set_id i ph q' L) k = live L k" "needed (set_id i ph q' L) k = needed L k"
    unfolding set_id_def by (rule map_same; simp)+
qed (auto simp: open_lib_def ledger_simps)

section \<open>Every call keeps the ledger sound\<close>

lemma Live_acquire:
  "acquire k ns i L = Live L' \<Longrightarrow> sound L \<Longrightarrow> (\<And>p n. i \<noteq> Block p n) \<Longrightarrow> sound L'"
  "acquire_ptr p k ns i L = Live L' \<Longrightarrow> sound L \<Longrightarrow> (\<And>p n. i \<noteq> Block p n) \<Longrightarrow> sound L'"
  "acquire_mr m a i pd L = Live L' \<Longrightarrow> sound L \<Longrightarrow> (\<And>p n. i \<noteq> Block p n) \<Longrightarrow> sound L'"
  "acquire_block p n kk L = Live L' \<Longrightarrow> sound L \<Longrightarrow> sound L'"
  by (auto simp: acquire_ptr_def acquire_mr_def acquire_block_def acquire_def intro!: sound_Cons split: if_splits)

lemma Live_release:
  "release k L = Live L' \<Longrightarrow> sound L \<Longrightarrow> sound L'"
  "release_rc rc k L = Live L' \<Longrightarrow> sound L \<Longrightarrow> sound L'"
  "release_block p k L = Live L' \<Longrightarrow> sound L \<Longrightarrow> sound L'"
  "use ks L = Live L' \<Longrightarrow> sound L \<Longrightarrow> sound L'"
  "require b L = Live L' \<Longrightarrow> sound L \<Longrightarrow> sound L'"
  "modify q a m rc L = Live L' \<Longrightarrow> sound L \<Longrightarrow> sound L'"
  "cm_move j ok ph rc L = Live L' \<Longrightarrow> sound L \<Longrightarrow> sound L'"
  by (auto simp: release_rc_def release_block_def release_def use_def require_def modify_def cm_move_def
      sound_filter sound_set_qp_state sound_set_id split: if_splits verdict.splits option.splits prod.splits)

lemma Live_deliver: "cm_deliver e L = Live L' \<Longrightarrow> sound L \<Longrightarrow> sound L'"
  by (auto simp: cm_deliver_def intro!: sound_Cons sound_open_lib sound_set_qp_state sound_set_id
      split: if_splits option.splits prod.splits)

lemma contract_sound:
  assumes "contract L e = Live L'" "sound L"
  shows "sound L'"
proof (cases e)
  case (Pair c r)
  show ?thesis
  proof (cases c)
    case (Os d)
    with assms Pair show ?thesis
      by (cases d) (auto dest: Live_acquire Live_release split: if_splits)
  next
    case (Vb d)
    with assms Pair show ?thesis
      by (cases d) (auto dest: Live_acquire Live_release)
  next
    case (Cm d)
    with assms Pair show ?thesis
      by (cases d) (auto dest: Live_acquire Live_release Live_deliver
        Live_acquire(1) [OF _ sound_set_id] Live_release(1) [OF _ sound_set_id] split: if_splits option.splits)
  qed
qed

lemma fair_sound: "sound L \<Longrightarrow> fair (\<lambda>L'. sound L' \<longrightarrow> P L') (contract L e) \<Longrightarrow> fair P (contract L e)"
  using contract_sound [of L e] by (cases "contract L e") auto

lemma sound_tail: "sound (r # L) \<Longrightarrow> sound L"
  by (simp add: sound_def)

lemma obeys_invariant:
  assumes "\<And>s e s'. I s \<Longrightarrow> \<delta> s e = Live s' \<Longrightarrow> I s'" "I s" "obeys \<delta> v m s (\<lambda>r s'. I s' \<longrightarrow> Q r s')"
  shows "obeys \<delta> v m s Q"
  unfolding obeys_def
proof
  fix h
  have inv: "mon_run \<delta> s es = Live s' \<Longrightarrow> I s \<Longrightarrow> I s'" for es s s'
    using assms(1) by (induction es arbitrary: s) (auto split: verdict.splits)
  show "fair (Q (fst (m v h))) (mon_run \<delta> s (snd (m v h)))"
    using assms(3) inv [OF _ assms(2)] unfolding obeys_def
    by (cases "mon_run \<delta> s (snd (m v h))") (auto dest: spec [where x = h])
qed

lemma keeps_sound:
  "sound L \<Longrightarrow> keeps v m L (\<lambda>r L'. sound L' \<longrightarrow> Q r L') \<Longrightarrow> keeps v m L Q"
  by (rule obeys_invariant [where I = sound]) (auto intro: contract_sound)

section \<open>A monitor with a memory\<close>

definition paired :: "('s \<Rightarrow> 'e \<Rightarrow> 's verdict) \<Rightarrow> ('e \<Rightarrow> 'x list) \<Rightarrow> 's \<times> 'x list \<Rightarrow> 'e \<Rightarrow> ('s \<times> 'x list) verdict" where
  "paired \<delta> T s e =
     (case \<delta> (fst s) e of Live s' \<Rightarrow> Live (s', snd s @ T e) | Breach \<Rightarrow> Breach | Misuse \<Rightarrow> Misuse)"

lemma fair_paired [simp]: "fair P (paired \<delta> T (s, xs) e) = fair (\<lambda>s'. P (s', xs @ T e)) (\<delta> s e)"
  by (simp add: paired_def split: verdict.split)

lemma mon_run_paired:
  "mon_run (paired \<delta> T) (s, xs) es =
     (case mon_run \<delta> s es of Live s' \<Rightarrow> Live (s', xs @ concat (map T es)) | Breach \<Rightarrow> Breach | Misuse \<Rightarrow> Misuse)"
  by (induction es arbitrary: s xs) (auto simp: paired_def split: verdict.splits)

text \<open>A part whose calls are not remembered is judged by the plain monitor.\<close>

lemma obeys_paired:
  assumes "obeys \<delta> v m s (\<lambda>r s'. Q r (s', xs))" "only (\<lambda>e. T e = []) m"
  shows "obeys (paired \<delta> T) v m (s, xs) Q"
  unfolding obeys_def
proof
  fix h
  have "list_all (\<lambda>e. T e = []) (snd (m v h))" using assms(2) by (simp add: only_def)
  then have e: "concat (map T (snd (m v h))) = []" by (auto simp: list_all_iff)
  show "fair (Q (fst (m v h))) (mon_run (paired \<delta> T) (s, xs) (snd (m v h)))"
    using assms(1) unfolding obeys_def mon_run_paired e
    by (cases "mon_run \<delta> s (snd (m v h))") (auto dest: spec [where x = h])
qed

end
