(* ===== verification/Qp_Array.thy ===== *)
theory Qp_Array
  imports Rc_Common Sound "HOL-Library.Multiset"
begin

text \<open>
  Programs with many queue pairs keep them in arrays, filled and emptied slot by slot; an unused slot
  is 0.  \<open>qps_on B ps st L\<close>: the ledger \<open>L\<close> is \<open>B\<close> with exactly the queue pairs of the slots \<open>ps\<close>
  on top, all different, and \<open>st\<close> gives the state of each.
\<close>

definition qps_on :: "ledger \<Rightarrow> ptr list \<Rightarrow> (ptr \<Rightarrow> qp_state) \<Rightarrow> ledger \<Rightarrow> bool" where
  "qps_on B ps st L \<longleftrightarrow>
     wf_ledger B \<and> (\<forall>q. \<not> live B (KQp q)) \<and>
     distinct (filter (\<lambda>q. q \<noteq> 0) ps) \<and>
     (\<exists>K. L = K @ B \<and>
        (\<forall>q \<in> set ps. q \<noteq> 0 \<longrightarrow> qp_entry K q = Some (IBV_QPT_RC, st q)) \<and>
        (\<forall>r \<in> set K. (\<exists>q \<in> set ps. q \<noteq> 0 \<and> res_key r = KQp q) \<and>
           (\<exists>s. res_info r = Queue IBV_QPT_RC s) \<and> (\<forall>k \<in> set (res_needs r). live B k)))"

lemma qp_entry_append: "qp_entry (K @ L) q = (if live K (KQp q) then qp_entry K q else qp_entry L q)"
  by (induction K) (auto simp: ledger_simps)

lemma qp_entry_live: "qp_entry K q = Some x \<Longrightarrow> live K (KQp q)"
  by (induction K) (auto simp: ledger_simps split: if_splits)

lemma set_qp_state_append: "set_qp_state q s (K @ L) = set_qp_state q s K @ set_qp_state q s L"
  by (simp add: set_qp_state_def)

lemma set_qp_state_id: "\<not> live L (KQp q) \<Longrightarrow> set_qp_state q s L = L"
  by (induction L) (auto simp: ledger_simps)

lemma qp_entry_set_other: "q \<noteq> q' \<Longrightarrow> qp_entry (set_qp_state q s L) q' = qp_entry L q'"
  by (induction L) (auto simp: ledger_simps split: info.split)

lemma set_qp_state_res:
  "r \<in> set (set_qp_state q s K) \<Longrightarrow> \<exists>r' \<in> set K. res_key r = res_key r' \<and> res_needs r = res_needs r' \<and>
     (res_info r = res_info r' \<or> (\<exists>t s'. res_info r' = Queue t s' \<and> res_info r = Queue t s))"
  by (force simp: set_qp_state_def split: if_splits info.splits)

section \<open>No queue pair yet\<close>

lemma qps_on_none:
  assumes "wf_ledger B" "\<And>q. \<not> live B (KQp q)" "\<forall>q \<in> set ps. q = 0"
  shows "qps_on B ps st B"
proof -
  have "filter (\<lambda>q. q \<noteq> 0) ps = []" using assms(3) by (simp add: filter_empty_conv)
  with assms show ?thesis unfolding qps_on_def by auto
qed

lemma qps_on_all_null: "qps_on B ps st L \<Longrightarrow> \<forall>q \<in> set ps. q = 0 \<Longrightarrow> L = B"
  by (auto simp: qps_on_def)

text \<open>What is live below stays live, and what is registered below stays registered.\<close>

lemma qps_on_below:
  assumes "qps_on B ps st L"
  shows "live B k \<Longrightarrow> live L k" "mem_ok B a n \<Longrightarrow> mem_ok L a n" "sge_ok B A g \<Longrightarrow> sge_ok L A g"
    "wf_ledger L"
proof -
  from assms obtain K where L: "L = K @ B" and wf: "wf_ledger B"
    and K: "\<forall>r \<in> set K. \<forall>k \<in> set (res_needs r). live B k"
    by (auto simp: qps_on_def)
  then show "live B k \<Longrightarrow> live L k" "mem_ok B a n \<Longrightarrow> mem_ok L a n" "sge_ok B A g \<Longrightarrow> sge_ok L A g"
    by (auto simp: mem_ok_def sge_ok_def)
  show "wf_ledger L" unfolding L using K by (induction K) (auto simp: wf)
qed

lemma qps_on_entry: "qps_on B ps st L \<Longrightarrow> q \<in> set ps \<Longrightarrow> q \<noteq> 0 \<Longrightarrow> qp_entry L q = Some (IBV_QPT_RC, st q)"
  by (force simp: qps_on_def qp_entry_append dest: qp_entry_live)

section \<open>Filling a slot\<close>

lemma mset_nonzero_update:
  "i < length ps \<Longrightarrow> ps ! i = 0 \<Longrightarrow> q \<noteq> 0 \<Longrightarrow>
   mset (filter (\<lambda>q. q \<noteq> 0) (ps[i := q])) = add_mset q (mset (filter (\<lambda>q. q \<noteq> 0) (ps :: ptr list)))"
proof (induction ps arbitrary: i)
  case (Cons p ps)
  then show ?case by (cases i) auto
qed simp

lemma set_nonzero_update:
  "i < length ps \<Longrightarrow> ps ! i = 0 \<Longrightarrow> q \<noteq> 0 \<Longrightarrow> q' \<noteq> 0 \<Longrightarrow>
   q' \<in> set (ps[i := q]) \<longleftrightarrow> q' = q \<or> q' \<in> set (ps :: ptr list)"
  using arg_cong [OF mset_nonzero_update, of i ps q set_mset] by auto

lemma qps_on_create:
  assumes "qps_on B ps st L" "i < length ps" "ps ! i = 0" "q \<noteq> 0" "\<not> live L (KQp q)"
    and "\<forall>k \<in> set ns. live B k"
  shows "qps_on B (ps[i := q]) (st(q := s))
    (\<lparr>res_key = KQp q, res_needs = ns, res_info = Queue IBV_QPT_RC s\<rparr> # L)"
proof -
  from assms(1) obtain K where L: "L = K @ B" and B: "wf_ledger B" "\<forall>q. \<not> live B (KQp q)"
    and d: "distinct (filter (\<lambda>q. q \<noteq> 0) ps)"
    and e: "\<forall>q \<in> set ps. q \<noteq> 0 \<longrightarrow> qp_entry K q = Some (IBV_QPT_RC, st q)"
    and K: "\<forall>r \<in> set K. (\<exists>q \<in> set ps. q \<noteq> 0 \<and> res_key r = KQp q) \<and>
      (\<exists>s. res_info r = Queue IBV_QPT_RC s) \<and> (\<forall>k \<in> set (res_needs r). live B k)"
    by (auto simp: qps_on_def)
  have new: "q \<notin> set ps"
    using assms(4,5) e by (auto simp: L dest: qp_entry_live)
  let ?r = "\<lparr>res_key = KQp q, res_needs = ns, res_info = Queue IBV_QPT_RC s\<rparr>"
  note upd = set_nonzero_update [OF assms(2-4)]
  have "distinct (filter (\<lambda>q. q \<noteq> 0) (ps[i := q]))"
    using d new mset_nonzero_update [OF assms(2-4)] mset_eq_imp_distinct_iff
      [of "filter (\<lambda>q. q \<noteq> 0) (ps[i := q])" "q # filter (\<lambda>q. q \<noteq> 0) ps"] by auto
  moreover have "\<forall>q' \<in> set (ps[i := q]). q' \<noteq> 0 \<longrightarrow>
      qp_entry (?r # K) q' = Some (IBV_QPT_RC, (st(q := s)) q')"
    using e new by (auto simp: ledger_simps upd)
  moreover have "\<forall>r \<in> set (?r # K). (\<exists>q' \<in> set (ps[i := q]). q' \<noteq> 0 \<and> res_key r = KQp q') \<and>
      (\<exists>s. res_info r = Queue IBV_QPT_RC s) \<and> (\<forall>k \<in> set (res_needs r). live B k)"
    using K assms(4,6) by (fastforce simp: upd)
  ultimately show ?thesis
    using B unfolding qps_on_def L by (intro conjI exI [of _ "?r # K"]) auto
qed

section \<open>Moving a queue pair\<close>

lemma qps_on_modify:
  assumes "qps_on B ps st L" "q \<in> set ps" "q \<noteq> 0"
  shows "qps_on B ps (st(q := s)) (set_qp_state q s L)"
proof -
  from assms(1) obtain K where L: "L = K @ B" and B: "wf_ledger B" "\<forall>q. \<not> live B (KQp q)"
    and d: "distinct (filter (\<lambda>q. q \<noteq> 0) ps)"
    and e: "\<forall>q \<in> set ps. q \<noteq> 0 \<longrightarrow> qp_entry K q = Some (IBV_QPT_RC, st q)"
    and K: "\<forall>r \<in> set K. (\<exists>q \<in> set ps. q \<noteq> 0 \<and> res_key r = KQp q) \<and>
      (\<exists>s. res_info r = Queue IBV_QPT_RC s) \<and> (\<forall>k \<in> set (res_needs r). live B k)"
    by (auto simp: qps_on_def)
  have "\<forall>q' \<in> set ps. q' \<noteq> 0 \<longrightarrow> qp_entry (set_qp_state q s K) q' = Some (IBV_QPT_RC, (st(q := s)) q')"
    using e by (auto simp: qp_entry_set qp_entry_set_other)
  moreover have "\<forall>r \<in> set (set_qp_state q s K). (\<exists>q \<in> set ps. q \<noteq> 0 \<and> res_key r = KQp q) \<and>
      (\<exists>s. res_info r = Queue IBV_QPT_RC s) \<and> (\<forall>k \<in> set (res_needs r). live B k)"
    using K by (fastforce dest!: set_qp_state_res)
  moreover have "set_qp_state q s L = set_qp_state q s K @ B"
    using B(2) by (simp add: L set_qp_state_append set_qp_state_id)
  ultimately show ?thesis using B d unfolding qps_on_def by blast
qed

section \<open>Emptying a slot\<close>

lemma qps_on_destroy:
  assumes "qps_on B (q # ps) st L" "q \<noteq> 0"
  shows "live L (KQp q)" "\<not> needed L (KQp q)" "qps_on B ps st (filter (\<lambda>r. res_key r \<noteq> KQp q) L)"
proof -
  from assms obtain K where L: "L = K @ B" and B: "wf_ledger B" "\<forall>q. \<not> live B (KQp q)"
    and d: "q \<notin> set ps" "distinct (filter (\<lambda>q. q \<noteq> 0) ps)"
    and e: "\<forall>q' \<in> set (q # ps). q' \<noteq> 0 \<longrightarrow> qp_entry K q' = Some (IBV_QPT_RC, st q')"
    and K: "\<forall>r \<in> set K. (\<exists>q' \<in> set (q # ps). q' \<noteq> 0 \<and> res_key r = KQp q') \<and>
      (\<exists>s. res_info r = Queue IBV_QPT_RC s) \<and> (\<forall>k \<in> set (res_needs r). live B k)"
    by (auto simp: qps_on_def)
  show "live L (KQp q)"
    using e assms(2) by (auto simp: L dest: qp_entry_live)
  have "\<not> needed K (KQp q)" using K B(2) by (auto simp: needed_def)
  with B show "\<not> needed L (KQp q)" by (simp add: L fresh_not_needed)
  let ?K = "filter (\<lambda>r. res_key r \<noteq> KQp q) K"
  have "qp_entry ?K q' = qp_entry K q'" if "q' \<noteq> q" for q'
    using that by (induction K) (auto simp: ledger_simps)
  then have "\<forall>q' \<in> set ps. q' \<noteq> 0 \<longrightarrow> qp_entry ?K q' = Some (IBV_QPT_RC, st q')"
    using e d(1) by (metis list.set_intros(2))
  moreover have "\<forall>r \<in> set ?K. (\<exists>q' \<in> set ps. q' \<noteq> 0 \<and> res_key r = KQp q') \<and>
      (\<exists>s. res_info r = Queue IBV_QPT_RC s) \<and> (\<forall>k \<in> set (res_needs r). live B k)"
    using K by auto
  moreover have "filter (\<lambda>r. res_key r \<noteq> KQp q) L = ?K @ B"
    using B(2) by (simp add: L filter_fresh)
  ultimately show "qps_on B ps st (filter (\<lambda>r. res_key r \<noteq> KQp q) L)"
    using B d(2) unfolding qps_on_def by blast
qed

lemma qps_on_skip: "qps_on B (0 # ps) st L \<Longrightarrow> qps_on B ps st L"
  by (auto simp: qps_on_def)

text \<open>\<^verbatim>\<open>if (qp) ibv_destroy_qp(qp);\<close> for one slot after the other empties the array.\<close>

definition destroy_slot :: "ptr \<Rightarrow> unit io" where
  "destroy_slot q = (if q \<noteq> 0 then seq (sys (Vb (Ibv_destroy_qp q))) (ret ()) else ret ())"

text \<open>\<^verbatim>\<open>if (p) destroy(p);\<close> of the other objects.\<close>

definition unless_null :: "ptr \<Rightarrow> vb_call \<Rightarrow> unit io" where
  "unless_null p c = (if p \<noteq> 0 then seq (sys (Vb c)) (ret ()) else ret ())"

lemma keeps_destroy_slot:
  assumes "qps_on B (q # ps) st L" "\<And>L'. qps_on B ps st L' \<Longrightarrow> Q (Ret ()) L'"
  shows "keeps v (destroy_slot q) L Q"
  using assms qps_on_destroy [of B q ps st L] qps_on_skip
  by (auto simp: destroy_slot_def intro!: obeys_rules)

text \<open>The slots may be listed in any order.\<close>

lemma qps_on_perm: "mset ps = mset ps' \<Longrightarrow> qps_on B ps st L \<longleftrightarrow> qps_on B ps' st L"
proof -
  assume m: "mset ps = mset ps'"
  then have "mset (filter (\<lambda>q. q \<noteq> 0) ps) = mset (filter (\<lambda>q. q \<noteq> 0) ps')"
    by simp
  then have "distinct (filter (\<lambda>q. q \<noteq> 0) ps) \<longleftrightarrow> distinct (filter (\<lambda>q. q \<noteq> 0) ps')"
    by (rule mset_eq_imp_distinct_iff)
  with mset_eq_setD [OF m] show ?thesis by (simp only: qps_on_def)
qed

section \<open>The walk of one of them\<close>

text \<open>\<^verbatim>\<open>if (a || b || c)\<close> over calls that return 0 on success.\<close>

fun first_error :: "int io list \<Rightarrow> int io" where
  "first_error [] = ret 0"
| "first_error (m # ms) = bnd m (\<lambda>r. if r \<noteq> 0 then ret 1 else first_error ms)"

context ladder
begin

lemma keeps_first_error:
  assumes "qps_on B ps st L" "q \<in> set ps" "q \<noteq> 0" "ty = IBV_QPT_RC" "st q = IBV_QPS_RESET"
    and "\<And>L'. qps_on B ps (st(q := IBV_QPS_RTS)) L' \<Longrightarrow> Q (Ret 0) L'"
    and "\<And>st' L'. qps_on B ps st' L' \<Longrightarrow> Q (Ret 1) L'"
  shows "keeps v (first_error [to_init, to_rtr, to_rts]) L Q"
proof -
  from init rtr rts obtain m1 m2 m3 where
    eq: "to_init = sys (Vb (Ibv_modify_qp q init_attr m1))"
      "to_rtr = sys (Vb (Ibv_modify_qp q rtr_attr m2))"
      "to_rts = sys (Vb (Ibv_modify_qp q rts_attr m3))"
    and ok: "edge_ok ty IBV_QPS_RESET init_attr m1" "edge_ok ty IBV_QPS_INIT rtr_attr m2"
      "edge_ok ty IBV_QPS_RTR rts_attr m3"
    by auto
  note on = qps_on_modify [OF assms(1-3)]
  have "qps_on B ps (st(q := IBV_QPS_RTS)) (set_qp_state q IBV_QPS_RTS L)" by (rule on)
  moreover have "qp_entry L q = Some (ty, IBV_QPS_RESET)"
    using qps_on_entry [OF assms(1-3)] assms(4,5) by simp
  moreover have "Q (Ret 1) (set_qp_state q s L)" for s by (rule assms(7) [OF on])
  ultimately show ?thesis
    unfolding eq using assms(1,6,7) ok
    by (auto intro!: obeys_rules
        simp: qp_entry_set set_qp_state_twice edge_state(1) [OF ok(1)] edge_state(2) [OF ok(2)]
          edge_state(3) [OF ok(3)])
qed

lemma first_error_modified:
  assumes "first_error [to_init, to_rtr, to_rts] v h = (Ret 0, es)"
  shows "modified es = [(q, init_attr, RInt 0), (q, rtr_attr, RInt 0), (q, rts_attr, RInt 0)]"
proof -
  from init rtr rts obtain m1 m2 m3 where
    "to_init = sys (Vb (Ibv_modify_qp q init_attr m1))"
    "to_rtr = sys (Vb (Ibv_modify_qp q rtr_attr m2))"
    "to_rts = sys (Vb (Ibv_modify_qp q rts_attr m3))"
    by auto
  with assms show ?thesis
    by (auto simp: bnd_eq_Ret sys_def split: if_splits)
qed

end

end
