(* ===== verification/Srq_Example.thy ===== *)
theory Srq_Example
  imports Ownership Qp_Array
begin

text \<open>
  \<^verbatim>\<open>ch11-srq-example/srq_example.c\<close>: four pairs of queue pairs connected in a loopback, whose receiving
  ends share one receive queue.  The global structure \<open>g\<close> is passed from function to function; its
  array of send buffers is static storage, the only part of \<open>g\<close> whose address is taken.
\<close>

section \<open>Parameters and global state\<close>

definition NUM_QPS :: nat where "NUM_QPS = 4"
definition SRQ_MAX_WR :: nat where "SRQ_MAX_WR = 64"
definition SRQ_LIMIT :: int where "SRQ_LIMIT = 16"
definition SRQ_BUFFER_SIZE :: nat where "SRQ_BUFFER_SIZE = 256"
definition NUM_SRQ_BUFFERS :: nat where "NUM_SRQ_BUFFERS = 32"
definition CQ_SIZE :: nat where "CQ_SIZE = 128"

lemmas srq_sizes = NUM_QPS_def SRQ_MAX_WR_def SRQ_BUFFER_SIZE_def NUM_SRQ_BUFFERS_def CQ_SIZE_def

record srq_g =
  g_ctx :: ptr
  g_pd :: ptr
  g_cq :: ptr
  g_srq :: ptr
  g_send_qps :: "ibv_qp list"
  g_recv_qps :: "ibv_qp list"
  g_pool_mr :: ibv_mr
  g_send_mr :: ibv_mr
  g_recv_pool :: ptr
  g_send_bufs :: ptr
  g_lid :: u16
  g_port_num :: u8

definition null_qp :: ibv_qp where "null_qp = \<lparr>qp_ptr = 0, qp_num = 0\<rparr>"
definition null_mr :: ibv_mr where "null_mr = \<lparr>mr_ptr = 0, mr_addr = 0, mr_lkey = 0, mr_rkey = 0\<rparr>"

text \<open>\<^verbatim>\<open>memset(&g, 0, sizeof(g))\<close>; \<open>sb\<close> is the address of \<^verbatim>\<open>g.send_bufs\<close>.\<close>

definition srq_zero :: "ptr \<Rightarrow> srq_g" where
  "srq_zero sb = \<lparr>g_ctx = 0, g_pd = 0, g_cq = 0, g_srq = 0, g_send_qps = replicate NUM_QPS null_qp,
     g_recv_qps = replicate NUM_QPS null_qp, g_pool_mr = null_mr, g_send_mr = null_mr,
     g_recv_pool = 0, g_send_bufs = sb, g_lid = 0, g_port_num = 0\<rparr>"

section \<open>Buffers and queue pair transitions\<close>

definition get_buffer :: "srq_g \<Rightarrow> int \<Rightarrow> ptr" where
  "get_buffer g idx = g_recv_pool g + word_of_int (idx * int SRQ_BUFFER_SIZE)"

definition post_srq_recv :: "srq_g \<Rightarrow> int \<Rightarrow> int io" where
  "post_srq_recv g idx =
     sys (Vb (Ibv_post_srq_recv (g_srq g)
       \<lparr>rw_wr_id = word_of_int idx,
        rw_sg_list = [\<lparr>sge_addr = get_buffer g idx, sge_length = of_nat SRQ_BUFFER_SIZE,
          sge_lkey = mr_lkey (g_pool_mr g)\<rparr>]\<rparr>))"

definition srq_init_attr :: "srq_g \<Rightarrow> qp_attr" where
  "srq_init_attr g = zero_qp_attr\<lparr>qa_qp_state := IBV_QPS_INIT, qa_pkey_index := 0,
     qa_port_num := g_port_num g, qa_access_flags := {IBV_ACCESS_LOCAL_WRITE, IBV_ACCESS_REMOTE_WRITE}\<rparr>"

definition srq_modify_qp_to_init :: "srq_g \<Rightarrow> ibv_qp \<Rightarrow> int io" where
  "srq_modify_qp_to_init g qp =
     sys (Vb (Ibv_modify_qp (qp_ptr qp) (srq_init_attr g)
       {IBV_QP_STATE, IBV_QP_PKEY_INDEX, IBV_QP_PORT, IBV_QP_ACCESS_FLAGS}))"

definition srq_rtr_attr :: "srq_g \<Rightarrow> u32 \<Rightarrow> qp_attr" where
  "srq_rtr_attr g dest_qpn = zero_qp_attr\<lparr>qa_qp_state := IBV_QPS_RTR, qa_path_mtu := IBV_MTU_1024,
     qa_dest_qp_num := dest_qpn, qa_rq_psn := 0, qa_max_dest_rd_atomic := 1, qa_min_rnr_timer := 12,
     qa_ah_attr := zero_ah\<lparr>ah_dlid := g_lid g, ah_sl := 0, ah_src_path_bits := 0, ah_is_global := 0,
       ah_port_num := g_port_num g\<rparr>\<rparr>"

definition srq_modify_qp_to_rtr :: "srq_g \<Rightarrow> ibv_qp \<Rightarrow> u32 \<Rightarrow> int io" where
  "srq_modify_qp_to_rtr g qp dest_qpn =
     sys (Vb (Ibv_modify_qp (qp_ptr qp) (srq_rtr_attr g dest_qpn)
       {IBV_QP_STATE, IBV_QP_AV, IBV_QP_PATH_MTU, IBV_QP_DEST_QPN, IBV_QP_RQ_PSN,
        IBV_QP_MAX_DEST_RD_ATOMIC, IBV_QP_MIN_RNR_TIMER}))"

definition srq_rts_attr :: qp_attr where
  "srq_rts_attr = zero_qp_attr\<lparr>qa_qp_state := IBV_QPS_RTS, qa_sq_psn := 0, qa_timeout := 14,
     qa_retry_cnt := 7, qa_rnr_retry := 7, qa_max_rd_atomic := 1\<rparr>"

definition srq_modify_qp_to_rts :: "ibv_qp \<Rightarrow> int io" where
  "srq_modify_qp_to_rts qp =
     sys (Vb (Ibv_modify_qp (qp_ptr qp) srq_rts_attr
       {IBV_QP_STATE, IBV_QP_SQ_PSN, IBV_QP_TIMEOUT, IBV_QP_RETRY_CNT, IBV_QP_RNR_RETRY,
        IBV_QP_MAX_QP_RD_ATOMIC}))"

interpretation srq: ladder IBV_QPT_RC "qp_ptr qp" "srq_init_attr g" "srq_rtr_attr g d" srq_rts_attr
    "srq_modify_qp_to_init g qp" "srq_modify_qp_to_rtr g qp d" "srq_modify_qp_to_rts qp" for g qp d
  by unfold_locales
    (auto simp: srq_modify_qp_to_init_def srq_modify_qp_to_rtr_def srq_modify_qp_to_rts_def edge_ok_def
      srq_init_attr_def srq_rtr_attr_def srq_rts_attr_def intro!: exI)

section \<open>The thread for asynchronous events\<close>

text \<open>\<open>fuel\<close> bounds the number of events; the source loops until the flag is cleared or a call fails.\<close>

fun async_event_thread :: "nat \<Rightarrow> srq_g \<Rightarrow> unit io" where
  "async_event_thread 0 g = hang"
| "async_event_thread (Suc fuel) g =
     bnd (sys (Os Get_running)) (\<lambda>running.
       if running = 0 then ret ()
       else bnd (sys_async (Vb (Ibv_get_async_event (g_ctx g)))) (\<lambda>(r, event_type).
         if r \<noteq> 0 then ret ()
         else seq (case event_type of
             IBV_EVENT_SRQ_LIMIT_REACHED \<Rightarrow> seq (sys (Vb (Ibv_modify_srq (g_srq g) SRQ_LIMIT))) (ret ())
           | Async_other n \<Rightarrow> ret ()) (
         seq (sysv (Vb Ibv_ack_async_event)) (
         async_event_thread fuel g))))"

section \<open>Initialization\<close>

text \<open>A step that fails returns at once, with the global structure as it is then.\<close>

definition and_then :: "(int \<times> srq_g) io \<Rightarrow> (srq_g \<Rightarrow> (int \<times> srq_g) io) \<Rightarrow> (int \<times> srq_g) io" where
  "and_then m f = bnd m (\<lambda>(r, g). if r \<noteq> 0 then ret (r, g) else f g)"

definition srq_open :: "string option \<Rightarrow> srq_g \<Rightarrow> (int \<times> srq_g) io" where
  "srq_open dev g =
     bnd sys_devs (\<lambda>(dev_list, devs).
       if dev_list = 0 \<or> length devs = 0 then ret (- 1, g)
       else case (case dev of Some n \<Rightarrow> find_named devs n | None \<Rightarrow> Some (hd devs)) of
         None \<Rightarrow> seq (sysv (Vb (Ibv_free_device_list dev_list))) (ret (- 1, g))
       | Some device \<Rightarrow>
           bnd (sysp (Vb (Ibv_open_device (dev_ptr device)))) (\<lambda>ctx.
             seq (sysv (Vb (Ibv_free_device_list dev_list))) (
             if ctx = 0 then ret (- 1, g) else ret (0, g\<lparr>g_ctx := ctx\<rparr>))))"

definition srq_create :: "srq_g \<Rightarrow> (int \<times> srq_g) io" where
  "srq_create g =
     (let g = g\<lparr>g_port_num := 1\<rparr> in
     bnd (sys_port (Vb (Ibv_query_port (g_ctx g) (g_port_num g)))) (\<lambda>(r, port_attr).
     if r \<noteq> 0 then ret (- 1, g) else
     let g = g\<lparr>g_lid := pa_lid port_attr\<rparr> in
     bnd (sysp (Vb (Ibv_alloc_pd (g_ctx g)))) (\<lambda>pd.
     if pd = 0 then ret (- 1, g) else let g = g\<lparr>g_pd := pd\<rparr> in
     bnd (sysp (Vb (Ibv_create_cq (g_ctx g) (int CQ_SIZE)))) (\<lambda>cq.
     if cq = 0 then ret (- 1, g) else let g = g\<lparr>g_cq := cq\<rparr> in
     bnd (sysp (Vb (Ibv_create_srq (g_pd g) (int SRQ_MAX_WR) 1))) (\<lambda>srq.
     if srq = 0 then ret (- 1, g) else let g = g\<lparr>g_srq := srq\<rparr> in
     bnd (sys (Vb (Ibv_modify_srq (g_srq g) SRQ_LIMIT))) (\<lambda>r.
     if r \<noteq> 0 then ret (- 1, g) else
     bnd (sysp (Os (Aligned_alloc 4096 (NUM_SRQ_BUFFERS * SRQ_BUFFER_SIZE)))) (\<lambda>pool.
     if pool = 0 then ret (- 1, g) else let g = g\<lparr>g_recv_pool := pool\<rparr> in
     seq (sysv (Os (Mem_store (g_recv_pool g) (replicate (NUM_SRQ_BUFFERS * SRQ_BUFFER_SIZE) 0)))) (
     bnd (sys_mr (Vb (Ibv_reg_mr (g_pd g) (g_recv_pool g) (NUM_SRQ_BUFFERS * SRQ_BUFFER_SIZE)
       {IBV_ACCESS_LOCAL_WRITE}))) (\<lambda>mr.
     if mr_ptr mr = 0 then ret (- 1, g) else let g = g\<lparr>g_pool_mr := mr\<rparr> in
     bnd (sys_mr (Vb (Ibv_reg_mr (g_pd g) (g_send_bufs g) (NUM_QPS * SRQ_BUFFER_SIZE)
       {IBV_ACCESS_LOCAL_WRITE}))) (\<lambda>mr.
     if mr_ptr mr = 0 then ret (- 1, g) else ret (0, g\<lparr>g_send_mr := mr\<rparr>)))))))))))"

fun srq_prefill :: "srq_g \<Rightarrow> nat list \<Rightarrow> (int \<times> srq_g) io" where
  "srq_prefill g [] = ret (0, g)"
| "srq_prefill g (i # is) =
     bnd (post_srq_recv g (int i)) (\<lambda>r. if r \<noteq> 0 then ret (- 1, g) else srq_prefill g is)"

definition srq_send_attr :: "srq_g \<Rightarrow> qp_init_attr" where
  "srq_send_attr g =
     \<lparr>qi_send_cq = g_cq g, qi_recv_cq = g_cq g, qi_srq = 0,
      qi_cap = \<lparr>max_send_wr = 16, max_recv_wr = 1, max_send_sge = 1, max_recv_sge = 1, max_inline_data = 0\<rparr>,
      qi_qp_type = IBV_QPT_RC, qi_sq_sig_all = 0\<rparr>"

definition srq_recv_attr :: "srq_g \<Rightarrow> qp_init_attr" where
  "srq_recv_attr g =
     \<lparr>qi_send_cq = g_cq g, qi_recv_cq = g_cq g, qi_srq = g_srq g,
      qi_cap = \<lparr>max_send_wr = 16, max_recv_wr = 0, max_send_sge = 1, max_recv_sge = 0, max_inline_data = 0\<rparr>,
      qi_qp_type = IBV_QPT_RC, qi_sq_sig_all = 0\<rparr>"

fun srq_make_qps :: "srq_g \<Rightarrow> nat list \<Rightarrow> (int \<times> srq_g) io" where
  "srq_make_qps g [] = ret (0, g)"
| "srq_make_qps g (i # is) =
     bnd (sys_qp (Vb (Ibv_create_qp (g_pd g) (srq_send_attr g)))) (\<lambda>sq.
       if qp_ptr sq = 0 then ret (- 1, g)
       else let g = g\<lparr>g_send_qps := (g_send_qps g)[i := sq]\<rparr> in
       bnd (sys_qp (Vb (Ibv_create_qp (g_pd g) (srq_recv_attr g)))) (\<lambda>rq.
         if qp_ptr rq = 0 then ret (- 1, g)
         else srq_make_qps (g\<lparr>g_recv_qps := (g_recv_qps g)[i := rq]\<rparr>) is))"

definition srq_walk :: "srq_g \<Rightarrow> ibv_qp \<Rightarrow> ibv_qp \<Rightarrow> int io" where
  "srq_walk g qp peer =
     first_error [srq_modify_qp_to_init g qp, srq_modify_qp_to_rtr g qp (qp_num peer),
       srq_modify_qp_to_rts qp]"

fun srq_connect_qps :: "srq_g \<Rightarrow> nat list \<Rightarrow> (int \<times> srq_g) io" where
  "srq_connect_qps g [] = ret (0, g)"
| "srq_connect_qps g (i # is) =
     bnd (srq_walk g (g_send_qps g ! i) (g_recv_qps g ! i)) (\<lambda>r.
       if r \<noteq> 0 then ret (- 1, g)
       else bnd (srq_walk g (g_recv_qps g ! i) (g_send_qps g ! i)) (\<lambda>r.
         if r \<noteq> 0 then ret (- 1, g) else srq_connect_qps g is))"

definition init_resources :: "string option \<Rightarrow> srq_g \<Rightarrow> (int \<times> srq_g) io" where
  "init_resources dev g =
     and_then (srq_open dev g) (\<lambda>g.
     and_then (srq_create g) (\<lambda>g.
     and_then (srq_prefill g [0..<NUM_SRQ_BUFFERS]) (\<lambda>g.
     and_then (srq_make_qps g [0..<NUM_QPS]) (\<lambda>g.
     srq_connect_qps g [0..<NUM_QPS]))))"

section \<open>The demonstration\<close>

definition srq_text :: "srq_g \<Rightarrow> nat \<Rightarrow> string" where
  "srq_text g i = ''Message from QP '' @ fmt_d (int i) @ '' (qpn='' @ fmt_u (unat (qp_num (g_send_qps g ! i))) @ '')''"

definition srq_send_buf :: "srq_g \<Rightarrow> nat \<Rightarrow> ptr" where
  "srq_send_buf g i = g_send_bufs g + of_nat (i * SRQ_BUFFER_SIZE)"

definition srq_send_one :: "srq_g \<Rightarrow> nat \<Rightarrow> int io" where
  "srq_send_one g i =
     seq (sysv (Os (Mem_store (srq_send_buf g i) (snprintf_bytes SRQ_BUFFER_SIZE (srq_text g i))))) (
     bnd (load_str (srq_send_buf g i) SRQ_BUFFER_SIZE) (\<lambda>str.
     sys (Vb (Ibv_post_send (qp_ptr (g_send_qps g ! i))
       \<lparr>sw_wr_id = of_nat (100 + i),
        sw_sg_list = [\<lparr>sge_addr = srq_send_buf g i, sge_length = of_nat (length str + 1),
          sge_lkey = mr_lkey (g_send_mr g)\<rparr>],
        sw_opcode = IBV_WR_SEND, sw_send_flags = {IBV_SEND_SIGNALED}, sw_remote_addr = 0, sw_rkey = 0,
        sw_ah = 0, sw_remote_qpn = 0, sw_remote_qkey = 0\<rparr>))))"

fun srq_send_all :: "srq_g \<Rightarrow> nat list \<Rightarrow> int io" where
  "srq_send_all g [] = ret 0"
| "srq_send_all g (i # is) =
     bnd (srq_send_one g i) (\<lambda>r. if r \<noteq> 0 then ret (- 1) else srq_send_all g is)"

text \<open>
  The branch for a receive: the buffer is printed as a string (which is looked for a NUL to the end of
  the pool), cleared and posted again; whether the post succeeded is not looked at.  An index outside
  the pool is an access the C standard gives no meaning.
\<close>

definition srq_received :: "srq_g \<Rightarrow> ibv_wc \<Rightarrow> unit io" where
  "srq_received g wc =
     (let i = buf_idx (wc_wr_id wc) in
      if i < 0 \<or> int NUM_SRQ_BUFFERS \<le> i then undef
      else seq (load_str (get_buffer g i) ((NUM_SRQ_BUFFERS - nat i) * SRQ_BUFFER_SIZE)) (
        seq (sysv (Os (Mem_store (get_buffer g i) (replicate SRQ_BUFFER_SIZE 0)))) (
        seq (post_srq_recv g i) (ret ()))))"

text \<open>\<open>fuel\<close> bounds the number of rounds; the source polls until all completions have come.\<close>

fun srq_poll :: "nat \<Rightarrow> srq_g \<Rightarrow> nat \<Rightarrow> nat \<Rightarrow> (int \<times> nat) io" where
  "srq_poll 0 g completed recv_count = hang"
| "srq_poll (Suc fuel) g completed recv_count =
     (if NUM_QPS * 2 \<le> completed then ret (0, recv_count)
      else bnd (sys_wc (Vb (Ibv_poll_cq (g_cq g) 1))) (\<lambda>(n, wcs).
        if n < 0 then ret (- 1, recv_count)
        else if n = 0 then srq_poll fuel g completed recv_count
        else case wcs of
          [] \<Rightarrow> undef
        | wc # _ \<Rightarrow>
            if wc_status wc \<noteq> IBV_WC_SUCCESS then ret (- 1, recv_count)
            else if wc_opcode wc = IBV_WC_RECV
            then seq (srq_received g wc) (srq_poll fuel g (completed + 1) (recv_count + 1))
            else srq_poll fuel g (completed + 1) recv_count))"

definition run_demo :: "nat \<Rightarrow> srq_g \<Rightarrow> (int \<times> nat) io" where
  "run_demo fuel g =
     bnd (srq_send_all g [0..<NUM_QPS]) (\<lambda>r. if r \<noteq> 0 then ret (- 1, 0) else srq_poll fuel g 0 0)"

section \<open>Cleanup and main\<close>

definition srq_cleanup :: "srq_g \<Rightarrow> unit io" where
  "srq_cleanup g =
     seq (for_each [0..<NUM_QPS] (\<lambda>i.
       seq (destroy_slot (qp_ptr (g_recv_qps g ! i))) (destroy_slot (qp_ptr (g_send_qps g ! i))))) (
     seq (unless_null (mr_ptr (g_send_mr g)) (Ibv_dereg_mr (mr_ptr (g_send_mr g)))) (
     seq (unless_null (mr_ptr (g_pool_mr g)) (Ibv_dereg_mr (mr_ptr (g_pool_mr g)))) (
     seq (unless_null (g_srq g) (Ibv_destroy_srq (g_srq g))) (
     seq (unless_null (g_cq g) (Ibv_destroy_cq (g_cq g))) (
     seq (unless_null (g_pd g) (Ibv_dealloc_pd (g_pd g))) (
     seq (unless_null (g_ctx g) (Ibv_close_device (g_ctx g))) (
     if g_recv_pool g \<noteq> 0 then sysv (Os (Free (g_recv_pool g))) else ret ())))))))"

definition srq_main :: "nat \<Rightarrow> string option \<Rightarrow> int io" where
  "srq_main fuel dev =
     bnd (sysp (Os (Stack_var (NUM_QPS * SRQ_BUFFER_SIZE)))) (\<lambda>sb.
     bnd (init_resources dev (srq_zero sb)) (\<lambda>(r, g).
     if r \<noteq> 0 then seq (srq_cleanup g) (ret 1)
     else seq (sysv (Os (Set_running 1))) (
       seq (sys (Os Pthread_create)) (
       bnd (run_demo fuel g) (\<lambda>(r, recv_count).
       seq (sysv (Os (Set_running 0))) (
       seq (srq_cleanup g) (
       ret (if r \<noteq> 0 then 1 else 0))))))))"

section \<open>The ledger of a partly initialized structure\<close>

definition opt :: "ptr \<Rightarrow> res \<Rightarrow> ledger" where
  "opt p r = (if p = 0 then [] else [r])"

abbreviation static_res :: "ptr \<Rightarrow> nat \<Rightarrow> res" where
  "static_res p n \<equiv> \<lparr>res_key = KStack p, res_needs = [], res_info = Block p n\<rparr>"

definition srq_base :: "srq_g \<Rightarrow> ledger" where
  "srq_base g =
     opt (mr_ptr (g_send_mr g)) (mr_res (g_send_mr g) (g_pd g) (g_send_bufs g) (NUM_QPS * SRQ_BUFFER_SIZE) {IBV_ACCESS_LOCAL_WRITE})
     @ opt (mr_ptr (g_pool_mr g)) (mr_res (g_pool_mr g) (g_pd g) (g_recv_pool g) (NUM_SRQ_BUFFERS * SRQ_BUFFER_SIZE) {IBV_ACCESS_LOCAL_WRITE})
     @ opt (g_recv_pool g) (buf_res (g_recv_pool g) (NUM_SRQ_BUFFERS * SRQ_BUFFER_SIZE))
     @ opt (g_srq g) \<lparr>res_key = KSrq (g_srq g), res_needs = [KPd (g_pd g)], res_info = Plain\<rparr>
     @ opt (g_cq g) (cq_res (g_cq g) (g_ctx g))
     @ opt (g_pd g) (pd_res (g_pd g) (g_ctx g))
     @ opt (g_ctx g) (ctx_res (g_ctx g))
     @ [static_res (g_send_bufs g) (NUM_QPS * SRQ_BUFFER_SIZE)]"

text \<open>The fields are filled in this order, and the blocks do not wrap around.\<close>

definition srq_chain :: "srq_g \<Rightarrow> bool" where
  "srq_chain g \<longleftrightarrow>
     (mr_ptr (g_send_mr g) \<noteq> 0 \<longrightarrow> mr_ptr (g_pool_mr g) \<noteq> 0) \<and>
     (mr_ptr (g_send_mr g) \<noteq> 0 \<longrightarrow> mr_ptr (g_send_mr g) \<noteq> mr_ptr (g_pool_mr g)) \<and>
     (mr_ptr (g_pool_mr g) \<noteq> 0 \<longrightarrow> g_recv_pool g \<noteq> 0) \<and>
     (g_recv_pool g \<noteq> 0 \<longrightarrow> g_srq g \<noteq> 0 \<and>
        unat (g_recv_pool g) + NUM_SRQ_BUFFERS * SRQ_BUFFER_SIZE \<le> 2 ^ 64) \<and>
     (g_srq g \<noteq> 0 \<longrightarrow> g_cq g \<noteq> 0) \<and> (g_cq g \<noteq> 0 \<longrightarrow> g_pd g \<noteq> 0) \<and> (g_pd g \<noteq> 0 \<longrightarrow> g_ctx g \<noteq> 0) \<and>
     unat (g_send_bufs g) + NUM_QPS * SRQ_BUFFER_SIZE \<le> 2 ^ 64 \<and>
     length (g_recv_qps g) = NUM_QPS \<and> length (g_send_qps g) = NUM_QPS"

definition srq_slots :: "srq_g \<Rightarrow> ptr list" where
  "srq_slots g = map qp_ptr (g_recv_qps g) @ map qp_ptr (g_send_qps g)"

lemma srq_base_ok:
  assumes "srq_chain g"
  shows "wf_ledger (srq_base g)" "\<not> live (srq_base g) (KQp q)"
    "g_ctx g \<noteq> 0 \<Longrightarrow> live (srq_base g) (KCtx (g_ctx g))"
    "g_pd g \<noteq> 0 \<Longrightarrow> live (srq_base g) (KPd (g_pd g))"
    "g_cq g \<noteq> 0 \<Longrightarrow> live (srq_base g) (KCq (g_cq g))"
    "g_srq g \<noteq> 0 \<Longrightarrow> live (srq_base g) (KSrq (g_srq g))"
  using assms by (auto simp: srq_base_def srq_chain_def opt_def ledger_simps)

lemma srq_base_qps [simp]:
  "srq_base (g\<lparr>g_send_qps := xs\<rparr>) = srq_base g" "srq_base (g\<lparr>g_recv_qps := xs\<rparr>) = srq_base g"
  by (simp_all add: srq_base_def)

text \<open>Initialization has stopped somewhere; the queue pairs made so far are on top.\<close>

definition srq_partly :: "srq_g \<Rightarrow> ledger \<Rightarrow> bool" where
  "srq_partly g L \<longleftrightarrow> srq_chain g \<and> (\<exists>st. qps_on (srq_base g) (srq_slots g) st L)"

definition srq_ready :: "srq_g \<Rightarrow> ledger \<Rightarrow> bool" where
  "srq_ready g L \<longleftrightarrow> srq_chain g \<and> mr_ptr (g_send_mr g) \<noteq> 0 \<and>
     qps_on (srq_base g) (srq_slots g) (\<lambda>_. IBV_QPS_RTS) L \<and> (\<forall>q \<in> set (srq_slots g). q \<noteq> 0)"

lemma srq_slots_zero: "\<forall>q \<in> set (srq_slots (srq_zero sb)). q = 0"
  by (auto simp: srq_slots_def srq_zero_def null_qp_def)

lemma keeps_srq_open [obeys_rules]:
  assumes "srq_chain g" "g_ctx g = 0" "\<forall>q \<in> set (srq_slots g). q = 0" "L = srq_base g"
    and "Q (Ret (- 1, g)) L"
    and "\<And>p. p \<noteq> 0 \<Longrightarrow> Q (Ret (- 1, g)) (\<lparr>res_key = KDevs p, res_needs = [], res_info = Plain\<rparr> # L)"
    and "\<And>c. c \<noteq> 0 \<Longrightarrow> Q (Ret (0, g\<lparr>g_ctx := c\<rparr>)) (srq_base (g\<lparr>g_ctx := c\<rparr>))"
  shows "keeps v (srq_open dev g) L Q"
proof -
  have z: "mr_ptr (g_send_mr g) = 0" "mr_ptr (g_pool_mr g) = 0" "g_recv_pool g = 0" "g_srq g = 0"
    "g_cq g = 0" "g_pd g = 0"
    using assms(1,2) by (auto simp: srq_chain_def)
  show ?thesis
    using assms(2,5-) unfolding srq_open_def assms(4)
    by (auto simp: srq_base_def opt_def z ledger_simps intro!: obeys_rules split: option.split)
qed

lemma keeps_srq_create [obeys_rules]:
  assumes "srq_chain g" "g_ctx g \<noteq> 0" "g_pd g = 0" "L = srq_base g"
    and "\<And>g' L. srq_chain g' \<Longrightarrow> srq_slots g' = srq_slots g \<Longrightarrow> g_send_bufs g' = g_send_bufs g \<Longrightarrow> L = srq_base g' \<Longrightarrow> Q (Ret (- 1, g')) L"
    and "\<And>g' L. srq_chain g' \<Longrightarrow> srq_slots g' = srq_slots g \<Longrightarrow> g_send_bufs g' = g_send_bufs g \<Longrightarrow>
      mr_ptr (g_send_mr g') \<noteq> 0 \<Longrightarrow>
      L = srq_base g' \<Longrightarrow> Q (Ret (0, g')) L"
  shows "keeps v (srq_create g) L Q"
proof -
  have z: "mr_ptr (g_send_mr g) = 0" "mr_ptr (g_pool_mr g) = 0" "g_recv_pool g = 0" "g_srq g = 0"
    "g_cq g = 0"
    using assms(1,3) by (auto simp: srq_chain_def)
  show ?thesis
    using assms(1,2) unfolding srq_create_def assms(4)
    by (auto simp: srq_base_def opt_def z assms(3) Let_def ledger_simps srq_chain_def srq_slots_def srq_sizes
        intro!: obeys_rules assms(5-))
qed

section \<open>Buffers lie in their regions\<close>

lemma get_buffer_of_nat: "get_buffer g (int i) = g_recv_pool g + of_nat (i * SRQ_BUFFER_SIZE)"
  unfolding get_buffer_def by (simp flip: of_nat_mult)

lemma srq_buffer_ok:
  assumes "srq_chain g" "mr_ptr (g_pool_mr g) \<noteq> 0" "i < NUM_SRQ_BUFFERS"
  shows "sge_ok (srq_base g) {IBV_ACCESS_LOCAL_WRITE}
      \<lparr>sge_addr = get_buffer g (int i), sge_length = of_nat SRQ_BUFFER_SIZE, sge_lkey = mr_lkey (g_pool_mr g)\<rparr>"
    and "mem_ok (srq_base g) (get_buffer g (int i)) ((NUM_SRQ_BUFFERS - i) * SRQ_BUFFER_SIZE)"
    and "mem_ok (srq_base g) (get_buffer g (int i)) SRQ_BUFFER_SIZE"
proof -
  from assms have p: "g_recv_pool g \<noteq> 0" "unat (g_recv_pool g) + NUM_SRQ_BUFFERS * SRQ_BUFFER_SIZE \<le> 2 ^ 64"
    by (auto simp: srq_chain_def)
  have i: "i * SRQ_BUFFER_SIZE + (NUM_SRQ_BUFFERS - i) * SRQ_BUFFER_SIZE \<le> NUM_SRQ_BUFFERS * SRQ_BUFFER_SIZE"
    "i * SRQ_BUFFER_SIZE + SRQ_BUFFER_SIZE \<le> NUM_SRQ_BUFFERS * SRQ_BUFFER_SIZE"
    "0 < (NUM_SRQ_BUFFERS - i) * SRQ_BUFFER_SIZE" "0 < SRQ_BUFFER_SIZE"
    using assms(3) by (auto simp: srq_sizes)
  note w = within_offset [OF p(2) i(1,3)] within_offset [OF p(2) i(2,4)]
  have u: "unat (of_nat SRQ_BUFFER_SIZE :: u32) = SRQ_BUFFER_SIZE" by (simp add: srq_sizes)
  show "sge_ok (srq_base g) {IBV_ACCESS_LOCAL_WRITE}
      \<lparr>sge_addr = get_buffer g (int i), sge_length = of_nat SRQ_BUFFER_SIZE, sge_lkey = mr_lkey (g_pool_mr g)\<rparr>"
    using w(2) assms(2) u by (simp add: get_buffer_of_nat srq_base_def opt_def ledger_simps)
  show "mem_ok (srq_base g) (get_buffer g (int i)) ((NUM_SRQ_BUFFERS - i) * SRQ_BUFFER_SIZE)"
    "mem_ok (srq_base g) (get_buffer g (int i)) SRQ_BUFFER_SIZE"
    using w p(1) by (simp_all add: get_buffer_of_nat srq_base_def opt_def ledger_simps)
qed

lemma srq_send_buf_ok:
  assumes "srq_chain g" "mr_ptr (g_send_mr g) \<noteq> 0" "i < NUM_QPS" "n \<le> SRQ_BUFFER_SIZE" "0 < n"
  shows "mem_ok (srq_base g) (srq_send_buf g i) n"
    and "sge_ok (srq_base g) {}
      \<lparr>sge_addr = srq_send_buf g i, sge_length = of_nat n, sge_lkey = mr_lkey (g_send_mr g)\<rparr>"
proof -
  from assms have p: "unat (g_send_bufs g) + NUM_QPS * SRQ_BUFFER_SIZE \<le> 2 ^ 64"
    by (simp add: srq_chain_def)
  have i: "i * SRQ_BUFFER_SIZE + n \<le> NUM_QPS * SRQ_BUFFER_SIZE"
    using assms(3,4) by (simp add: srq_sizes)
  have u: "unat (of_nat n :: u32) = n"
    using assms(4) by (simp add: srq_sizes unat_of_nat)
  have "within (g_send_bufs g) (NUM_QPS * SRQ_BUFFER_SIZE) (srq_send_buf g i) n"
    unfolding srq_send_buf_def by (rule within_offset [OF p i assms(5)])
  then show "mem_ok (srq_base g) (srq_send_buf g i) n"
    "sge_ok (srq_base g) {}
      \<lparr>sge_addr = srq_send_buf g i, sge_length = of_nat n, sge_lkey = mr_lkey (g_send_mr g)\<rparr>"
    using assms(2) u by (simp_all add: srq_base_def opt_def ledger_simps)
qed

section \<open>Initialization keeps to the contract\<close>

lemma keeps_srq_prefill [obeys_rules]:
  assumes "srq_chain g" "mr_ptr (g_send_mr g) \<noteq> 0" "L = srq_base g" "\<forall>i \<in> set is. i < NUM_SRQ_BUFFERS"
    and "Q (Ret (- 1, g)) L" "Q (Ret (0, g)) L"
  shows "keeps v (srq_prefill g is) L Q"
  using assms(4)
proof (induction "is")
  case (Cons i "is")
  from assms(1,2) have c: "mr_ptr (g_pool_mr g) \<noteq> 0" "g_srq g \<noteq> 0" by (auto simp: srq_chain_def)
  with Cons srq_buffer_ok(1) [OF assms(1) c(1), of i] show ?case
    using assms(1,3,5)
    by (auto simp: post_srq_recv_def srq_base_ok intro!: obeys_rules)
qed (use assms in simp)

text \<open>The loop that makes the queue pairs: slot \<open>i\<close> is filled in the arrays for sending and receiving.\<close>

lemma srq_slots_update:
  assumes "length (g_recv_qps g) = NUM_QPS"
  shows "srq_slots (g\<lparr>g_recv_qps := (g_recv_qps g)[i := q]\<rparr>) =
      (if i < NUM_QPS then (srq_slots g)[i := qp_ptr q] else srq_slots g)"
    "srq_slots (g\<lparr>g_send_qps := (g_send_qps g)[i := q]\<rparr>) = (srq_slots g)[NUM_QPS + i := qp_ptr q]"
  using assms by (simp_all add: srq_slots_def map_update list_update_append list_update_beyond)

lemma srq_slots_nth:
  assumes "srq_chain g" "i < NUM_QPS"
  shows "srq_slots g ! i = qp_ptr (g_recv_qps g ! i)" "srq_slots g ! (NUM_QPS + i) = qp_ptr (g_send_qps g ! i)"
    "length (srq_slots g) = 2 * NUM_QPS"
  using assms by (auto simp: srq_slots_def srq_chain_def nth_append)

lemma srq_chain_qps [simp]:
  "srq_chain (g\<lparr>g_recv_qps := (g_recv_qps g)[i := q]\<rparr>) = srq_chain g"
  "srq_chain (g\<lparr>g_send_qps := (g_send_qps g)[i := q]\<rparr>) = srq_chain g"
  by (simp_all add: srq_chain_def)

lemma const_upd [simp]: "(\<lambda>_. x)(q := x) = (\<lambda>_. x)"
  by auto

lemma keeps_srq_make_qps [obeys_rules]:
  assumes "srq_chain g" "mr_ptr (g_send_mr g) \<noteq> 0" "qps_on (srq_base g) (srq_slots g) (\<lambda>_. IBV_QPS_RESET) L"
    and "distinct is" "\<forall>i \<in> set is. i < NUM_QPS \<and> srq_slots g ! i = 0 \<and> srq_slots g ! (NUM_QPS + i) = 0"
    and "\<forall>i < 2 * NUM_QPS. i mod NUM_QPS \<notin> set is \<longrightarrow> srq_slots g ! i \<noteq> 0"
    and "\<And>g' L'. srq_partly g' L' \<Longrightarrow> g_send_bufs g' = g_send_bufs g \<Longrightarrow> Q (Ret (- 1, g')) L'"
    and "\<And>g' L'. srq_chain g' \<Longrightarrow> mr_ptr (g_send_mr g') \<noteq> 0 \<Longrightarrow> g_send_bufs g' = g_send_bufs g \<Longrightarrow>
      qps_on (srq_base g') (srq_slots g') (\<lambda>_. IBV_QPS_RESET) L' \<Longrightarrow>
      (\<forall>q \<in> set (srq_slots g'). q \<noteq> 0) \<Longrightarrow> Q (Ret (0, g')) L'"
  shows "keeps v (srq_make_qps g is) L Q"
  using assms(1-8)
proof (induction "is" arbitrary: g L)
  case Nil
  then have "length (srq_slots g) = 2 * NUM_QPS" by (auto simp: srq_slots_def srq_chain_def)
  with Nil have "\<forall>q \<in> set (srq_slots g). q \<noteq> 0" by (auto simp: in_set_conv_nth)
  with Nil show ?case by auto
next
  case (Cons i "is")
  from Cons.prems(1,2) have c: "g_pd g \<noteq> 0" "g_cq g \<noteq> 0" "g_srq g \<noteq> 0" by (auto simp: srq_chain_def)
  note ok = srq_base_ok [OF Cons.prems(1)]
  have len: "length (g_recv_qps g) = NUM_QPS" "length (srq_slots g) = 2 * NUM_QPS"
    using Cons.prems(1) by (auto simp: srq_chain_def srq_slots_def)
  from Cons.prems(5) have i: "i < NUM_QPS" "srq_slots g ! i = 0" "srq_slots g ! (NUM_QPS + i) = 0" by auto
  have part: "Q (Ret (- 1, g)) L"
    using Cons.prems(1,3) by (intro Cons.prems(7)) (auto simp: srq_partly_def)
  have lv: "live L k" if "live (srq_base g) k" for k
    using qps_on_below(1) [OF Cons.prems(3) that] .
  let ?ns = "[KPd (g_pd g), KCq (g_cq g), KCq (g_cq g)]"
  let ?g1 = "\<lambda>q. g\<lparr>g_send_qps := (g_send_qps g)[i := q]\<rparr>"
  let ?g2 = "\<lambda>q r. ?g1 q\<lparr>g_recv_qps := (g_recv_qps g)[i := r]\<rparr>"
  let ?r = "\<lambda>q ns. \<lparr>res_key = KQp q, res_needs = ns, res_info = Queue IBV_QPT_RC IBV_QPS_RESET\<rparr>"
  have on1: "qps_on (srq_base g) ((srq_slots g)[NUM_QPS + i := q]) (\<lambda>_. IBV_QPS_RESET) (?r q ?ns # L)"
    if "q \<noteq> 0" "\<not> live L (KQp q)" for q
    using qps_on_create [OF Cons.prems(3), of "NUM_QPS + i" q ?ns IBV_QPS_RESET] that i c ok len by simp
  have on2: "qps_on (srq_base g) ((srq_slots g)[NUM_QPS + i := q, i := r]) (\<lambda>_. IBV_QPS_RESET)
      (?r r (?ns @ [KSrq (g_srq g)]) # ?r q ?ns # L)"
    if "q \<noteq> 0" "\<not> live L (KQp q)" "r \<noteq> 0" "\<not> live (?r q ?ns # L) (KQp r)" for q r
    using qps_on_create [OF on1 [OF that(1,2)], of i r "?ns @ [KSrq (g_srq g)]" IBV_QPS_RESET] that(3,4) i c ok len
    by simp
  have slots: "srq_slots (?g1 q) = (srq_slots g)[NUM_QPS + i := qp_ptr q]"
    "srq_slots (?g2 q r) = (srq_slots g)[NUM_QPS + i := qp_ptr q, i := qp_ptr r]" for q r
    using srq_slots_update(2) [OF len(1)] srq_slots_update(1) [of "?g1 q" i r] len(1) i(1) by simp_all
  have 1: "Q (Ret (- 1, ?g1 q)) (?r (qp_ptr q) ?ns # L)" if "qp_ptr q \<noteq> 0" "\<not> live L (KQp (qp_ptr q))" for q
    using on1 [OF that] Cons.prems(1) by (intro Cons.prems(7)) (auto simp: srq_partly_def slots)
  have 2: "keeps v (srq_make_qps (?g2 q r) is) (?r (qp_ptr r) (?ns @ [KSrq (g_srq g)]) # ?r (qp_ptr q) ?ns # L) Q"
    if "qp_ptr q \<noteq> 0" "\<not> live L (KQp (qp_ptr q))" "qp_ptr r \<noteq> 0" "\<not> live (?r (qp_ptr q) ?ns # L) (KQp (qp_ptr r))"
    for q r
  proof (rule Cons.IH)
    show "srq_chain (?g2 q r)" "mr_ptr (g_send_mr (?g2 q r)) \<noteq> 0"
      using Cons.prems(1,2) by (simp_all add: srq_chain_def)
    show "qps_on (srq_base (?g2 q r)) (srq_slots (?g2 q r)) (\<lambda>_. IBV_QPS_RESET)
      (?r (qp_ptr r) (?ns @ [KSrq (g_srq g)]) # ?r (qp_ptr q) ?ns # L)"
      using on2 [OF that] by (simp add: slots)
    show "distinct is" using Cons.prems(4) by simp
    show "\<forall>j \<in> set is. j < NUM_QPS \<and> srq_slots (?g2 q r) ! j = 0 \<and> srq_slots (?g2 q r) ! (NUM_QPS + j) = 0"
      using Cons.prems(4,5) len(2) by (auto simp: slots nth_list_update)
    show "\<forall>j < 2 * NUM_QPS. j mod NUM_QPS \<notin> set is \<longrightarrow> srq_slots (?g2 q r) ! j \<noteq> 0"
      using Cons.prems(6) len(2) i(1) that(1,3) by (auto simp: slots nth_list_update NUM_QPS_def mod_if)
  qed (use Cons.prems(7,8) in auto)
  show ?case
    using 1 2 part lv c ok
    by (auto simp: srq_send_attr_def srq_recv_attr_def Let_def ledger_simps intro!: obeys_rules)
qed

lemma qps_on_cong:
  "qps_on B ps st L \<Longrightarrow> (\<And>q. q \<in> set ps \<Longrightarrow> q \<noteq> 0 \<Longrightarrow> st q = st' q) \<Longrightarrow> qps_on B ps st' L"
  unfolding qps_on_def by (elim conjE exE) (intro conjI exI, auto)

lemma qps_on_distinct: "qps_on B ps st L \<Longrightarrow> \<forall>q \<in> set ps. q \<noteq> 0 \<Longrightarrow> distinct ps"
  by (simp add: qps_on_def filter_id_conv [THEN iffD2])

lemma keeps_srq_walk:
  assumes "qps_on B ps st L" "qp_ptr q \<in> set ps" "qp_ptr q \<noteq> 0" "st (qp_ptr q) = IBV_QPS_RESET"
    and "\<And>L'. qps_on B ps (st(qp_ptr q := IBV_QPS_RTS)) L' \<Longrightarrow> Q (Ret 0) L'"
    and "\<And>st' L'. qps_on B ps st' L' \<Longrightarrow> Q (Ret 1) L'"
  shows "keeps v (srq_walk g q peer) L Q"
  unfolding srq_walk_def by (rule srq.keeps_first_error [OF assms(1-3) refl assms(4-6)])

lemma keeps_srq_connect_qps [obeys_rules]:
  assumes "srq_chain g" "\<forall>q \<in> set (srq_slots g). q \<noteq> 0" "qps_on (srq_base g) (srq_slots g) st L"
    and "distinct is" "\<forall>i \<in> set is. i < NUM_QPS"
    and "\<forall>j < 2 * NUM_QPS. st (srq_slots g ! j) = (if j mod NUM_QPS \<in> set is then IBV_QPS_RESET else IBV_QPS_RTS)"
    and "\<And>L'. srq_partly g L' \<Longrightarrow> Q (Ret (- 1, g)) L'"
    and "\<And>L'. qps_on (srq_base g) (srq_slots g) (\<lambda>_. IBV_QPS_RTS) L' \<Longrightarrow> Q (Ret (0, g)) L'"
  shows "keeps v (srq_connect_qps g is) L Q"
  using assms(3-6)
proof (induction "is" arbitrary: st L)
  case Nil
  have len: "length (srq_slots g) = 2 * NUM_QPS"
    using assms(1) by (auto simp: srq_chain_def srq_slots_def)
  have "qps_on (srq_base g) (srq_slots g) (\<lambda>_. IBV_QPS_RTS) L"
    using Nil by (elim qps_on_cong) (auto simp: in_set_conv_nth len)
  then show ?case by (simp add: assms(8))
next
  case (Cons i "is")
  let ?s = "qp_ptr (g_send_qps g ! i)" and ?r = "qp_ptr (g_recv_qps g ! i)"
  have i: "i < NUM_QPS" using Cons.prems(3) by simp
  have len: "length (srq_slots g) = 2 * NUM_QPS"
    using assms(1) by (auto simp: srq_chain_def srq_slots_def)
  have d: "distinct (srq_slots g)" by (rule qps_on_distinct [OF Cons.prems(1) assms(2)])
  note n = srq_slots_nth(1,2) [OF assms(1) i, symmetric]
  have mem: "?s \<in> set (srq_slots g)" "?r \<in> set (srq_slots g)"
    unfolding n using i by (auto intro!: nth_mem simp: len)
  then have nz: "?s \<noteq> 0" "?r \<noteq> 0" using assms(2) by auto
  have ne: "srq_slots g ! j = ?s \<longleftrightarrow> j = NUM_QPS + i" "srq_slots g ! j = ?r \<longleftrightarrow> j = i" if "j < 2 * NUM_QPS" for j
    unfolding n using that i by (auto simp: nth_eq_iff_index_eq [OF d] len)
  have reset: "st ?s = IBV_QPS_RESET" "st ?r = IBV_QPS_RESET" "?s \<noteq> ?r"
    using Cons.prems(4) i ne(2) [of "NUM_QPS + i"] unfolding n by (auto simp: NUM_QPS_def)
  have rest: "keeps v (srq_connect_qps g is) L' Q"
    if "qps_on (srq_base g) (srq_slots g) (st(?s := IBV_QPS_RTS, ?r := IBV_QPS_RTS)) L'" for L'
  proof (rule Cons.IH [OF that])
    have "j mod NUM_QPS = i \<longleftrightarrow> j = i \<or> j = NUM_QPS + i" if "j < 2 * NUM_QPS" for j
      using i that by (auto simp: NUM_QPS_def mod_if)
    then show "\<forall>j < 2 * NUM_QPS. (st(?s := IBV_QPS_RTS, ?r := IBV_QPS_RTS)) (srq_slots g ! j) =
        (if j mod NUM_QPS \<in> set is then IBV_QPS_RESET else IBV_QPS_RTS)"
      using Cons.prems(2,4) i by (auto simp: ne mod_less)
  qed (use Cons.prems in auto)
  have part: "Q (Ret (- 1, g)) L'" if "qps_on (srq_base g) (srq_slots g) st' L'" for st' L'
    using that assms(1) by (intro assms(7)) (auto simp: srq_partly_def)
  have two: "keeps v (srq_walk g (g_recv_qps g ! i) (g_send_qps g ! i)) L'
      (after (\<lambda>a s'. keeps v (if a \<noteq> 0 then ret (- 1, g) else srq_connect_qps g is) s' Q) Q)"
    if "qps_on (srq_base g) (srq_slots g) (st(?s := IBV_QPS_RTS)) L'" for L'
    by (rule keeps_srq_walk [OF that mem(2) nz(2)]) (use reset rest part in auto)
  show ?case
    unfolding srq_connect_qps.simps
    by (rule obeys_bnd, rule keeps_srq_walk [OF Cons.prems(1) mem(1) nz(1) reset(1)])
      (use two part in \<open>auto intro!: obeys_bnd\<close>)
qed

section \<open>The demonstration keeps to the contract\<close>

lemma srq_readyD:
  assumes "srq_ready g L"
  shows "srq_chain g" "mr_ptr (g_send_mr g) \<noteq> 0" "mr_ptr (g_pool_mr g) \<noteq> 0"
    "live L (KSrq (g_srq g))" "live L (KCq (g_cq g))" "srq_partly g L"
    "i < NUM_QPS \<Longrightarrow> qp_entry L (qp_ptr (g_send_qps g ! i)) = Some (IBV_QPT_RC, IBV_QPS_RTS)"
proof -
  note r = assms [unfolded srq_ready_def]
  show c: "srq_chain g" "mr_ptr (g_send_mr g) \<noteq> 0" using r by auto
  then show "mr_ptr (g_pool_mr g) \<noteq> 0" by (auto simp: srq_chain_def)
  from c have "g_srq g \<noteq> 0" "g_cq g \<noteq> 0" by (auto simp: srq_chain_def)
  with c srq_base_ok(5,6) [of g] show "live L (KSrq (g_srq g))" "live L (KCq (g_cq g))"
    using r by (auto intro: qps_on_below(1))
  show "srq_partly g L" using r by (auto simp: srq_partly_def)
  show "qp_entry L (qp_ptr (g_send_qps g ! i)) = Some (IBV_QPT_RC, IBV_QPS_RTS)" if "i < NUM_QPS"
  proof -
    have "qp_ptr (g_send_qps g ! i) \<in> set (srq_slots g)"
      using that c(1) by (auto simp: srq_slots_def srq_chain_def)
    with r show ?thesis by (auto dest: qps_on_entry)
  qed
qed

lemma keeps_srq_send_all [obeys_rules]:
  assumes "srq_ready g L" "\<forall>i \<in> set is. i < NUM_QPS"
    and "Q (Ret (- 1)) L" "Q (Ret 0) L" "Q UB L"
  shows "keeps v (srq_send_all g is) L Q"
  using assms(2)
proof (induction "is")
  case (Cons i "is")
  note r = srq_readyD [OF assms(1)]
  have i: "i < NUM_QPS" using Cons.prems by simp
  have m: "mem_ok L (srq_send_buf g i) n" if "n \<le> SRQ_BUFFER_SIZE" "0 < n" for n
    using srq_send_buf_ok(1) [OF r(1,2) i that] assms(1) by (auto simp: srq_ready_def intro: qps_on_below(2))
  have s: "sge_ok L {} \<lparr>sge_addr = srq_send_buf g i, sge_length = of_nat n, sge_lkey = mr_lkey (g_send_mr g)\<rparr>"
    if "n \<le> SRQ_BUFFER_SIZE" "0 < n" for n
    using srq_send_buf_ok(2) [OF r(1,2) i that] assms(1) by (auto simp: srq_ready_def intro: qps_on_below(3))
  have p: "post_send_ok L (qp_ptr (g_send_qps g ! i))
      \<lparr>sw_wr_id = a, sw_sg_list = [\<lparr>sge_addr = srq_send_buf g i, sge_length = of_nat (n + 1), sge_lkey = mr_lkey (g_send_mr g)\<rparr>],
       sw_opcode = IBV_WR_SEND, sw_send_flags = {IBV_SEND_SIGNALED}, sw_remote_addr = 0, sw_rkey = 0,
       sw_ah = 0, sw_remote_qpn = 0, sw_remote_qkey = 0\<rparr>" if "n < SRQ_BUFFER_SIZE" for n a
    using r(7) [OF i] s [of "n + 1"] that by (simp add: post_send_ok_def)
  have l: "length (snprintf_bytes SRQ_BUFFER_SIZE str) \<le> SRQ_BUFFER_SIZE" "0 < length (snprintf_bytes SRQ_BUFFER_SIZE str)" for str
    by (auto simp: length_snprintf_bytes srq_sizes)
  have "0 < SRQ_BUFFER_SIZE" by (simp add: srq_sizes)
  with Cons m p l assms(3-5) show ?case
    by (auto simp: srq_send_one_def simp del: of_nat_add of_nat_Suc intro!: obeys_rules)
qed (use assms in simp)

lemma keeps_srq_received [obeys_rules]:
  assumes "srq_ready g L" "Q UB L" "Q (Ret ()) L"
  shows "keeps v (srq_received g wc) L Q"
proof (cases "buf_idx (wc_wr_id wc) < 0 \<or> int NUM_SRQ_BUFFERS \<le> buf_idx (wc_wr_id wc)")
  case True
  then show ?thesis by (simp add: srq_received_def Let_def assms)
next
  case False
  then obtain i where i: "buf_idx (wc_wr_id wc) = int i" "i < NUM_SRQ_BUFFERS"
    using that [of "nat (buf_idx (wc_wr_id wc))"] by auto
  note r = srq_readyD [OF assms(1)]
  note b = srq_buffer_ok [OF r(1,3) i(2)]
  have "qps_on (srq_base g) (srq_slots g) (\<lambda>_. IBV_QPS_RTS) L" using assms(1) by (simp add: srq_ready_def)
  note b' = qps_on_below(3) [OF this b(1)] qps_on_below(2) [OF this b(2)] qps_on_below(2) [OF this b(3)]
  show ?thesis
    using i b' r(4) assms(2,3)
    by (auto simp: srq_received_def Let_def post_srq_recv_def intro!: obeys_rules)
qed

lemma keeps_srq_poll [obeys_rules]:
  assumes "srq_ready g L" "\<And>r. Q (Ret r) L" "Q UB L" "Q Hang L"
  shows "keeps v (srq_poll fuel g n k) L Q"
proof (induction fuel arbitrary: n k)
  case (Suc fuel)
  then show ?case using assms srq_readyD(5) [OF assms(1)]
    by (auto intro!: obeys_rules split: list.split)
qed (simp add: assms)

lemma keeps_run_demo [obeys_rules]:
  assumes "srq_ready g L" "\<And>r. Q (Ret r) L" "Q UB L" "Q Hang L"
  shows "keeps v (run_demo fuel g) L Q"
  unfolding run_demo_def using assms by (auto intro!: obeys_rules)

section \<open>Cleanup from every stage\<close>

lemma keeps_srq_base_cleanup:
  assumes "srq_chain g" "Q (Ret ()) [static_res (g_send_bufs g) (NUM_QPS * SRQ_BUFFER_SIZE)]"
  shows "keeps v (
     seq (unless_null (mr_ptr (g_send_mr g)) (Ibv_dereg_mr (mr_ptr (g_send_mr g)))) (
     seq (unless_null (mr_ptr (g_pool_mr g)) (Ibv_dereg_mr (mr_ptr (g_pool_mr g)))) (
     seq (unless_null (g_srq g) (Ibv_destroy_srq (g_srq g))) (
     seq (unless_null (g_cq g) (Ibv_destroy_cq (g_cq g))) (
     seq (unless_null (g_pd g) (Ibv_dealloc_pd (g_pd g))) (
     seq (unless_null (g_ctx g) (Ibv_close_device (g_ctx g))) (
     if g_recv_pool g \<noteq> 0 then sysv (Os (Free (g_recv_pool g))) else ret ()))))))) (srq_base g) Q"
  using assms
  by (auto simp: srq_chain_def srq_base_def unless_null_def opt_def ledger_simps intro!: obeys_rules)

lemma mset_cleanup_order:
  assumes "srq_chain g"
  shows "mset (concat (map (\<lambda>i. [qp_ptr (g_recv_qps g ! i), qp_ptr (g_send_qps g ! i)]) [0..<NUM_QPS])) =
    mset (srq_slots g)"
proof -
  have "map f [0..<n] = map (\<lambda>i. f i) [0..<n]" for f :: "nat \<Rightarrow> ptr" and n by simp
  have *: "mset (concat (map (\<lambda>i. [f i, h i]) is)) = mset (map f is) + mset (map h is)"
    for f h :: "nat \<Rightarrow> ptr" and "is" by (induction "is") auto
  have m: "map (\<lambda>i. qp_ptr (xs ! i)) [0..<NUM_QPS] = map qp_ptr xs" if "length xs = NUM_QPS" for xs
    using that by (auto intro: nth_equalityI)
  show ?thesis
    using assms by (simp add: * m srq_slots_def srq_chain_def)
qed

lemma keeps_destroy_pairs:
  assumes "qps_on B (concat (map (\<lambda>i. [f i, h i]) is)) st L" "Q (Ret ()) B"
  shows "keeps v (for_each is (\<lambda>i. seq (destroy_slot (f i)) (destroy_slot (h i)))) L Q"
  using assms(1)
proof (induction "is" arbitrary: L)
  case Nil
  then show ?case using assms(2) by (auto dest: qps_on_all_null)
next
  case (Cons i "is")
  then show ?case
    by (auto intro!: obeys_rules keeps_destroy_slot)
qed

lemma keeps_srq_cleanup_partly:
  assumes "srq_partly g L" "Q (Ret ()) [static_res (g_send_bufs g) (NUM_QPS * SRQ_BUFFER_SIZE)]"
  shows "keeps v (srq_cleanup g) L Q"
proof -
  from assms(1) obtain st where c: "srq_chain g" and "qps_on (srq_base g) (srq_slots g) st L"
    by (auto simp: srq_partly_def)
  then have "qps_on (srq_base g) (concat (map (\<lambda>i. [qp_ptr (g_recv_qps g ! i), qp_ptr (g_send_qps g ! i)]) [0..<NUM_QPS])) st L"
    by (simp add: qps_on_perm [OF mset_cleanup_order])
  then show ?thesis
    unfolding srq_cleanup_def
    by (rule obeys_seq [OF keeps_destroy_pairs])
      (unfold after.simps, rule keeps_srq_base_cleanup, rule c, rule assms(2))
qed

lemma keeps_and_then [obeys_rules]:
  assumes "keeps v m L (after (\<lambda>(r, g) L'. if r \<noteq> 0 then Q (Ret (r, g)) L' else keeps v (f g) L' Q) Q)"
  shows "keeps v (and_then m f) L Q"
  unfolding and_then_def
proof (rule obeys_bnd, rule obeys_weaken [OF assms])
  fix r L'
  assume "after (\<lambda>(r, g) L'. if r \<noteq> 0 then Q (Ret (r, g)) L' else keeps v (f g) L' Q) Q r L'"
  then show "after (\<lambda>a s'. keeps v (case a of (r, g) \<Rightarrow> if r \<noteq> 0 then ret (r, g) else f g) s' Q) Q r L'"
    by (cases r) auto
qed

lemma srq_zero_ok:
  assumes "unat sb + NUM_QPS * SRQ_BUFFER_SIZE \<le> 2 ^ 64"
  shows "srq_chain (srq_zero sb)" "srq_base (srq_zero sb) = [static_res sb (NUM_QPS * SRQ_BUFFER_SIZE)]"
    "g_ctx (srq_zero sb) = 0"
  using assms by (auto simp: srq_chain_def srq_zero_def srq_base_def opt_def null_mr_def)

lemma srq_chain_ctx: "srq_chain g \<Longrightarrow> c \<noteq> 0 \<Longrightarrow> srq_chain (g\<lparr>g_ctx := c\<rparr>)"
  by (simp add: srq_chain_def)

lemma keeps_init_resources [obeys_rules]:
  assumes "srq_chain g" "g_ctx g = 0" "\<forall>q \<in> set (srq_slots g). q = 0" "L = srq_base g"
    and "Q (Ret (- 1, g)) L"
    and "\<And>p. p \<noteq> 0 \<Longrightarrow> Q (Ret (- 1, g)) (\<lparr>res_key = KDevs p, res_needs = [], res_info = Plain\<rparr> # L)"
    and "\<And>g' L'. g_send_bufs g' = g_send_bufs g \<Longrightarrow> srq_partly g' L' \<Longrightarrow> Q (Ret (- 1, g')) L'"
    and "\<And>g' L'. g_send_bufs g' = g_send_bufs g \<Longrightarrow> srq_ready g' L' \<Longrightarrow> Q (Ret (0, g')) L'"
  shows "keeps v (init_resources dev g) L Q"
proof -
  let ?B = "g_send_bufs g"
  have conn: "keeps v (srq_connect_qps g' [0..<NUM_QPS]) L' Q"
    if "srq_chain g'" "mr_ptr (g_send_mr g') \<noteq> 0" "g_send_bufs g' = ?B"
      "qps_on (srq_base g') (srq_slots g') (\<lambda>_. IBV_QPS_RESET) L'" "\<forall>q \<in> set (srq_slots g'). q \<noteq> 0" for g' L'
  proof (rule keeps_srq_connect_qps [OF that(1,5,4)])
    show "\<forall>j < 2 * NUM_QPS. IBV_QPS_RESET = (if j mod NUM_QPS \<in> set [0..<NUM_QPS] then IBV_QPS_RESET else IBV_QPS_RTS)"
      by (simp add: NUM_QPS_def)
  qed (use that assms(7,8) in \<open>auto simp: srq_ready_def\<close>)
  have make: "keeps v (and_then (srq_make_qps g' [0..<NUM_QPS]) (\<lambda>g. srq_connect_qps g [0..<NUM_QPS])) (srq_base g') Q"
    if "srq_chain g'" "mr_ptr (g_send_mr g') \<noteq> 0" "g_send_bufs g' = ?B" "srq_slots g' = srq_slots g" for g'
  proof (rule keeps_and_then, rule keeps_srq_make_qps [OF that(1,2)])
    have z: "\<forall>q \<in> set (srq_slots g'). q = 0" using that(4) assms(3) by simp
    then show "qps_on (srq_base g') (srq_slots g') (\<lambda>_. IBV_QPS_RESET) (srq_base g')"
      using srq_base_ok [OF that(1)] by (intro qps_on_none) auto
    have "length (srq_slots g') = 2 * NUM_QPS"
      using that(1) by (auto simp: srq_chain_def srq_slots_def)
    with z show "\<forall>i \<in> set [0..<NUM_QPS]. i < NUM_QPS \<and> srq_slots g' ! i = 0 \<and> srq_slots g' ! (NUM_QPS + i) = 0"
      by (auto simp: all_set_conv_all_nth)
    show "\<forall>i < 2 * NUM_QPS. i mod NUM_QPS \<notin> set [0..<NUM_QPS] \<longrightarrow> srq_slots g' ! i \<noteq> 0"
      by (simp add: NUM_QPS_def)
  qed (use that(3) assms(7) conn in auto)
  have part: "srq_partly g' (srq_base g')" if "srq_chain g'" "srq_slots g' = srq_slots g" for g'
    using that assms(3) srq_base_ok [OF that(1)] by (auto simp: srq_partly_def intro!: exI qps_on_none)
  have fill: "keeps v (and_then (srq_prefill g' [0..<NUM_SRQ_BUFFERS]) (\<lambda>g. and_then (srq_make_qps g [0..<NUM_QPS])
      (\<lambda>g. srq_connect_qps g [0..<NUM_QPS]))) L' Q"
    if "srq_chain g'" "mr_ptr (g_send_mr g') \<noteq> 0" "g_send_bufs g' = ?B" "srq_slots g' = srq_slots g"
      "L' = srq_base g'" for g' L'
    by (rule keeps_and_then, rule keeps_srq_prefill [OF that(1,2,5)])
      (use that make [OF that(1-4)] part [OF that(1,4)] assms(7) in auto)
  have create: "keeps v (and_then (srq_create g') (\<lambda>g. and_then (srq_prefill g [0..<NUM_SRQ_BUFFERS])
      (\<lambda>g. and_then (srq_make_qps g [0..<NUM_QPS]) (\<lambda>g. srq_connect_qps g [0..<NUM_QPS])))) (srq_base g') Q"
    if "srq_chain g'" "g_ctx g' \<noteq> 0" "g_pd g' = 0" "g_send_bufs g' = ?B" "srq_slots g' = srq_slots g" for g'
    by (rule keeps_and_then, rule keeps_srq_create [OF that(1-3) refl])
      (use that(4,5) fill part assms(7) in auto)
  have "g_pd g = 0" using assms(1,2) by (auto simp: srq_chain_def)
  then have opened: "keeps v (and_then (srq_create (g\<lparr>g_ctx := c\<rparr>)) (\<lambda>g. and_then (srq_prefill g [0..<NUM_SRQ_BUFFERS])
      (\<lambda>g. and_then (srq_make_qps g [0..<NUM_QPS]) (\<lambda>g. srq_connect_qps g [0..<NUM_QPS])))) (srq_base (g\<lparr>g_ctx := c\<rparr>)) Q"
    if "c \<noteq> 0" for c
    using that assms(1) by (intro create) (simp_all add: srq_chain_ctx srq_slots_def)
  show ?thesis
    unfolding init_resources_def
    by (rule keeps_and_then, rule keeps_srq_open [OF assms(1-4)]) (use assms(5,6) opened in auto)
qed

text \<open>What is left at the end: the static storage, and a device list that had no device in it.\<close>

definition srq_left :: "ledger \<Rightarrow> bool" where
  "srq_left L \<longleftrightarrow> (\<exists>sb. L = [static_res sb (NUM_QPS * SRQ_BUFFER_SIZE)])"

definition srq_list_left :: "ledger \<Rightarrow> bool" where
  "srq_list_left L \<longleftrightarrow> (\<exists>p sb. L = [\<lparr>res_key = KDevs p, res_needs = [], res_info = Plain\<rparr>,
     static_res sb (NUM_QPS * SRQ_BUFFER_SIZE)])"

lemma keeps_srq_cleanup_none:
  assumes "srq_chain g" "g_ctx g = 0" "\<forall>q \<in> set (srq_slots g). q = 0" "Q (Ret ()) L"
  shows "keeps v (srq_cleanup g) L Q"
proof -
  have z: "mr_ptr (g_send_mr g) = 0" "mr_ptr (g_pool_mr g) = 0" "g_recv_pool g = 0" "g_srq g = 0"
    "g_cq g = 0" "g_pd g = 0"
    using assms(1,2) by (auto simp: srq_chain_def)
  have "qp_ptr (g_recv_qps g ! i) = 0 \<and> qp_ptr (g_send_qps g ! i) = 0" if "i < NUM_QPS" for i
    using assms(1,3) that by (auto simp: srq_slots_def srq_chain_def)
  then show ?thesis
    unfolding srq_cleanup_def using assms(2,4)
    by (auto intro!: obeys_rules obeys_for_each_same simp: z unless_null_def destroy_slot_def)
qed

lemma keeps_srq_cleanup [obeys_rules]:
  assumes "srq_partly g L \<and> Q (Ret ()) [static_res (g_send_bufs g) (NUM_QPS * SRQ_BUFFER_SIZE)] \<or>
    srq_chain g \<and> g_ctx g = 0 \<and> (\<forall>q \<in> set (srq_slots g). q = 0) \<and> Q (Ret ()) L"
  shows "keeps v (srq_cleanup g) L Q"
  using assms keeps_srq_cleanup_partly keeps_srq_cleanup_none by blast

lemma keeps_srq_main:
  "keeps v (srq_main fuel dev) [] (\<lambda>r L. (\<forall>n. r = Ret n \<longrightarrow> srq_left L \<or> n = 1 \<and> srq_list_left L))"
  unfolding srq_main_def
  by (auto intro!: obeys_rules
      simp: srq_zero_ok srq_slots_zero srq_left_def srq_list_left_def srq_readyD(6))

section \<open>Ownership of the shared receive buffers\<close>

text \<open>
  The monitor of \<^theory_text>\<open>Ownership\<close> for a shared receive queue whose completion queue also reports
  sends: the receives posted with their buffers, and the sends, not completed yet.  Posting a buffer
  the card owns is a misuse, and so is posting more than the receive queue or the completion queue
  was made for.
\<close>

definition srq_owner :: "(u64 \<times> ptr) set \<times> u64 set \<Rightarrow> event \<Rightarrow> ((u64 \<times> ptr) set \<times> u64 set) verdict" where
  "srq_owner s e =
     (let S = fst s; T = snd s in
      case e of
        (Vb (Ibv_post_srq_recv q w), r) \<Rightarrow>
          (if rint r \<noteq> 0 then Live s
           else if rw_addr w \<in> snd ` S \<or> SRQ_MAX_WR \<le> card S \<or> CQ_SIZE \<le> card S + card T then Misuse
           else Live (insert (rw_wr_id w, rw_addr w) S, T))
      | (Vb (Ibv_post_send q w), r) \<Rightarrow>
          (if rint r \<noteq> 0 then Live s else if CQ_SIZE \<le> card S + card T then Misuse
           else Live (S, insert (sw_wr_id w) T))
      | (Vb (Ibv_poll_cq c k), RWc m ws) \<Rightarrow>
          (if m \<le> 0 then Live s
           else case ws of
             [w] \<Rightarrow>
               (if wc_status w \<noteq> IBV_WC_SUCCESS
                then Live ({x \<in> S. fst x \<noteq> wc_wr_id w}, T - {wc_wr_id w})
                else if wc_opcode w = IBV_WC_RECV
                then (if wc_wr_id w \<in> fst ` S then Live ({x \<in> S. fst x \<noteq> wc_wr_id w}, T) else Breach)
                else (if wc_wr_id w \<in> T then Live (S, T - {wc_wr_id w}) else Breach))
           | _ \<Rightarrow> Breach)
      | _ \<Rightarrow> Live s)"

fun srq_owner_call :: "call \<Rightarrow> bool" where
  "srq_owner_call (Vb (Ibv_post_srq_recv q w)) = True"
| "srq_owner_call (Vb (Ibv_post_send q w)) = True"
| "srq_owner_call (Vb (Ibv_poll_cq c k)) = True"
| "srq_owner_call _ = False"

lemma srq_owner_other: "\<not> srq_owner_call c \<Longrightarrow> srq_owner s (c, r) = Live s"
  by (cases c rule: srq_owner_call.cases) (auto simp: srq_owner_def Let_def)

lemma srq_owner_simps [simp]:
  "srq_owner s (Vb (Ibv_post_srq_recv q w), RInt r) =
     (if r \<noteq> 0 then Live s
      else if rw_addr w \<in> snd ` fst s \<or> SRQ_MAX_WR \<le> card (fst s) \<or> CQ_SIZE \<le> card (fst s) + card (snd s)
      then Misuse else Live (insert (rw_wr_id w, rw_addr w) (fst s), snd s))"
  "srq_owner s (Vb (Ibv_post_send q w'), RInt r) =
     (if r \<noteq> 0 then Live s else if CQ_SIZE \<le> card (fst s) + card (snd s) then Misuse
      else Live (fst s, insert (sw_wr_id w') (snd s)))"
  "srq_owner s (Vb (Ibv_poll_cq c k), RWc m ws) =
     (if m \<le> 0 then Live s
      else case ws of
        [w] \<Rightarrow>
          (if wc_status w \<noteq> IBV_WC_SUCCESS
           then Live ({x \<in> fst s. fst x \<noteq> wc_wr_id w}, snd s - {wc_wr_id w})
           else if wc_opcode w = IBV_WC_RECV
           then (if wc_wr_id w \<in> fst ` fst s then Live ({x \<in> fst s. fst x \<noteq> wc_wr_id w}, snd s) else Breach)
           else (if wc_wr_id w \<in> snd s then Live (fst s, snd s - {wc_wr_id w}) else Breach))
      | _ \<Rightarrow> Breach)"
  by (simp_all add: srq_owner_def Let_def)

definition srq_slot :: "srq_g \<Rightarrow> nat \<Rightarrow> u64 \<times> ptr" where
  "srq_slot g i = (of_nat i, get_buffer g (int i))"

definition srq_send_ids :: "u64 set" where
  "srq_send_ids = (\<lambda>i. of_nat (100 + i)) ` {..<NUM_QPS}"

definition srq_owned :: "srq_g \<Rightarrow> (u64 \<times> ptr) set \<times> u64 set \<Rightarrow> bool" where
  "srq_owned g s \<longleftrightarrow> fst s \<subseteq> srq_slot g ` {..<NUM_SRQ_BUFFERS} \<and> snd s \<subseteq> srq_send_ids"

lemma srq_slot_inj:
  assumes "i < NUM_SRQ_BUFFERS" "j < NUM_SRQ_BUFFERS"
  shows "get_buffer g (int i) = get_buffer g (int j) \<longleftrightarrow> i = j" "(of_nat i :: u64) = of_nat j \<longleftrightarrow> i = j"
proof -
  have "i * SRQ_BUFFER_SIZE < 10000" "j * SRQ_BUFFER_SIZE < 10000"
    using assms by (simp_all add: srq_sizes)
  then have "(of_nat (i * SRQ_BUFFER_SIZE) :: u64) = of_nat (j * SRQ_BUFFER_SIZE) \<longleftrightarrow> i * SRQ_BUFFER_SIZE = j * SRQ_BUFFER_SIZE"
    by (rule of_nat_small)
  then show "get_buffer g (int i) = get_buffer g (int j) \<longleftrightarrow> i = j"
    unfolding get_buffer_of_nat by (simp add: srq_sizes)
  show "(of_nat i :: u64) = of_nat j \<longleftrightarrow> i = j"
    using assms by (intro of_nat_small) (simp_all add: srq_sizes)
qed

lemma srq_owned_card:
  assumes "srq_owned g s"
  shows "card (fst s) \<le> NUM_SRQ_BUFFERS" "card (snd s) \<le> NUM_QPS"
proof -
  have "card (fst s) \<le> card (srq_slot g ` {..<NUM_SRQ_BUFFERS})"
    using assms by (intro card_mono) (auto simp: srq_owned_def)
  also have "\<dots> \<le> card {..<NUM_SRQ_BUFFERS}" by (rule card_image_le) simp
  finally show "card (fst s) \<le> NUM_SRQ_BUFFERS" by simp
  have "card (snd s) \<le> card srq_send_ids"
    using assms by (intro card_mono) (auto simp: srq_owned_def srq_send_ids_def)
  also have "\<dots> \<le> card {..<NUM_QPS}" unfolding srq_send_ids_def by (rule card_image_le) simp
  finally show "card (snd s) \<le> NUM_QPS" by simp
qed

lemma owner_post_srq_recv:
  assumes "srq_owned g s" "i < NUM_SRQ_BUFFERS" "srq_slot g i \<notin> fst s"
    and "\<And>r. r \<noteq> 0 \<Longrightarrow> Q (Ret r) s" "\<And>s'. s' = (insert (srq_slot g i) (fst s), snd s) \<Longrightarrow> Q (Ret 0) s'"
  shows "obeys srq_owner v (post_srq_recv g (int i)) s Q"
proof -
  have "get_buffer g (int i) \<notin> snd ` fst s"
  proof
    assume "get_buffer g (int i) \<in> snd ` fst s"
    then obtain x where x: "x \<in> fst s" "get_buffer g (int i) = snd x" by auto
    with assms(1) obtain j where "j < NUM_SRQ_BUFFERS" "x = srq_slot g j" by (auto simp: srq_owned_def)
    with x srq_slot_inj(1) [OF assms(2), of j g] assms(3) show False by (simp add: srq_slot_def)
  qed
  then show ?thesis
    using srq_owned_card [OF assms(1)] assms(4,5)
    by (auto simp: post_srq_recv_def rw_addr_def srq_slot_def srq_sizes intro!: obeys_rules)
qed

lemma owner_srq_prefill:
  assumes "srq_owned g (srq_slot g ` {..<k}, {})" "k \<le> NUM_SRQ_BUFFERS"
    and "\<And>r s. srq_owned g s \<Longrightarrow> Q (Ret (r, g)) s"
  shows "obeys srq_owner v (srq_prefill g [k..<NUM_SRQ_BUFFERS]) (srq_slot g ` {..<k}, {}) Q"
  using assms(1,2)
proof (induction "NUM_SRQ_BUFFERS - k" arbitrary: k)
  case (Suc m)
  then have k: "k < NUM_SRQ_BUFFERS" by simp
  have "srq_slot g k \<notin> srq_slot g ` {..<k}"
  proof
    assume "srq_slot g k \<in> srq_slot g ` {..<k}"
    then obtain j where "j < k" "(of_nat k :: u64) = of_nat j" by (auto simp: srq_slot_def)
    with srq_slot_inj(2) [OF k, of j] k show False by simp
  qed
  moreover have e: "insert (srq_slot g k) (srq_slot g ` {..<k}) = srq_slot g ` {..<Suc k}"
    by (simp add: lessThan_Suc)
  moreover have "srq_owned g (srq_slot g ` {..<Suc k}, {})"
    using k by (auto simp: srq_owned_def)
  ultimately show ?case
    using k Suc.prems Suc.hyps assms(3)
    by (auto simp: upt_conv_Cons intro!: obeys_bnd owner_post_srq_recv simp del: upt_Suc)
qed (use assms in simp)

lemma owner_srq_quiet:
  assumes "\<And>g' r. g_recv_pool g' = g_recv_pool g \<Longrightarrow> Q (Ret (r, g')) s"
  shows "obeys srq_owner v (srq_make_qps g is) s Q" "obeys srq_owner v (srq_connect_qps g is) s Q"
proof -
  show "obeys srq_owner v (srq_make_qps g is) s Q"
    using assms by (induction "is" arbitrary: g) (auto intro!: obeys_rules simp: Let_def srq_owner_other)
  show "obeys srq_owner v (srq_connect_qps g is) s Q"
    using assms
    by (induction "is") (auto intro!: obeys_rules simp: srq_walk_def srq_modify_qp_to_init_def
        srq_modify_qp_to_rtr_def srq_modify_qp_to_rts_def srq_owner_other)
qed

lemma srq_owned_pool: "g_recv_pool g' = g_recv_pool g \<Longrightarrow> srq_owned g' s = srq_owned g s"
  by (simp add: srq_owned_def srq_slot_def get_buffer_def)

lemma obeys_and_then:
  assumes "obeys \<delta> v m s (after (\<lambda>(r, g) s'. if r \<noteq> 0 then Q (Ret (r, g)) s' else obeys \<delta> v (f g) s' Q) Q)"
  shows "obeys \<delta> v (and_then m f) s Q"
  unfolding and_then_def
proof (rule obeys_bnd, rule obeys_weaken [OF assms])
  fix r s'
  assume "after (\<lambda>(r, g) s'. if r \<noteq> 0 then Q (Ret (r, g)) s' else obeys \<delta> v (f g) s' Q) Q r s'"
  then show "after (\<lambda>a s'. obeys \<delta> v (case a of (r, g) \<Rightarrow> if r \<noteq> 0 then ret (r, g) else f g) s' Q) Q r s'"
    by (cases r) auto
qed

lemma owner_init_resources:
  assumes "\<And>r g s. srq_owned g s \<Longrightarrow> Q (Ret (r, g)) s"
  shows "obeys srq_owner v (init_resources dev g) ({}, {}) Q"
proof -
  have none: "srq_owned g' ({}, {})" for g' by (simp add: srq_owned_def)
  have opened: "obeys srq_owner v (srq_open dev g) ({}, {}) R" if "\<And>r. R (Ret r) ({}, {})" for R
    using that by (auto simp: srq_open_def srq_owner_other intro!: obeys_rules split: option.split)
  have created: "obeys srq_owner v (srq_create g') ({}, {}) R" if "\<And>r. R (Ret r) ({}, {})" for g' R
    using that by (auto simp: srq_create_def srq_owner_other Let_def intro!: obeys_rules)
  have conn: "obeys srq_owner v (and_then (srq_make_qps g' [0..<NUM_QPS]) (\<lambda>g. srq_connect_qps g [0..<NUM_QPS])) s Q"
    if "srq_owned g' s" for g' s
    by (rule obeys_and_then, rule owner_srq_quiet(1))
      (auto intro!: assms owner_srq_quiet(2) simp: that srq_owned_pool [of _ g'])
  let ?rest = "\<lambda>g. and_then (srq_make_qps g [0..<NUM_QPS]) (\<lambda>g. srq_connect_qps g [0..<NUM_QPS])"
  have fill: "obeys srq_owner v (and_then (srq_prefill g' [0..<NUM_SRQ_BUFFERS]) ?rest) ({}, {}) Q" for g'
    by (rule obeys_and_then, rule owner_srq_prefill [where k = 0, simplified]) (auto simp: none conn assms)
  have create: "obeys srq_owner v (and_then (srq_create g')
      (\<lambda>g. and_then (srq_prefill g [0..<NUM_SRQ_BUFFERS]) ?rest)) ({}, {}) Q" for g'
    by (rule obeys_and_then, rule created) (simp add: fill assms [OF none] split: prod.split)
  show ?thesis
    unfolding init_resources_def
    by (rule obeys_and_then, rule opened) (simp add: create assms [OF none] split: prod.split)
qed

lemma owner_srq_send_all:
  assumes "srq_owned g s" "\<forall>i \<in> set is. i < NUM_QPS"
    and "\<And>r s'. srq_owned g s' \<Longrightarrow> Q (Ret r) s'" "\<And>s. Q UB s"
  shows "obeys srq_owner v (srq_send_all g is) s Q"
  using assms(1,2)
proof (induction "is" arbitrary: s)
  case (Cons i "is")
  obtain S T where s: "s = (S, T)" by fastforce
  have "srq_owned g (fst s, insert (of_nat (100 + i)) (snd s))"
    using Cons.prems by (auto simp: srq_owned_def srq_send_ids_def)
  moreover have "card (fst s) + card (snd s) < CQ_SIZE"
    using srq_owned_card [OF Cons.prems(1)] by (simp add: srq_sizes)
  ultimately show ?case
    using Cons assms(3,4) unfolding s
    by (auto simp: srq_send_one_def load_str_def srq_owner_other intro!: obeys_rules simp del: of_nat_add)
qed (use assms in simp)

lemma owner_srq_received:
  assumes "srq_owned g s" "wc_wr_id wc \<in> fst ` fst s"
    and "\<And>s'. srq_owned g s' \<Longrightarrow> Q (Ret ()) s'" "\<And>s. Q UB s"
  shows "obeys srq_owner v (srq_received g wc) ({x \<in> fst s. fst x \<noteq> wc_wr_id wc}, snd s) Q"
proof -
  from assms(1,2) obtain i where i: "i < NUM_SRQ_BUFFERS" "wc_wr_id wc = of_nat i"
    by (auto simp: srq_owned_def srq_slot_def)
  have b: "buf_idx (wc_wr_id wc) = int i"
    unfolding i(2) using i(1) by (intro buf_idx_small) (simp add: srq_sizes)
  let ?s = "({x \<in> fst s. fst x \<noteq> wc_wr_id wc}, snd s)"
  have own: "srq_owned g ?s" "srq_owned g (insert (srq_slot g i) (fst ?s), snd ?s)"
    using assms(1) i(1) by (auto simp: srq_owned_def)
  have "obeys srq_owner v (post_srq_recv g (int i)) ?s
      (after (\<lambda>_ s'. obeys srq_owner v (ret ()) s' Q) Q)"
    by (rule owner_post_srq_recv [OF own(1) i(1)]) (use own assms(3) in \<open>auto simp: srq_slot_def i(2)\<close>)
  then show ?thesis
    using i(1) assms(4)
    by (auto simp: srq_received_def b Let_def load_str_def srq_owner_other intro!: obeys_rules)
qed

lemma owner_srq_poll:
  assumes "srq_owned g s" "\<And>r s'. srq_owned g s' \<Longrightarrow> Q (Ret r) s'" "\<And>s. Q UB s" "\<And>s. Q Hang s"
  shows "obeys srq_owner v (srq_poll fuel g n k) s Q"
  using assms(1)
proof (induction fuel arbitrary: s n k)
  case (Suc fuel)
  obtain S T where s: "s = (S, T)" by fastforce
  have less: "srq_owned g ({x \<in> S. fst x \<noteq> w}, T)" "srq_owned g (S, T - {w})"
    "srq_owned g ({x \<in> S. fst x \<noteq> w}, T - {w})" for w
    using Suc.prems by (auto simp: srq_owned_def s)
  have rec: "obeys srq_owner v (srq_received g wc) ({x \<in> S. fst x \<noteq> wc_wr_id wc}, T)
      (after (\<lambda>a s'. obeys srq_owner v (srq_poll fuel g (Suc n) (Suc k)) s' Q) Q)" if "(wc_wr_id wc, b) \<in> S" for wc b
  proof -
    have "wc_wr_id wc \<in> fst ` fst s" using that by (force simp: s)
    then have "obeys srq_owner v (srq_received g wc) ({x \<in> fst s. fst x \<noteq> wc_wr_id wc}, snd s)
      (after (\<lambda>a s'. obeys srq_owner v (srq_poll fuel g (Suc n) (Suc k)) s' Q) Q)"
      by (rule owner_srq_received [OF Suc.prems]) (simp_all add: Suc.IH assms(3))
    then show ?thesis by (simp add: s)
  qed
  show ?case
    using Suc.prems less rec Suc.IH assms(2-4) unfolding s
    by (auto intro!: obeys_bnd obeys_seq obeys_sys_wc simp: Let_def split: list.split)
qed (simp add: assms)

lemma owner_run_demo:
  assumes "srq_owned g s" "\<And>r s'. srq_owned g s' \<Longrightarrow> Q (Ret r) s'" "\<And>s. Q UB s" "\<And>s. Q Hang s"
  shows "obeys srq_owner v (run_demo fuel g) s Q"
  unfolding run_demo_def
proof (rule obeys_bnd, rule owner_srq_send_all [OF assms(1)])
  show "after (\<lambda>r s'. obeys srq_owner v (if r \<noteq> 0 then ret (- 1, 0) else srq_poll fuel g 0 0) s' Q) Q (Ret r) s'"
    if "srq_owned g s'" for r s'
    using assms(2) [OF that] owner_srq_poll [OF that assms(2-4)] by simp
qed (use assms in auto)

lemma owner_srq_cleanup:
  assumes "\<And>r. Q r s"
  shows "obeys srq_owner v (srq_cleanup g) s Q"
proof (rule obeys_silent [where P = "\<lambda>e. \<not> srq_owner_call (fst e)"])
  show "calls (\<lambda>c. \<not> srq_owner_call c) (srq_cleanup g)"
    unfolding srq_cleanup_def destroy_slot_def unless_null_def by (intro only_rules) simp_all
  show "srq_owner s e = Live s" if "\<not> srq_owner_call (fst e)" for e
    using that by (cases e) (simp add: srq_owner_other)
qed (rule assms)

lemma after_True [simp]: "after (\<lambda>_ _. True) (\<lambda>_ _. True) r s"
  by (cases r) simp_all

lemma owner_srq_main: "obeys srq_owner v (srq_main fuel dev) ({}, {}) (\<lambda>_ _. True)"
proof -
  have demo: "obeys srq_owner v (run_demo fuel g) s (after (\<lambda>(r, n) s'. obeys srq_owner v (seq (sysv (Os (Set_running 0))) (
      seq (srq_cleanup g) (ret (if r \<noteq> 0 then 1 else 0)))) s' (\<lambda>_ _. True)) (\<lambda>_ _. True))"
    if "srq_owned g s" for g s
    by (rule owner_run_demo [OF that])
      (auto intro!: obeys_rules owner_srq_cleanup simp: srq_owner_other split: prod.split)
  show ?thesis
    unfolding srq_main_def
    by (intro obeys_bnd obeys_sysp) (auto simp: srq_owner_other split_beta intro!: owner_init_resources
      obeys_rules owner_srq_cleanup demo [unfolded split_beta])
qed

section \<open>The loopback connections\<close>

definition srq_ladder :: "srq_g \<Rightarrow> ibv_qp \<Rightarrow> ibv_qp \<Rightarrow> (ptr \<times> qp_attr \<times> resp) list" where
  "srq_ladder g qp peer =
     [(qp_ptr qp, srq_init_attr g, RInt 0), (qp_ptr qp, srq_rtr_attr g (qp_num peer), RInt 0),
      (qp_ptr qp, srq_rts_attr, RInt 0)]"

lemma srq_connect_qps_modified:
  "srq_connect_qps g is v h = (Ret (0, g'), es) \<Longrightarrow>
   g' = g \<and> modified es = concat (map (\<lambda>i. srq_ladder g (g_send_qps g ! i) (g_recv_qps g ! i)
     @ srq_ladder g (g_recv_qps g ! i) (g_send_qps g ! i)) is)"
proof (induction "is" arbitrary: h es)
  case (Cons i "is")
  have w: "modified es = srq_ladder g q p" if "srq_walk g q p v h = (Ret 0, es)" for q p h es
    using srq.first_error_modified [OF that [unfolded srq_walk_def]] by (simp add: srq_ladder_def)
  from Cons.prems show ?case
    by (auto simp: bnd_eq_Ret split: if_splits dest!: Cons.IH w)
qed auto

lemma and_then_Ret:
  assumes "and_then m f v h = (Ret (0, g), es)"
  obtains g1 es1 es2 where "m v h = (Ret (0, g1), es1)" "f g1 v (h @ es1) = (Ret (0, g), es2)" "es = es1 @ es2"
  using assms by (auto simp: and_then_def bnd_eq_Ret split: if_splits)

lemma calls_srq_setup:
  "calls (\<lambda>c. \<not> is_modify c) (srq_open dev g)" "calls (\<lambda>c. \<not> is_modify c) (srq_create g)"
  "calls (\<lambda>c. \<not> is_modify c) (srq_prefill g is)" "calls (\<lambda>c. \<not> is_modify c) (srq_make_qps g is)"
proof -
  show "calls (\<lambda>c. \<not> is_modify c) (srq_open dev g)" "calls (\<lambda>c. \<not> is_modify c) (srq_create g)"
    by (auto simp: srq_open_def srq_create_def Let_def intro!: only_rules)
  show "calls (\<lambda>c. \<not> is_modify c) (srq_prefill g is)"
    by (induction "is") (auto simp: post_srq_recv_def intro!: only_rules)
  show "calls (\<lambda>c. \<not> is_modify c) (srq_make_qps g is)"
    by (induction "is" arbitrary: g) (auto simp: Let_def intro!: only_rules)
qed

lemma init_resources_modified:
  assumes "init_resources dev g0 v h = (Ret (0, g), es)"
  shows "modified es = concat (map (\<lambda>i. srq_ladder g (g_send_qps g ! i) (g_recv_qps g ! i)
     @ srq_ladder g (g_recv_qps g ! i) (g_send_qps g ! i)) [0..<NUM_QPS])"
  using assms unfolding init_resources_def
  by (elim and_then_Ret) (auto dest!: srq_connect_qps_modified calls_srq_setup [THEN modified_none])

section \<open>What the demonstration does\<close>

text \<open>Identifiers of the receives posted to the shared queue, and of the completed ones polled.\<close>

fun reposted_by :: "event \<Rightarrow> u64 list" where
  "reposted_by (Vb (Ibv_post_srq_recv q w), r) = [rw_wr_id w]"
| "reposted_by _ = []"

fun received_by :: "event \<Rightarrow> u64 list" where
  "received_by (Vb (Ibv_poll_cq c k), RWc n (w # ws)) =
     (if 0 < n \<and> wc_status w = IBV_WC_SUCCESS \<and> wc_opcode w = IBV_WC_RECV then [wc_wr_id w] else [])"
| "received_by _ = []"

definition reposted :: "event list \<Rightarrow> u64 list" where
  "reposted es = concat (map reposted_by es)"

definition received :: "event list \<Rightarrow> u64 list" where
  "received es = concat (map received_by es)"

lemma srq_trace_simps [simp]:
  "reposted [] = []" "reposted (e # es) = reposted_by e @ reposted es" "reposted (es @ es') = reposted es @ reposted es'"
  "received [] = []" "received (e # es) = received_by e @ received es" "received (es @ es') = received es @ received es'"
  by (simp_all add: reposted_def received_def)

lemma srq_load_quiet:
  assumes "load_str p n v h = (Ret d, es)"
  shows "work es = [] \<and> reposted es = [] \<and> received es = []"
  using assms by (auto simp: load_str_def bnd_eq_Ret sys_load_def split: prod.splits if_splits)

lemma srq_send_all_trace:
  "srq_send_all g is v h = (Ret 0, es) \<Longrightarrow>
   work es = map (\<lambda>i. Posted_send (of_nat (100 + i))) is \<and> reposted es = [] \<and> received es = []"
proof (induction "is" arbitrary: h es)
  case (Cons i "is")
  then show ?case
    by (auto simp: srq_send_one_def bnd_eq_Ret seq_eq_Ret sys_def sysv_def simp del: of_nat_add
        split: if_splits dest!: Cons.IH srq_load_quiet)
qed simp

lemma srq_received_trace:
  assumes "srq_received g wc v h = (Ret (), es)"
  shows "work es = [] \<and> received es = [] \<and> reposted es = [word_of_int (buf_idx (wc_wr_id wc))]"
  using assms
  by (auto simp: srq_received_def Let_def post_srq_recv_def seq_eq_Ret sys_def sysv_def
      split: if_splits dest!: srq_load_quiet)

lemma srq_poll_trace:
  "srq_poll fuel g n k v h = (Ret (0, k'), es) \<Longrightarrow> n \<le> 2 * NUM_QPS \<Longrightarrow>
   work es = replicate (2 * NUM_QPS - n) Completed \<and> k' = k + length (received es) \<and>
   reposted es = map (\<lambda>w. word_of_int (buf_idx w)) (received es)"
proof (induction fuel arbitrary: n k h es)
  case (Suc fuel)
  show ?case
  proof (cases "NUM_QPS * 2 \<le> n")
    case True
    with Suc.prems show ?thesis by simp
  next
    case False
    then have r: "replicate (2 * NUM_QPS - n) Completed = Completed # replicate (2 * NUM_QPS - Suc n) Completed"
      by (simp flip: replicate_Suc add: Suc_diff_Suc)
    obtain m ws where b: "env_wc v h (Vb (Ibv_poll_cq (g_cq g) 1)) = (m, ws)" by fastforce
    let ?ws = "fit_wc (nat m) ws"
    let ?e = "(Vb (Ibv_poll_cq (g_cq g) 1), RWc m ?ws)"
    consider "m < 0" | "m = 0" | w ws' where "0 < m" "?ws = w # ws'"
      by (metis length_fit_wc list.exhaust list.size(3) nat_0_iff not_less linorder_neqE_linordered_idom)
    then show ?thesis
    proof cases
      case 1
      with Suc.prems False b show ?thesis by (auto simp: bnd_eq_Ret sys_wc_def)
    next
      case 2
      with Suc.prems False b obtain es' where
        "srq_poll fuel g n k v (h @ [?e]) = (Ret (0, k'), es')" "es = ?e # es'"
        by (auto simp: bnd_eq_Ret sys_wc_def)
      with Suc.IH Suc.prems(2) 2 show ?thesis by (fastforce simp: fit_wc_def)
    next
      case 3
      with Suc.prems False b have ok: "wc_status w = IBV_WC_SUCCESS"
        by (auto simp: bnd_eq_Ret sys_wc_def split: if_splits)
      show ?thesis
      proof (cases "wc_opcode w = IBV_WC_RECV")
        case True
        with 3 ok Suc.prems False b obtain e1 e2 where
          "srq_received g w v (h @ [?e]) = (Ret (), e1)"
          "srq_poll fuel g (Suc n) (Suc k) v ((h @ [?e]) @ e1) = (Ret (0, k'), e2)" "es = ?e # e1 @ e2"
          by (auto simp: bnd_eq_Ret seq_eq_Ret sys_wc_def)
        with Suc.IH srq_received_trace 3 ok True False show ?thesis unfolding r by fastforce
      next
        case other: False
        with 3 ok Suc.prems False b obtain e2 where
          "srq_poll fuel g (Suc n) k v (h @ [?e]) = (Ret (0, k'), e2)" "es = ?e # e2"
          by (auto simp: bnd_eq_Ret sys_wc_def)
        with Suc.IH 3 ok other False show ?thesis unfolding r by fastforce
      qed
    qed
  qed
qed simp

section \<open>What the thread does\<close>

fun async_by :: "event \<Rightarrow> async_type list" where
  "async_by (Vb (Ibv_get_async_event c), RAsync n t) = (if n = 0 then [t] else [])"
| "async_by _ = []"

fun acked_by :: "event \<Rightarrow> unit list" where
  "acked_by (Vb Ibv_ack_async_event, r) = [()]"
| "acked_by _ = []"

fun rearmed_by :: "event \<Rightarrow> int list" where
  "rearmed_by (Vb (Ibv_modify_srq s n), r) = [n]"
| "rearmed_by _ = []"

definition async_events :: "event list \<Rightarrow> async_type list" where
  "async_events es = concat (map async_by es)"

definition acked :: "event list \<Rightarrow> nat" where
  "acked es = length (concat (map acked_by es))"

definition rearmed :: "event list \<Rightarrow> int list" where
  "rearmed es = concat (map rearmed_by es)"

lemma async_trace_simps [simp]:
  "async_events [] = []" "async_events (e # es) = async_by e @ async_events es"
  "acked [] = 0" "acked (e # es) = length (acked_by e) + acked es"
  "rearmed [] = []" "rearmed (e # es) = rearmed_by e @ rearmed es"
  by (simp_all add: async_events_def acked_def rearmed_def)

lemma async_thread_trace:
  "async_event_thread fuel g v h = (Ret (), es) \<Longrightarrow>
   acked es = length (async_events es) \<and>
   rearmed es = map (\<lambda>_. SRQ_LIMIT) (filter (\<lambda>t. t = IBV_EVENT_SRQ_LIMIT_REACHED) (async_events es)) \<and>
   reposted es = []"
proof (induction fuel arbitrary: h es)
  case (Suc fuel)
  then show ?case
    by (auto simp: bnd_eq_Ret seq_eq_Ret sys_def sysv_def sys_async_def
        split: if_splits async_type.splits prod.splits dest!: Suc.IH)
qed simp

lemma keeps_async_thread:
  assumes "live L (KCtx (g_ctx g))" "live L (KSrq (g_srq g))"
  shows "keeps v (async_event_thread fuel g) L (\<lambda>r L'. L' = L)"
proof (induction fuel)
  case (Suc fuel)
  with assms show ?case
    by (auto intro!: obeys_rules split: async_type.split)
qed simp

section \<open>Two flaws\<close>

text \<open>The thread is not joined: a thread that saw the flag set before \<open>main\<close> cleared it makes its next call
  on a context that the cleanup has closed.\<close>

lemma srq_thread_outlives_context:
  assumes "srq_main fuel dev v [] = (Ret 0, es)" "mon_run contract [] es = Live L"
    and "async_event_thread fuel' g v' h' = (r', (Os Get_running, RInt n) # e # fs)"
  shows "mon_run contract [] (es @ [e]) = Misuse"
proof -
  from assms(3) obtain q where e: "e = (Vb (Ibv_get_async_event (g_ctx g)), q)"
    by (cases fuel') (auto simp: run_simps bnd_def sys_def sys_async_def split: prod.splits outcome.splits if_splits)
  have "srq_left L"
    using obeysD [OF keeps_srq_main assms(1)] assms(2) by auto
  then show ?thesis
    using assms(2) by (auto simp: e mon_run_append srq_left_def use_def ledger_simps)
qed

text \<open>An empty device list is not freed.\<close>

lemma srq_cleanup_zero: "srq_cleanup (srq_zero sb) v h = (Ret (), [])"
proof -
  have "for_each [0..<NUM_QPS] (\<lambda>i. seq (destroy_slot (qp_ptr (g_recv_qps (srq_zero sb) ! i)))
      (destroy_slot (qp_ptr (g_send_qps (srq_zero sb) ! i)))) = ret ()"
    by (simp add: NUM_QPS_def upt_rec srq_zero_def null_qp_def destroy_slot_def seq_def)
  then show ?thesis
    by (simp add: srq_cleanup_def unless_null_def srq_zero_def null_mr_def seq_def run_simps)
qed

lemma srq_no_device_leaks:
  assumes "\<And>h. env_devs v h = (p, [])" "p \<noteq> 0"
    and "env_ptr v [] (Os (Stack_var (NUM_QPS * SRQ_BUFFER_SIZE))) = sb" "sb \<noteq> 0"
      "unat sb + NUM_QPS * SRQ_BUFFER_SIZE \<le> 2 ^ 64"
  shows "\<exists>es. srq_main fuel dev v [] = (Ret 1, es) \<and> srq_list_left (leftover es)"
  using assms
  by (auto simp: srq_main_def init_resources_def and_then_def srq_open_def run_bnd run_seq sys_defs run_simps
      srq_cleanup_zero leftover_def acquire_ptr_def acquire_def acquire_block_def ledger_simps srq_list_left_def)

section \<open>Properties\<close>


text \<open>C3: Through a whole run the card is given a receive buffer of the shared queue only when it does not
  own it already, never more than the shared queue holds, and never more work than the completion
  queue has room for, in whatever order sends and receives complete.\<close>

theorem srq_main_owner:
  assumes "srq_main fuel dev v h = (r, es)"
  shows "mon_run srq_owner ({}, {}) es \<noteq> Misuse"
  using obeysD [OF owner_srq_main assms] by (cases "mon_run srq_owner ({}, {}) es") auto

text \<open>C24: After a successful initialization every sending queue pair is connected to the receiving one of
  the same index, and back: each was moved to RTR with the other's number, with the port's LID, the
  packet sequence number the other was moved to RTS with, and the same MTU.\<close>

theorem srq_loopback:
  assumes "init_resources dev g0 v h = (Ret (0, g), es)" "i < NUM_QPS"
    and "(q, p) \<in> {(g_send_qps g ! i, g_recv_qps g ! i), (g_recv_qps g ! i, g_send_qps g ! i)}"
  shows "\<exists>rtr rts. (qp_ptr q, rtr, RInt 0) \<in> set (modified es) \<and> (qp_ptr p, rts, RInt 0) \<in> set (modified es) \<and>
    qa_qp_state rtr = IBV_QPS_RTR \<and> qa_qp_state rts = IBV_QPS_RTS \<and>
    qa_dest_qp_num rtr = qp_num p \<and> ah_dlid (qa_ah_attr rtr) = g_lid g \<and> qa_rq_psn rtr = qa_sq_psn rts \<and>
    qa_path_mtu rtr = IBV_MTU_1024 \<and> qa_max_rd_atomic rts \<le> qa_max_dest_rd_atomic rtr"
proof -
  have "(qp_ptr q, srq_rtr_attr g (qp_num p), RInt 0) \<in> set (modified es)"
    "(qp_ptr p, srq_rts_attr, RInt 0) \<in> set (modified es)"
    using assms(2,3) by (auto simp: init_resources_modified [OF assms(1)] srq_ladder_def)
  then show ?thesis
    by (intro exI [of _ "srq_rtr_attr g (qp_num p)"] exI [of _ srq_rts_attr])
      (simp add: srq_rtr_attr_def srq_rts_attr_def zero_qp_attr_def)
qed

text \<open>C23: A demonstration that succeeds has posted one send on every sending queue pair, in order, and then
  taken exactly as many completions as sends and receives are expected; every buffer received was
  posted again, and the count it reports is the number of receives among the completions.\<close>

theorem run_demo_completes:
  assumes "run_demo fuel g v h = (Ret (0, k), es)"
  shows "work es = map (\<lambda>i. Posted_send (of_nat (100 + i))) [0..<NUM_QPS] @ replicate (2 * NUM_QPS) Completed \<and>
    k = length (received es) \<and> reposted es = map (\<lambda>w. word_of_int (buf_idx w)) (received es)"
  using assms
  by (auto simp: run_demo_def bnd_eq_Ret simp del: of_nat_add split: if_splits
      dest!: srq_send_all_trace srq_poll_trace)

text \<open>C39: The thread acknowledges every event it gets, re-arms the limit once for every limit event and
  posts no receive; as long as the context and the shared queue are there it keeps to the contract.\<close>

theorem async_thread_rearms:
  assumes "async_event_thread fuel g v h = (r, es)" "live L (KCtx (g_ctx g))" "live L (KSrq (g_srq g))"
  shows "mon_run contract L es \<noteq> Misuse \<and> (r = Ret () \<longrightarrow>
    acked es = length (async_events es) \<and> reposted es = [] \<and>
    rearmed es = replicate (length (filter (\<lambda>t. t = IBV_EVENT_SRQ_LIMIT_REACHED) (async_events es))) SRQ_LIMIT)"
proof -
  have "mon_run contract L es \<noteq> Misuse"
    using obeysD [OF keeps_async_thread [OF assms(2,3)] assms(1)] by auto
  then show ?thesis
    using async_thread_trace [of fuel g v h es] assms(1) by (auto simp: map_replicate_const)
qed

section \<open>Witnesses\<close>

text \<open>The concrete environment with memory that reads as zeros: every poll reports buffer 0 received.\<close>

definition srq_lab :: env where
  "srq_lab = (lab_env 17 5 [])\<lparr>env_bytes := \<lambda>h c. (0, [])\<rparr>"

lemma load_zeros:
  "0 < n \<Longrightarrow> load_str p n srq_lab h = (Ret [], [(Os (Mem_load p n), RBytes (int n) (replicate n 0))])"
  by (simp add: load_str_def srq_lab_def run_defs fit_def split: nat.split)

lemma upt_4: "[0..<4] = [0, 1, 2, 3 :: nat]"
  by (simp add: upt_rec)

lemma upt_32: "[0..<32] = [0, 1, 2, 3, 4, 5, 6, 7, 8, 9, 10, 11, 12, 13, 14, 15, 16, 17, 18, 19, 20, 21, 22,
    23, 24, 25, 26, 27, 28, 29, 30, 31 :: nat]"
  by (simp add: upt_rec)

lemma srq_prefill_upt:
  "srq_prefill g (i # is) v h = (case post_srq_recv g (int i) v h of
     (Ret r, es) \<Rightarrow> (case (if r \<noteq> 0 then ret (- 1, g) else srq_prefill g is) v (h @ es) of (r, es') \<Rightarrow> (r, es @ es'))
   | (Exit n, es) \<Rightarrow> (Exit n, es) | (UB, es) \<Rightarrow> (UB, es) | (Hang, es) \<Rightarrow> (Hang, es))"
  by (simp add: run_bnd)

lemma srq_poll_numeral:
  "srq_poll (numeral f) g n k =
     (if NUM_QPS * 2 \<le> n then ret (0, k)
      else bnd (sys_wc (Vb (Ibv_poll_cq (g_cq g) 1))) (\<lambda>(m, wcs).
        if m < 0 then ret (- 1, k)
        else if m = 0 then srq_poll (pred_numeral f) g n k
        else case wcs of
          [] \<Rightarrow> undef
        | wc # _ \<Rightarrow>
            if wc_status wc \<noteq> IBV_WC_SUCCESS then ret (- 1, k)
            else if wc_opcode wc = IBV_WC_RECV
            then seq (srq_received g wc) (srq_poll (pred_numeral f) g (n + 1) (k + 1))
            else srq_poll (pred_numeral f) g (n + 1) k))"
  by (simp add: numeral_eq_Suc)

lemma srq_lab_simps:
  "env_ptr srq_lab h c = lab_handle h" "env_int srq_lab h c = lab_int h c"
  "env_mr srq_lab h c = lab_mr h c" "env_qp srq_lab h c = \<lparr>qp_ptr = lab_handle h, qp_num = 17\<rparr>"
  "env_wc srq_lab h c = (1, [lab_wc])" "env_devs srq_lab h = env_devs (lab_env 17 5 []) h"
  "env_port srq_lab h c = env_port (lab_env 17 5 []) h c"
  "env_async srq_lab h = (0, IBV_EVENT_SRQ_LIMIT_REACHED)"
  by (simp_all add: srq_lab_def lab_env_simps)

lemma srq_upts: "[0..<NUM_QPS] = [0, 1, 2, 3]" "[0..<NUM_SRQ_BUFFERS] = [0, 1, 2, 3, 4, 5, 6, 7, 8, 9, 10, 11,
    12, 13, 14, 15, 16, 17, 18, 19, 20, 21, 22, 23, 24, 25, 26, 27, 28, 29, 30, 31]"
  by (simp_all add: NUM_QPS_def NUM_SRQ_BUFFERS_def upt_4 upt_32)

lemmas lab_srq = lab_common init_resources_def and_then_def srq_open_def srq_create_def
  post_srq_recv_def srq_walk_def srq_modify_qp_to_init_def srq_modify_qp_to_rtr_def srq_modify_qp_to_rts_def
  srq_zero_def null_qp_def null_mr_def srq_lab_simps srq_upts

text \<open>Initialization, after the static storage was placed.\<close>

lemma srq_lab_init:
  "\<exists>g es. init_resources None (srq_zero sb) srq_lab [e] = (Ret (0, g), es)"
proof -
  have n: "replicate NUM_QPS null_qp = [null_qp, null_qp, null_qp, null_qp]"
    by (simp add: NUM_QPS_def numeral_eq_Suc)
  show ?thesis by (simp add: lab_srq n)
qed

text \<open>The demonstration: four sends, then eight receives of buffer 0.\<close>

lemma srq_lab_received:
  assumes "buf_idx (wc_wr_id wc) = 0"
  shows "\<exists>es. srq_received g wc srq_lab h = (Ret (), es)"
proof -
  have "0 < NUM_SRQ_BUFFERS * SRQ_BUFFER_SIZE" "0 < NUM_SRQ_BUFFERS" by (simp_all add: srq_sizes)
  with assms show ?thesis
    by (simp add: srq_received_def Let_def run_defs load_zeros post_srq_recv_def srq_lab_simps lab_int_def)
qed

lemma srq_lab_poll: "n \<le> 2 * NUM_QPS \<Longrightarrow> 2 * NUM_QPS < n + fuel \<Longrightarrow> \<exists>es k'. srq_poll fuel g n k srq_lab h = (Ret (0, k'), es)"
proof (induction fuel arbitrary: n k h)
  case (Suc fuel)
  let ?e = "(Vb (Ibv_poll_cq (g_cq g) 1), RWc 1 [lab_wc])"
  have "buf_idx (wc_wr_id lab_wc) = 0" by (simp add: lab_wc_def zero_wc_def buf_idx_def)
  from srq_lab_received [OF this, of g "h @ [?e]"] obtain e1 where
    1: "srq_received g lab_wc srq_lab (h @ [?e]) = (Ret (), e1)" by blast
  have w: "wc_status lab_wc = IBV_WC_SUCCESS" "wc_opcode lab_wc = IBV_WC_RECV"
    by (simp_all add: lab_wc_def zero_wc_def)
  show ?case
  proof (cases "NUM_QPS * 2 \<le> n")
    case False
    with Suc.prems Suc.IH [of "Suc n" "Suc k" "(h @ [?e]) @ e1"] obtain e2 k' where
      "srq_poll fuel g (Suc n) (Suc k) srq_lab ((h @ [?e]) @ e1) = (Ret (0, k'), e2)" by auto
    with 1 w False show ?thesis
      by (simp add: run_defs srq_lab_simps)
  qed (simp add: run_simps)
qed simp

lemma srq_lab_demo: "\<exists>es k. run_demo 9 g srq_lab h = (Ret (0, k), es)"
proof -
  have "0 < SRQ_BUFFER_SIZE" by (simp add: srq_sizes)
  then have one: "always srq_lab (srq_send_one g i) 0" for i
    by (simp add: always_def srq_send_one_def run_defs load_zeros srq_lab_simps lab_int_def)
  have "always srq_lab (srq_send_all g is) 0" for "is"
    by (induction "is") (auto intro: always_ret always_bnd [OF one])
  then obtain es where s: "srq_send_all g [0..<NUM_QPS] srq_lab h = (Ret 0, es)" by (meson alwaysD)
  obtain es' k where "srq_poll 9 g 0 0 srq_lab (h @ es) = (Ret (0, k), es')"
    using srq_lab_poll [of 0 9 g 0 "h @ es"] by (auto simp: NUM_QPS_def)
  with s show ?thesis by (simp add: run_demo_def run_bnd)
qed

lemma always_srq_cleanup: "always v (srq_cleanup g) ()"
proof -
  have d: "always v (destroy_slot q) ()" and u: "always v (unless_null q c) ()"
    and f: "always v (if q \<noteq> 0 then sysv (Os (Free q)) else ret ()) ()" for q c
    by (auto simp: always_def destroy_slot_def unless_null_def run_defs)
  show ?thesis
    unfolding srq_cleanup_def by (rule always_seq always_for_each d u f)+
qed

lemma srq_lab_main: "\<exists>es. srq_main 9 None srq_lab [] = (Ret 0, es)"
proof -
  let ?e = "(Os (Stack_var (NUM_QPS * SRQ_BUFFER_SIZE)), RPtr (lab_handle []))"
  obtain g e1 where 1: "init_resources None (srq_zero (lab_handle [])) srq_lab [?e] = (Ret (0, g), e1)"
    using srq_lab_init by blast
  let ?h1 = "(?e # e1) @ [(Os (Set_running 1), RVoid), (Os Pthread_create, RInt 0)]"
  obtain e2 k where 2: "run_demo 9 g srq_lab ?h1 = (Ret (0, k), e2)" using srq_lab_demo by blast
  obtain e3 where 3: "srq_cleanup g srq_lab ((?h1 @ e2) @ [(Os (Set_running 0), RVoid)]) = (Ret (), e3)"
    using alwaysD [OF always_srq_cleanup] by blast
  from 1 2 3 show ?thesis
    by (simp add: srq_main_def run_defs srq_lab_simps lab_int_def)
qed


lemma srq_main_owner_witness:
  "\<exists>es. srq_main 9 None srq_lab [] = (Ret 0, es) \<and> mon_run srq_owner ({}, {}) es \<noteq> Misuse"
  using srq_lab_main srq_main_owner by blast

lemma srq_loopback_witness:
  "\<exists>g es rtr. init_resources None (srq_zero 4096) srq_lab [(Os Getpid, RInt 1)] = (Ret (0, g), es) \<and>
     (qp_ptr (g_send_qps g ! 3), rtr, RInt 0) \<in> set (modified es) \<and> qa_dest_qp_num rtr = qp_num (g_recv_qps g ! 3)"
proof -
  obtain g es where r: "init_resources None (srq_zero 4096) srq_lab [(Os Getpid, RInt 1)] = (Ret (0, g), es)"
    using srq_lab_init by blast
  have "(3 :: nat) < NUM_QPS" by (simp add: NUM_QPS_def)
  from srq_loopback [OF r this, of "g_send_qps g ! 3" "g_recv_qps g ! 3"] r show ?thesis by blast
qed

lemma run_demo_completes_witness:
  "\<exists>k es. run_demo 9 (srq_zero 4096) srq_lab [] = (Ret (0, k), es) \<and> length (work es) = 12"
proof -
  obtain k es where r: "run_demo 9 (srq_zero 4096) srq_lab [] = (Ret (0, k), es)"
    using srq_lab_demo by blast
  show ?thesis using run_demo_completes [OF r] r by (simp add: NUM_QPS_def)
qed

text \<open>An environment in which the thread finds the flag set once.\<close>

definition async_lab :: env where
  "async_lab = (lab_env 17 5 [])\<lparr>env_int := \<lambda>h c. if c = Os Get_running \<and> h = [] then 1 else 0\<rparr>"

lemma async_thread_rearms_witness:
  "\<exists>es. async_event_thread 2 ((srq_zero 4096)\<lparr>g_ctx := 1, g_srq := 2\<rparr>) async_lab [] = (Ret (), es) \<and>
     acked es = 1 \<and> rearmed es = [SRQ_LIMIT]"
proof -
  let ?g = "(srq_zero 4096)\<lparr>g_ctx := 1, g_srq := 2\<rparr>"
  let ?L = "[\<lparr>res_key = KSrq 2, res_needs = [], res_info = Plain\<rparr>, ctx_res 1]"
  have "\<exists>es. async_event_thread 2 ?g async_lab [] = (Ret (), es) \<and> async_events es = [IBV_EVENT_SRQ_LIMIT_REACHED]"
    by (simp add: numeral_2_eq_2 run_defs async_lab_def lab_env_simps)
  then obtain es where r: "async_event_thread 2 ?g async_lab [] = (Ret (), es)"
    "async_events es = [IBV_EVENT_SRQ_LIMIT_REACHED]" by blast
  from async_thread_rearms [OF r(1), of ?L] r show ?thesis
    by (simp add: ledger_simps)
qed

end
