(* ===== verification/Cm_Common.thy ===== *)
theory Cm_Common
  imports Rc_Common Sound
begin

text \<open>
  What \<^verbatim>\<open>ch10-cm-client-server/cm_server.c\<close> and \<^verbatim>\<open>cm_client.c\<close> both contain: the context of a
  connection, posting, waiting for a completion, building the resources of a connection with the
  chain of error labels, and releasing them.  The call that starts the connection is the one
  difference, and an interface: it moves an identifier that has a queue pair on (locale \<open>starter\<close>).
\<close>

definition CM_PORT :: u16 where "CM_PORT = 12345"
definition CM_BUFFER_SIZE :: nat where "CM_BUFFER_SIZE = 1024"
definition MAX_WR :: int where "MAX_WR = 16"

text \<open>
  \<^verbatim>\<open>struct conn_context\<close> at \<open>cx_ptr\<close>, its buffers behind four pointers, with the fields \<^verbatim>\<open>verbs\<close> and
  \<^verbatim>\<open>qp\<close> of the identifier it belongs to.
\<close>

record conn_ctx =
  cx_ptr :: ptr
  cx_verbs :: ptr
  cx_pd :: ptr
  cx_cq :: ptr
  cx_recv_mr :: ibv_mr
  cx_send_mr :: ibv_mr
  cx_qp :: ptr

definition recv_buf :: "ptr \<Rightarrow> ptr" where "recv_buf p = p + of_nat 32"
definition send_buf :: "ptr \<Rightarrow> ptr" where "send_buf p = p + of_nat (32 + CM_BUFFER_SIZE)"

definition cm_post_receive :: "conn_ctx \<Rightarrow> int io" where
  "cm_post_receive c =
     sys (Vb (Ibv_post_recv (cx_qp c)
       \<lparr>rw_wr_id = 0,
        rw_sg_list = [\<lparr>sge_addr = recv_buf (cx_ptr c), sge_length = of_nat CM_BUFFER_SIZE,
          sge_lkey = mr_lkey (cx_recv_mr c)\<rparr>]\<rparr>))"

definition cm_post_send :: "conn_ctx \<Rightarrow> nat \<Rightarrow> int io" where
  "cm_post_send c len =
     sys (Vb (Ibv_post_send (cx_qp c)
       \<lparr>sw_wr_id = 1,
        sw_sg_list = [\<lparr>sge_addr = send_buf (cx_ptr c), sge_length = of_nat len,
          sge_lkey = mr_lkey (cx_send_mr c)\<rparr>],
        sw_opcode = IBV_WR_SEND, sw_send_flags = {IBV_SEND_SIGNALED}, sw_remote_addr = 0, sw_rkey = 0,
        sw_ah = 0, sw_remote_qpn = 0, sw_remote_qkey = 0\<rparr>))"

text \<open>
  \<^verbatim>\<open>while ((ret = ibv_poll_cq(ctx->cq, 1, &wc)) == 0);\<close> with the value it ends with; \<open>fuel\<close> bounds the
  polls.
\<close>

fun busy_wait :: "nat \<Rightarrow> ptr \<Rightarrow> (int + ibv_wc) io" where
  "busy_wait 0 cq = hang"
| "busy_wait (Suc fuel) cq =
     bnd (sys_wc (Vb (Ibv_poll_cq cq 1))) (\<lambda>(ne, wcs).
       if ne = 0 then busy_wait fuel cq
       else if ne < 0 then ret (Inl ne)
       else case wcs of [] \<Rightarrow> undef | wc # _ \<Rightarrow> ret (Inr wc))"

section \<open>Building the resources of a connection\<close>

text \<open>The labels an error jumps to, each falling through to the next.\<close>

definition err_free_ctx :: "ptr \<Rightarrow> conn_ctx option io" where
  "err_free_ctx p = seq (sysv (Os (Free p))) (ret None)"

definition err_dealloc_pd :: "ptr \<Rightarrow> ptr \<Rightarrow> conn_ctx option io" where
  "err_dealloc_pd p pd = seq (sys (Vb (Ibv_dealloc_pd pd))) (err_free_ctx p)"

definition err_destroy_cq :: "ptr \<Rightarrow> ptr \<Rightarrow> ptr \<Rightarrow> conn_ctx option io" where
  "err_destroy_cq p pd cq = seq (sys (Vb (Ibv_destroy_cq cq))) (err_dealloc_pd p pd)"

definition err_dereg_recv :: "ptr \<Rightarrow> ptr \<Rightarrow> ptr \<Rightarrow> ibv_mr \<Rightarrow> conn_ctx option io" where
  "err_dereg_recv p pd cq rm = seq (sys (Vb (Ibv_dereg_mr (mr_ptr rm)))) (err_destroy_cq p pd cq)"

definition err_dereg_send :: "ptr \<Rightarrow> ptr \<Rightarrow> ptr \<Rightarrow> ibv_mr \<Rightarrow> ibv_mr \<Rightarrow> conn_ctx option io" where
  "err_dereg_send p pd cq rm sm = seq (sys (Vb (Ibv_dereg_mr (mr_ptr sm)))) (err_dereg_recv p pd cq rm)"

definition err_destroy_qp :: "ptr \<Rightarrow> conn_ctx \<Rightarrow> conn_ctx option io" where
  "err_destroy_qp i c = seq (sysv (Cm (Rdma_destroy_qp i)))
     (err_dereg_send (cx_ptr c) (cx_pd c) (cx_cq c) (cx_recv_mr c) (cx_send_mr c))"

lemmas err_defs = err_free_ctx_def err_dealloc_pd_def err_destroy_cq_def err_dereg_recv_def err_dereg_send_def
  err_destroy_qp_def

definition cm_qp_attr :: "ptr \<Rightarrow> qp_init_attr" where
  "cm_qp_attr cq =
     \<lparr>qi_send_cq = cq, qi_recv_cq = cq, qi_srq = 0,
      qi_cap = \<lparr>max_send_wr = MAX_WR, max_recv_wr = MAX_WR, max_send_sge = 1, max_recv_sge = 1,
        max_inline_data = 0\<rparr>,
      qi_qp_type = IBV_QPT_RC, qi_sq_sig_all = 0\<rparr>"

text \<open>
  Everything from \<^verbatim>\<open>calloc\<close> on; \<open>sz\<close> is the size of the program's context, \<open>start\<close> the call that
  accepts or connects.  \<open>None\<close> is the return of -1, after which the identifier's context is gone.
\<close>

definition cm_build :: "nat \<Rightarrow> int io \<Rightarrow> ptr \<Rightarrow> ptr \<Rightarrow> conn_ctx option io" where
  "cm_build sz start i verbs =
     bnd (sysp (Os (Calloc 1 sz))) (\<lambda>p. if p = 0 then ret None else
     bnd (sysp (Vb (Ibv_alloc_pd verbs))) (\<lambda>pd. if pd = 0 then err_free_ctx p else
     bnd (sysp (Vb (Ibv_create_cq verbs (MAX_WR * 2)))) (\<lambda>cq. if cq = 0 then err_dealloc_pd p pd else
     bnd (sys_mr (Vb (Ibv_reg_mr pd (recv_buf p) CM_BUFFER_SIZE {IBV_ACCESS_LOCAL_WRITE}))) (\<lambda>rm.
     if mr_ptr rm = 0 then err_destroy_cq p pd cq else
     bnd (sys_mr (Vb (Ibv_reg_mr pd (send_buf p) CM_BUFFER_SIZE {IBV_ACCESS_LOCAL_WRITE}))) (\<lambda>sm.
     if mr_ptr sm = 0 then err_dereg_recv p pd cq rm else
     bnd (sys_intptr (Cm (Rdma_create_qp i pd (cm_qp_attr cq)))) (\<lambda>(r, q).
     if r \<noteq> 0 then err_dereg_send p pd cq rm sm else
     let c = \<lparr>cx_ptr = p, cx_verbs = verbs, cx_pd = pd, cx_cq = cq, cx_recv_mr = rm, cx_send_mr = sm,
       cx_qp = q\<rparr> in
     bnd (cm_post_receive c) (\<lambda>r. if r \<noteq> 0 then err_destroy_qp i c else
     bnd start (\<lambda>r. if r \<noteq> 0 then err_destroy_qp i c else
     ret (Some c)))))))))"

text \<open>Releasing them, in both handlers for the end of a connection.\<close>

definition cm_release :: "ptr \<Rightarrow> conn_ctx \<Rightarrow> unit io" where
  "cm_release i c =
     seq (sysv (Cm (Rdma_destroy_qp i))) (
     seq (sys (Vb (Ibv_dereg_mr (mr_ptr (cx_send_mr c))))) (
     seq (sys (Vb (Ibv_dereg_mr (mr_ptr (cx_recv_mr c))))) (
     seq (sys (Vb (Ibv_destroy_cq (cx_cq c)))) (
     seq (sys (Vb (Ibv_dealloc_pd (cx_pd c)))) (
     sysv (Os (Free (cx_ptr c))))))))"

section \<open>The ledger of a connection\<close>

abbreviation id_res :: "ptr \<Rightarrow> cm_phase \<Rightarrow> ptr \<Rightarrow> res" where
  "id_res i ph q \<equiv> \<lparr>res_key = KId i, res_needs = [], res_info = Conn ph q\<rparr>"

definition conn_own :: "nat \<Rightarrow> conn_ctx \<Rightarrow> qp_state \<Rightarrow> ledger" where
  "conn_own sz c st =
     [qp_res (cx_qp c) (cx_pd c) (cx_cq c) IBV_QPT_RC st,
      mr_res (cx_send_mr c) (cx_pd c) (send_buf (cx_ptr c)) CM_BUFFER_SIZE {IBV_ACCESS_LOCAL_WRITE},
      mr_res (cx_recv_mr c) (cx_pd c) (recv_buf (cx_ptr c)) CM_BUFFER_SIZE {IBV_ACCESS_LOCAL_WRITE},
      cq_res (cx_cq c) (cx_verbs c), pd_res (cx_pd c) (cx_verbs c), buf_res (cx_ptr c) sz]"

definition conn_res :: "nat \<Rightarrow> ptr \<Rightarrow> conn_ctx \<Rightarrow> qp_state \<Rightarrow> cm_phase \<Rightarrow> ledger" where
  "conn_res sz i c st ph = conn_own sz c st @ [id_res i ph (cx_qp c)]"

definition conn_ok :: "nat \<Rightarrow> conn_ctx \<Rightarrow> bool" where
  "conn_ok sz c \<longleftrightarrow> cx_ptr c \<noteq> 0 \<and> cx_qp c \<noteq> 0 \<and> mr_ptr (cx_send_mr c) \<noteq> mr_ptr (cx_recv_mr c) \<and>
     unat (cx_ptr c) + sz \<le> 2 ^ 64 \<and> 32 + 2 * CM_BUFFER_SIZE \<le> sz"

text \<open>Every memory region starts in a block of the ledger.\<close>

definition regions_in_blocks :: "ledger \<Rightarrow> bool" where
  "regions_in_blocks R \<longleftrightarrow> (\<forall>r \<in> set R. \<forall>a n k A. res_info r = Region a n k A \<longrightarrow>
     (\<exists>r' \<in> set R. \<exists>q m. res_info r' = Block q m \<and> unat q \<le> unat a \<and> unat a < unat q + m))"

lemma regions_apart:
  assumes "regions_in_blocks R" "\<forall>r \<in> set R. \<not> clash p sz (res_info r)" "r \<in> set R"
  shows "\<not> region_in p sz (res_info r)"
proof (cases "res_info r")
  case (Region a n k A)
  with assms(1,3) obtain r' q m where b: "r' \<in> set R" "res_info r' = Block q m" "unat q \<le> unat a" "unat a < unat q + m"
    unfolding regions_in_blocks_def by blast
  with assms(2) have "\<not> clash p sz (Block q m)" by metis
  with b Region show ?thesis by auto
qed auto

lemma set_id_id: "\<not> live L (KId i) \<Longrightarrow> set_id i ph q L = L"
  by (induction L) (auto simp: ledger_simps)

section \<open>The interface of the call that starts a connection\<close>

locale starter =
  fixes i :: ptr and ph0 :: cm_phase and start :: "int io"
  assumes start: "\<exists>c. start = sys (Cm c) \<and>
    (\<forall>L r. cm_step L c r = cm_move i (\<lambda>ph q. ph = ph0 \<and> q \<noteq> 0) Cm_connecting (rint r) L)"
begin

lemma keeps_build:
  assumes "sound R" "live R (KCtx verbs)" "regions_in_blocks R" "\<not> live R (KId i)" "32 + 2 * CM_BUFFER_SIZE \<le> sz"
    and "\<And>c L. conn_ok sz c \<Longrightarrow> cx_verbs c = verbs \<Longrightarrow> L = conn_res sz i c IBV_QPS_INIT Cm_connecting @ R \<Longrightarrow> Q (Ret (Some c)) L"
    and "Q (Ret None) (id_res i ph0 0 # R)"
  shows "keeps v (cm_build sz start i verbs) (id_res i ph0 0 # R) Q"
proof -
  from start obtain c where s: "start = sys (Cm c)"
    "\<And>L r. cm_step L c r = cm_move i (\<lambda>ph q. ph = ph0 \<and> q \<noteq> 0) Cm_connecting (rint r) L"
    by blast
  have wf: "wf_ledger R" using assms(1) by (simp add: sound_def)
  have nz: "unat (of_nat CM_BUFFER_SIZE :: u32) = CM_BUFFER_SIZE" by (simp add: CM_BUFFER_SIZE_def)
  note apart = regions_apart [OF assms(3)]
  show ?thesis
    unfolding cm_build_def s(1) Let_def
    using assms(2,4,5,7) wf nz apart
    by (auto intro!: obeys_rules assms(6) simp: err_defs cm_post_receive_def cm_qp_attr_def post_recv_ok_def
        ledger_simps s(2) fresh_not_needed filter_fresh set_id_id conn_res_def conn_own_def conn_ok_def)
qed

end

section \<open>Releasing a connection\<close>

text \<open>What the rest of the ledger needs is its own, or a device context.\<close>

definition closed :: "ledger \<Rightarrow> bool" where
  "closed A \<longleftrightarrow> (\<forall>k. needed A k \<longrightarrow> live A k \<or> (\<exists>c. k = KCtx c))"

lemma clash_sym: "clash p n (Block q m) = clash q m (Block p n)"
  by auto

lemma sound_frame:
  assumes "sound (A @ X @ B)" "closed A" "live X k" "\<And>c. k \<noteq> KCtx c"
  shows "\<not> live A k" "\<not> live B k" "\<not> needed A k" "\<not> needed B k"
proof -
  have d: "distinct (map res_key (A @ X @ B))" and w: "wf_ledger (A @ X @ B)"
    using assms(1) by (auto simp: sound_def)
  show l: "\<not> live A k" "\<not> live B k"
    using d assms(3) by (auto simp: live_set)
  show "\<not> needed A k" using assms(2,4) l(1) by (auto simp: closed_def)
  have "wf_ledger (K @ L) \<Longrightarrow> wf_ledger L" for K L by (induction K) auto
  then have "wf_ledger B" using w by blast
  then show "\<not> needed B k" using l(2) by (rule fresh_not_needed)
qed

lemma sound_block_frame:
  assumes "sound (A @ X @ B)" "buf_res p n \<in> set X" "regions_in_blocks A" "regions_in_blocks B" "r \<in> set A \<union> set B"
  shows "\<not> region_in p n (res_info r)"
proof -
  have s: "sorted_wrt apart_blocks (A @ X @ B)" using assms(1) by (simp add: sound_def)
  have "\<not> clash p n (res_info r')" if "r' \<in> set A" for r'
  proof (cases "res_info r'")
    case (Block q m)
    have "apart_blocks r' (buf_res p n)" using s assms(2) that by (auto simp: sorted_wrt_append)
    with Block show ?thesis by (auto simp: apart_blocks_def)
  qed auto
  moreover have "\<not> clash p n (res_info r')" if "r' \<in> set B" for r'
    using s assms(2) that by (force simp: sorted_wrt_append apart_blocks_def)
  ultimately show ?thesis
    using regions_apart [OF assms(3)] regions_apart [OF assms(4)] assms(5) by blast
qed

lemma id_entry_append: "\<not> live A (KId i) \<Longrightarrow> id_entry (A @ L) i = id_entry L i"
  by (induction A) (auto simp: ledger_simps)

lemma set_id_append: "set_id i ph q (A @ L) = set_id i ph q A @ set_id i ph q L"
  by (simp add: set_id_def)

lemma block_size_append: "\<not> live A k \<Longrightarrow> block_size (A @ L) k = block_size L k"
  by (induction A) (auto simp: ledger_simps)

lemma keeps_cm_release:
  assumes "sound (A @ conn_res sz i c st ph @ B)" "closed A" "regions_in_blocks A" "regions_in_blocks B" "conn_ok sz c"
    and "Q (Ret ()) (A @ id_res i ph 0 # B)"
  shows "keeps v (cm_release i c) (A @ conn_res sz i c st ph @ B) Q"
proof -
  let ?X = "conn_res sz i c st ph"
  note fr = sound_frame [OF assms(1,2)]
  have k: "live ?X (KQp (cx_qp c))" "live ?X (KMr (mr_ptr (cx_send_mr c)))" "live ?X (KMr (mr_ptr (cx_recv_mr c)))"
    "live ?X (KCq (cx_cq c))" "live ?X (KPd (cx_pd c))" "live ?X (KBuf (cx_ptr c))" "live ?X (KId i)"
    by (simp_all add: conn_res_def conn_own_def ledger_simps)
  have b: "\<not> region_in (cx_ptr c) sz (res_info r)" if "r \<in> set A \<union> set B" for r
    by (rule sound_block_frame [OF assms(1) _ assms(3,4) that]) (simp add: conn_res_def conn_own_def)
  note facts = fr [OF k(1), simplified] fr [OF k(2), simplified] fr [OF k(3), simplified] fr [OF k(4), simplified]
    fr [OF k(5), simplified] fr [OF k(6), simplified] fr [OF k(7), simplified]
  have ne: "mr_ptr (cx_send_mr c) \<noteq> mr_ptr (cx_recv_mr c)" "cx_ptr c \<noteq> 0" "cx_qp c \<noteq> 0"
    using assms(5) by (auto simp: conn_ok_def)
  show ?thesis
    unfolding cm_release_def conn_res_def conn_own_def
    using assms(6) ne b
    by (auto intro!: obeys_rules simp: facts ledger_simps id_entry_append set_id_append set_id_id filter_fresh
        block_size_append)
qed

section \<open>Waiting and posting\<close>

lemma keeps_busy_wait [obeys_rules]:
  assumes "live L (KCq cq)" "\<And>r. Q (Ret r) L" "Q UB L" "Q Hang L"
  shows "keeps v (busy_wait fuel cq) L Q"
proof (induction fuel)
  case (Suc fuel)
  then show ?case using assms by (auto intro!: obeys_rules split: list.split)
qed (simp add: assms)

text \<open>What the handlers use of an established connection, wherever it lies in the ledger.\<close>

definition conn_usable :: "conn_ctx \<Rightarrow> ledger \<Rightarrow> bool" where
  "conn_usable c L \<longleftrightarrow> live L (KCq (cx_cq c)) \<and> qp_entry L (cx_qp c) = Some (IBV_QPT_RC, IBV_QPS_RTS) \<and>
     mem_ok L (recv_buf (cx_ptr c)) CM_BUFFER_SIZE \<and>
     (\<forall>n. n \<le> CM_BUFFER_SIZE \<longrightarrow> mem_ok L (send_buf (cx_ptr c)) n) \<and>
     (\<forall>n. 0 < n \<longrightarrow> n \<le> CM_BUFFER_SIZE \<longrightarrow> sge_ok L {}
        \<lparr>sge_addr = send_buf (cx_ptr c), sge_length = of_nat n, sge_lkey = mr_lkey (cx_send_mr c)\<rparr>)"

lemma mem_ok_append: "mem_ok (A @ B) a n \<longleftrightarrow> mem_ok A a n \<or> mem_ok B a n"
  by (auto simp: mem_ok_def)

lemma sge_ok_append: "sge_ok (A @ B) P g \<longleftrightarrow> sge_ok A P g \<or> sge_ok B P g"
  by (auto simp: sge_ok_def)

lemma qp_entry_fresh: "\<not> live A (KQp q) \<Longrightarrow> qp_entry (A @ L) q = qp_entry L q"
  by (induction A) (auto simp: ledger_simps)

lemma conn_usable_at:
  assumes "sound (A @ conn_res sz i c IBV_QPS_RTS ph @ B)" "conn_ok sz c"
  shows "conn_usable c (A @ conn_res sz i c IBV_QPS_RTS ph @ B)"
proof -
  from assms(2) have p: "unat (cx_ptr c) + sz \<le> 2 ^ 64" "32 + 2 * CM_BUFFER_SIZE \<le> sz"
    by (auto simp: conn_ok_def)
  have l: "\<not> live A (KQp (cx_qp c))"
    using assms(1) by (auto simp: sound_def live_set conn_res_def conn_own_def)
  have w: "within (cx_ptr c) sz (recv_buf (cx_ptr c)) CM_BUFFER_SIZE"
    unfolding recv_buf_def by (rule within_offset [OF p(1)]) (use p(2) in \<open>auto simp: CM_BUFFER_SIZE_def\<close>)
  have w': "within (cx_ptr c) sz (send_buf (cx_ptr c)) n" if "0 < n" "n \<le> CM_BUFFER_SIZE" for n
    unfolding send_buf_def by (rule within_offset [OF p(1) _ that(1)]) (use p(2) that in auto)
  have w0: "within (cx_ptr c) sz (send_buf (cx_ptr c)) n" if "n \<le> CM_BUFFER_SIZE" for n
    using w' [OF _ that] w' [of 1] by (cases "n = 0") (auto simp: within_def CM_BUFFER_SIZE_def)
  have u: "unat (of_nat n :: u32) = n" if "n \<le> CM_BUFFER_SIZE" for n
    using that by (simp add: CM_BUFFER_SIZE_def unat_of_nat)
  show ?thesis
    unfolding conn_usable_def conn_res_def
    using w w0 u l
    by (auto simp: conn_own_def ledger_simps mem_ok_append sge_ok_append qp_entry_fresh)
qed

lemma post_send_usable:
  assumes "conn_usable c L" "0 < n" "n \<le> CM_BUFFER_SIZE"
  shows "post_send_ok L (cx_qp c)
      \<lparr>sw_wr_id = 1, sw_sg_list = [\<lparr>sge_addr = send_buf (cx_ptr c), sge_length = of_nat n, sge_lkey = mr_lkey (cx_send_mr c)\<rparr>],
       sw_opcode = IBV_WR_SEND, sw_send_flags = {IBV_SEND_SIGNALED}, sw_remote_addr = 0, sw_rkey = 0,
       sw_ah = 0, sw_remote_qpn = 0, sw_remote_qkey = 0\<rparr>"
  using assms by (simp add: post_send_ok_def conn_usable_def)

section \<open>What the connection manager keeps for itself\<close>

definition lib_only :: "ledger \<Rightarrow> bool" where
  "lib_only V \<longleftrightarrow> (\<forall>r \<in> set V. \<exists>c. r = ctx_res c)"

abbreviation chan_res :: "ptr \<Rightarrow> res" where
  "chan_res ch \<equiv> \<lparr>res_key = KChan ch, res_needs = [], res_info = Plain\<rparr>"

lemma lib_only_live: "lib_only V \<Longrightarrow> live V k \<Longrightarrow> \<exists>c. k = KCtx c"
  by (auto simp: lib_only_def live_def)

lemma conn_res_closed:
  "needed (conn_res sz i c st ph) k \<Longrightarrow> live (conn_res sz i c st ph) k \<or> (\<exists>c. k = KCtx c)"
  by (auto simp: conn_res_def conn_own_def ledger_simps)

lemma id_entry_lib: "lib_only V \<Longrightarrow> id_entry V i = None"
  by (induction V) (auto simp: ledger_simps lib_only_def)

lemma lib_needs: "lib_only V \<Longrightarrow> \<not> needed V k" "lib_only V \<Longrightarrow> (\<And>c. k \<noteq> KCtx c) \<Longrightarrow> \<not> live V k"
  by (force simp: lib_only_def needed_def live_def)+

lemma regions_append: "regions_in_blocks A \<Longrightarrow> regions_in_blocks B \<Longrightarrow> regions_in_blocks (A @ B)"
  unfolding regions_in_blocks_def by (metis Un_iff set_append)

lemma conn_regions:
  assumes "conn_ok sz c"
  shows "regions_in_blocks (conn_res sz i c st ph)"
proof -
  from assms have p: "unat (cx_ptr c) + sz \<le> 2 ^ 64" "32 + 2 * CM_BUFFER_SIZE \<le> sz"
    by (auto simp: conn_ok_def)
  have "within (cx_ptr c) sz (recv_buf (cx_ptr c)) 1" "within (cx_ptr c) sz (send_buf (cx_ptr c)) 1"
    unfolding recv_buf_def send_buf_def
    by (rule within_offset [OF p(1)]; use p(2) in \<open>simp add: CM_BUFFER_SIZE_def\<close>)+
  then show ?thesis
    by (auto simp: regions_in_blocks_def conn_res_def conn_own_def within_def intro!: exI)
qed

lemma open_lib_base:
  assumes "lib_only V" "\<And>c. \<not> live A (KCtx c)"
  shows "\<exists>V'. open_lib u (A @ V) = A @ V' \<and> lib_only V' \<and> live V' (KCtx u) \<and> (\<forall>k. live V k \<longrightarrow> live V' k)"
proof (cases "live V (KCtx u)")
  case True
  with assms show ?thesis by (intro exI [of _ V]) (simp add: open_lib_def)
next
  case False
  with assms show ?thesis
    by (intro exI [of _ "V @ [ctx_res u]"]) (auto simp: open_lib_def lib_only_def ledger_simps)
qed

section \<open>Moving a connection on\<close>

lemma set_id_conn:
  assumes "sound (A @ conn_res sz i c st ph @ B)"
  shows "set_id i ph' (cx_qp c) (A @ conn_res sz i c st ph @ B) = A @ conn_res sz i c st ph' @ B"
proof -
  have "\<not> live A (KId i)" "\<not> live B (KId i)"
    using assms by (auto simp: sound_def live_set conn_res_def)
  then show ?thesis
    by (simp add: set_id_append set_id_id conn_res_def conn_own_def ledger_simps)
qed

lemma set_qp_conn:
  assumes "sound (A @ conn_res sz i c st ph @ B)"
  shows "set_qp_state (cx_qp c) st' (A @ conn_res sz i c st ph @ B) = A @ conn_res sz i c st' ph @ B"
proof -
  have "\<not> live A (KQp (cx_qp c))" "\<not> live B (KQp (cx_qp c))"
    using assms by (auto simp: sound_def live_set conn_res_def conn_own_def)
  moreover have "\<not> live L (KQp q) \<Longrightarrow> set_qp_state q s L = L" for L q s
    by (induction L) (auto simp: ledger_simps)
  moreover have "set_qp_state q s (K @ L) = set_qp_state q s K @ set_qp_state q s L" for K L q s
    by (simp add: set_qp_state_def)
  ultimately show ?thesis
    by (simp add: conn_res_def conn_own_def ledger_simps)
qed

section \<open>The events a run was given\<close>

fun cm_type_by :: "event \<Rightarrow> cm_event_type list" where
  "cm_type_by (Cm (Rdma_get_cm_event ch), RCm n e) = (if n = 0 then [ev_type e] else [])"
| "cm_type_by _ = []"

definition cm_types :: "event list \<Rightarrow> cm_event_type list" where
  "cm_types es = concat (map cm_type_by es)"

definition count_of :: "cm_event_type \<Rightarrow> cm_event_type list \<Rightarrow> nat" where
  "count_of t xs = length (filter (\<lambda>x. x = t) xs)"

lemma count_of_simps [simp]:
  "count_of t [] = 0" "count_of t (x # xs) = (if x = t then Suc (count_of t xs) else count_of t xs)"
  "count_of t (xs @ ys) = count_of t xs + count_of t ys"
  by (simp_all add: count_of_def)

lemma calls_busy_wait [only_rules]: "P (Vb (Ibv_poll_cq cq 1)) \<Longrightarrow> calls P (busy_wait fuel cq)"
  by (induction fuel) (auto intro!: only_rules)

fun is_get :: "call \<Rightarrow> bool" where
  "is_get (Cm (Rdma_get_cm_event ch)) = True"
| "is_get _ = False"

lemma cm_silent:
  "calls (\<lambda>c. \<not> is_get c) m \<Longrightarrow> only (\<lambda>e. cm_type_by e = []) m"
proof -
  have "\<not> is_get (fst e) \<Longrightarrow> cm_type_by e = []" for e
    by (cases e rule: cm_type_by.cases) auto
  then show "calls (\<lambda>c. \<not> is_get c) m \<Longrightarrow> only (\<lambda>e. cm_type_by e = []) m"
    by (auto simp: only_def list_all_iff)
qed

text \<open>
  One round of an event loop: nothing more to do when no event comes, else the event is acknowledged
  and handled.
\<close>

lemma obeys_event:
  assumes "sound L" "live L (KChan ch)" "Q (Ret ()) (L, xs)"
    and "\<And>e. fair (\<lambda>L'. sound L' \<longrightarrow> obeys (paired contract cm_type_by) v (handle e) (L', xs @ [ev_type e]) Q) (cm_deliver e L)"
  shows "obeys (paired contract cm_type_by) v
    (bnd (sys_cm (Cm (Rdma_get_cm_event ch))) (\<lambda>(r, event).
       if r \<noteq> 0 then ret () else seq (sysv (Cm Rdma_ack_cm_event)) (handle event))) (L, xs) Q"
proof (rule obeys_bnd, rule obeys_sys_cm)
  fix n e
  have ack: "obeys (paired contract cm_type_by) v (seq (sysv (Cm Rdma_ack_cm_event)) m) (L', xs') Q"
    if "obeys (paired contract cm_type_by) v m (L', xs') Q" for m L' xs'
    by (intro obeys_seq obeys_sysv) (simp add: that)
  have mono: "fair P x \<Longrightarrow> (\<And>s. P s \<Longrightarrow> P' s) \<Longrightarrow> fair P' x" for P P' :: "ledger \<Rightarrow> bool" and x
    by (cases x) auto
  have "fair (\<lambda>L'. obeys (paired contract cm_type_by) v (handle e) (L', xs @ [ev_type e]) Q)
    (contract L (Cm (Rdma_get_cm_event ch), RCm 0 e))"
    by (rule fair_sound [OF assms(1)]) (use assms(2,4) in simp)
  then have "fair (\<lambda>L'. obeys (paired contract cm_type_by) v (handle e) (L', xs @ [ev_type e]) Q) (cm_deliver e L)"
    using assms(2) by simp
  then show "fair (after (\<lambda>a s'. obeys (paired contract cm_type_by) v (case a of (r, event) \<Rightarrow>
      if r \<noteq> 0 then ret () else seq (sysv (Cm Rdma_ack_cm_event)) (handle event)) s' Q) Q (Ret (n, e)))
    (paired contract cm_type_by (L, xs) (Cm (Rdma_get_cm_event ch), RCm n e))"
    using assms(2,3) mono [OF _ ack] by (cases "n = 0") simp_all
qed

section \<open>What a run took from the completion queue and what it sent\<close>

fun polled_by :: "event \<Rightarrow> ibv_wc list" where
  "polled_by (Vb (Ibv_poll_cq c k), RWc n ws) = take k ws"
| "polled_by _ = []"

definition polled :: "event list \<Rightarrow> ibv_wc list" where
  "polled es = concat (map polled_by es)"

text \<open>The segments of the accepted sends, and the receives accepted.\<close>

fun sends_by :: "event \<Rightarrow> (u64 \<times> nat) list" where
  "sends_by (Vb (Ibv_post_send q w), RInt rc) =
     (if rc = 0 then map (\<lambda>g. (sge_addr g, unat (sge_length g))) (sw_sg_list w) else [])"
| "sends_by _ = []"

definition sends :: "event list \<Rightarrow> (u64 \<times> nat) list" where
  "sends es = concat (map sends_by es)"

fun recvs_by :: "event \<Rightarrow> (ptr \<times> u64 \<times> nat) list" where
  "recvs_by (Vb (Ibv_post_recv q w), RInt rc) =
     (if rc = 0 then map (\<lambda>g. (q, sge_addr g, unat (sge_length g))) (rw_sg_list w) else [])"
| "recvs_by _ = []"

definition recvs :: "event list \<Rightarrow> (ptr \<times> u64 \<times> nat) list" where
  "recvs es = concat (map recvs_by es)"

lemma traffic_simps [simp]:
  "polled [] = []" "polled (e # es) = polled_by e @ polled es" "polled (es @ es') = polled es @ polled es'"
  "sends [] = []" "sends (e # es) = sends_by e @ sends es" "sends (es @ es') = sends es @ sends es'"
  "recvs [] = []" "recvs (e # es) = recvs_by e @ recvs es" "recvs (es @ es') = recvs es @ recvs es'"
  by (simp_all add: polled_def sends_def recvs_def)

lemma busy_wait_took:
  assumes "busy_wait fuel cq v h = (Ret (Inr wc), es)"
  shows "polled es = [wc]" "work es = [Completed]" "sends es = []" "stored p es = []"
proof -
  have "polled es = [wc] \<and> work es = [Completed] \<and> sends es = [] \<and> stored p es = []"
    using assms
  proof (induction fuel arbitrary: h es)
    case (Suc fuel)
    from Suc.prems obtain n ws es' where e: "es = (Vb (Ibv_poll_cq cq 1), RWc n (fit_wc (nat n) ws)) # es'"
      and r: "(if n = 0 then busy_wait fuel cq else if n < 0 then ret (Inl n) else
        case fit_wc (nat n) ws of [] \<Rightarrow> undef | wc # _ \<Rightarrow> ret (Inr wc)) v
        (h @ [(Vb (Ibv_poll_cq cq 1), RWc n (fit_wc (nat n) ws))]) = (Ret (Inr wc), es')"
      by (auto simp: bnd_eq_Ret sys_wc_def split: prod.splits)
    then show ?case
      using Suc.IH by (cases "fit_wc (nat n) ws") (auto split: if_splits simp: fit_wc_def)
  qed simp
  then show "polled es = [wc]" "work es = [Completed]" "sends es = []" "stored p es = []" by auto
qed

lemma sysv_Ret:
  "seq (sysv c) m v h = (Ret b, es) \<longleftrightarrow>
     (\<exists>es'. es = (c, RVoid) # es' \<and> m v (h @ [(c, RVoid)]) = (Ret b, es'))"
  by (auto simp: seq_eq_Ret sysv_def)

text \<open>A wait that did not end the handler had a completion.\<close>

lemma bnd_sum_Ret:
  assumes "k \<noteq> b"
  shows "bnd m (case_sum (\<lambda>e. ret k) f) v h = (Ret b, es) \<longleftrightarrow>
     (\<exists>x es1 es2. m v h = (Ret (Inr x), es1) \<and> f x v (h @ es1) = (Ret b, es2) \<and> es = es1 @ es2)"
proof
  assume "bnd m (case_sum (\<lambda>e. ret k) f) v h = (Ret b, es)"
  then obtain r es1 es2 where r: "m v h = (Ret r, es1)" "case_sum (\<lambda>e. ret k) f r v (h @ es1) = (Ret b, es2)" "es = es1 @ es2"
    by (rule bnd_RetE)
  then obtain x where "r = Inr x" using assms by (cases r) auto
  with r show "\<exists>x es1 es2. m v h = (Ret (Inr x), es1) \<and> f x v (h @ es1) = (Ret b, es2) \<and> es = es1 @ es2" by auto
qed (auto simp: bnd_Ret)

lemma stored_append: "stored p (es @ es') = (if stored p es' = [] then stored p es else stored p es')"
  by (induction es) (auto split: list.split)

lemma load_str_traffic:
  assumes "load_str p n v h = (Ret d, es)"
  shows "polled es = []" "work es = []" "sends es = []" "stored q es = []" "length d < n"
proof -
  from assms obtain k bs where "es = [(Os (Mem_load p n), RBytes k bs)]"
    by (auto simp: load_str_def bnd_eq_Ret sys_load_def split: prod.splits if_splits)
  then show "polled es = []" "work es = []" "sends es = []" "stored q es = []" by simp_all
  show "length d < n" using load_str_quiet [OF assms] by simp
qed

text \<open>Sending the string in the send buffer, when nobody else writes it.\<close>

lemma snprintf_fits: "length s < n \<Longrightarrow> snprintf_bytes n s = chars s @ [0]"
  by (auto simp: snprintf_bytes_def)

lemma sent_string:
  assumes "load_str (send_buf p) CM_BUFFER_SIZE v (h @ [(Os (Mem_store (send_buf p) (snprintf_bytes CM_BUFFER_SIZE s)), RVoid)]) = (Ret d, es)"
    and "own_memory v (send_buf p)" "no_nul s" "length s < CM_BUFFER_SIZE"
  shows "length d = length s" "unat (of_nat (length d + 1) :: u32) = length s + 1"
proof -
  have z: "0 < CM_BUFFER_SIZE" "snprintf_bytes CM_BUFFER_SIZE s \<noteq> []"
    using assms(4) by (auto simp: snprintf_bytes_def)
  have "d = takeWhile (\<lambda>b. b \<noteq> 0) (fit CM_BUFFER_SIZE (snprintf_bytes CM_BUFFER_SIZE s))"
    using load_str_own [OF assms(1,2)] z by simp
  then show l: "length d = length s"
    using strlen_fit_snprintf [OF assms(3) z(1)] assms(4) by simp
  have "length s + 1 < 2 ^ 32" using assms(4) by (simp add: CM_BUFFER_SIZE_def)
  then show "unat (of_nat (length d + 1) :: u32) = length s + 1"
    by (simp add: l unat_of_nat del: of_nat_add of_nat_Suc)
qed

text \<open>
  A built connection was started last, after one receive for the whole buffer was accepted.
\<close>

lemma cm_build_armed:
  assumes "cm_build sz (sys (Cm k)) i verbs v h = (Ret (Some c), es)"
  shows "\<exists>es'. es = es' @ [(Cm k, RInt 0)] \<and> work es' = [Posted_recv 0] \<and>
    recvs es' = [(cx_qp c, recv_buf (cx_ptr c), CM_BUFFER_SIZE)]"
proof -
  have "unat (of_nat CM_BUFFER_SIZE :: u32) = CM_BUFFER_SIZE" by (simp add: CM_BUFFER_SIZE_def)
  then show ?thesis
    using assms
    by (auto simp: cm_build_def bnd_eq_Ret seq_eq_Ret sysp_def sys_mr_def sys_intptr_def sys_def cm_post_receive_def
        err_defs Let_def split: if_splits prod.splits)
qed

section \<open>An environment for both programs\<close>

text \<open>The events of \<open>ts\<close>, for the identifier \<open>i\<close>; memory reads as zeros.\<close>

definition cm_lab :: "ptr \<Rightarrow> cm_event_type list \<Rightarrow> env" where
  "cm_lab i ts = (lab_env 17 5 [])\<lparr>env_bytes := \<lambda>h c. (0, []),
     env_cm := \<lambda>h. if length (cm_types h) < length ts
       then (0, \<lparr>ev_type = ts ! length (cm_types h), ev_id = i, ev_verbs = 64\<rparr>)
       else (- 1, \<lparr>ev_type = Cm_event_other 0, ev_id = 0, ev_verbs = 0\<rparr>)\<rparr>"

lemma cm_lab_simps:
  "env_order (cm_lab i ts) = Little" "env_ptr (cm_lab i ts) h c = lab_handle h" "env_int (cm_lab i ts) h c = lab_int h c"
  "env_mr (cm_lab i ts) h c = lab_mr h c" "env_wc (cm_lab i ts) h c = (1, [lab_wc])"
  "env_intptr (cm_lab i ts) h c = (0, lab_handle h)"
  "env_cm (cm_lab i ts) h = (if length (cm_types h) < length ts
       then (0, \<lparr>ev_type = ts ! length (cm_types h), ev_id = i, ev_verbs = 64\<rparr>)
       else (- 1, \<lparr>ev_type = Cm_event_other 0, ev_id = 0, ev_verbs = 0\<rparr>))"
  by (simp_all add: cm_lab_def lab_env_simps)

lemmas judge_defs = acquire_def acquire_ptr_def acquire_block_def acquire_mr_def release_def release_rc_def
  release_block_def use_def require_def cm_move_def cm_deliver_def open_lib_def post_send_ok_def post_recv_ok_def
  within_def

lemma cm_lab_load:
  "0 < n \<Longrightarrow> load_str p n (cm_lab i ts) h = (Ret [], [(Os (Mem_load p n), RBytes (int n) (replicate n 0))])"
  by (simp add: load_str_def cm_lab_def run_defs fit_def split: nat.split)

end
