(* ===== verification/Cm_Server.thy ===== *)
theory Cm_Server
  imports Cm_Common
begin

text \<open>
  \<^verbatim>\<open>ch10-cm-client-server/cm_server.c\<close>: an event loop over librdmacm.  The field \<^verbatim>\<open>context\<close> of the
  identifiers is the map \<open>ctxs\<close>, an entry set when a connection request was accepted.
\<close>

definition CS_CTX_SIZE :: nat where "CS_CTX_SIZE = 2080"

definition cs_conn_param :: conn_param where
  "cs_conn_param = \<lparr>cp_responder_resources = 1, cp_initiator_depth = 1, cp_retry_count = 0,
     cp_rnr_retry_count = 0\<rparr>"

definition cs_on_connect_request :: "ptr \<Rightarrow> ptr \<Rightarrow> conn_ctx option io" where
  "cs_on_connect_request i verbs =
     cm_build CS_CTX_SIZE (sys (Cm (Rdma_accept i cs_conn_param))) i verbs"

interpretation cs: starter i Cm_request "sys (Cm (Rdma_accept i p))" for i p
  by unfold_locales (auto intro!: exI)

definition cs_text :: "u32 \<Rightarrow> string" where
  "cs_text n = ''Hello from server! Your message was '' @ fmt_u (unat n) @ '' bytes.''"

text \<open>What the client sent is printed as a string: with no NUL in the buffer the read runs past its end.\<close>

text \<open>The second half of \<^verbatim>\<open>on_established\<close>: the reply to the message that completed with \<open>wc\<close>.\<close>

definition cs_answer :: "nat \<Rightarrow> conn_ctx \<Rightarrow> ibv_wc \<Rightarrow> int io" where
  "cs_answer fuel c wc =
     seq (sysv (Os (Mem_store (send_buf (cx_ptr c))
       (snprintf_bytes CM_BUFFER_SIZE (cs_text (wc_byte_len wc)))))) (
     bnd (load_str (send_buf (cx_ptr c)) CM_BUFFER_SIZE) (\<lambda>str.
     bnd (cm_post_send c (length str + 1)) (\<lambda>r.
     if r \<noteq> 0 then ret (- 1)
     else bnd (busy_wait fuel (cx_cq c)) (\<lambda>r. case r of
       Inl e \<Rightarrow> ret (- 1)
     | Inr wc \<Rightarrow> if wc_status wc \<noteq> IBV_WC_SUCCESS then ret (- 1) else ret 0))))"

definition cs_on_established :: "nat \<Rightarrow> conn_ctx \<Rightarrow> int io" where
  "cs_on_established fuel c =
     bnd (busy_wait fuel (cx_cq c)) (\<lambda>r. case r of
       Inl e \<Rightarrow> ret (- 1)
     | Inr wc \<Rightarrow>
         if wc_status wc \<noteq> IBV_WC_SUCCESS then ret (- 1)
         else seq (load_str (recv_buf (cx_ptr c)) CM_BUFFER_SIZE) (cs_answer fuel c wc))"

definition cs_on_disconnected :: "ptr \<Rightarrow> conn_ctx \<Rightarrow> unit io" where
  "cs_on_disconnected i c = seq (cm_release i c) (sysv (Cm (Rdma_destroy_id i)))"

text \<open>\<open>fuel\<close> bounds the number of events handled, and the polls within a handler.\<close>

fun cs_loop :: "nat \<Rightarrow> ptr \<Rightarrow> (ptr \<Rightarrow> conn_ctx option) \<Rightarrow> unit io" where
  "cs_loop 0 channel ctxs = hang"
| "cs_loop (Suc fuel) channel ctxs =
     bnd (sys_cm (Cm (Rdma_get_cm_event channel))) (\<lambda>(r, event).
       if r \<noteq> 0 then ret ()
       else seq (sysv (Cm Rdma_ack_cm_event)) (
         if ev_type event = RDMA_CM_EVENT_CONNECT_REQUEST
         then bnd (cs_on_connect_request (ev_id event) (ev_verbs event)) (\<lambda>r. case r of
             None \<Rightarrow> ret ()
           | Some c \<Rightarrow> cs_loop fuel channel (ctxs(ev_id event := Some c)))
         else if ev_type event = RDMA_CM_EVENT_ESTABLISHED
         then (case ctxs (ev_id event) of
             None \<Rightarrow> undef
           | Some c \<Rightarrow> bnd (cs_on_established fuel c) (\<lambda>r. if r \<noteq> 0 then ret () else cs_loop fuel channel ctxs))
         else if ev_type event = RDMA_CM_EVENT_DISCONNECTED
         then (case ctxs (ev_id event) of
             None \<Rightarrow> undef
           | Some c \<Rightarrow> cs_on_disconnected (ev_id event) c)
         else ret ()))"

definition cs_main :: "nat \<Rightarrow> string option \<Rightarrow> int io" where
  "cs_main fuel arg =
     (let port = (case arg of None \<Rightarrow> CM_PORT | Some s \<Rightarrow> to_u16 (atoi s)) in
     bnd (sysp (Cm Rdma_create_event_channel)) (\<lambda>channel. if channel = 0 then ret 1 else
     bnd (sys_intptr (Cm (Rdma_create_id channel))) (\<lambda>(r, listener). if r \<noteq> 0 then ret 1 else
     bnd get_order (\<lambda>ord.
     bnd (sys (Cm (Rdma_bind_addr listener (Sin (htons ord port) INADDR_ANY)))) (\<lambda>r.
     if r \<noteq> 0 then ret 1 else
     bnd (sys (Cm (Rdma_listen listener 10))) (\<lambda>r. if r \<noteq> 0 then ret 1 else
     seq (cs_loop fuel channel (\<lambda>i. None)) (
     seq (sysv (Cm (Rdma_destroy_id listener))) (
     seq (sysv (Cm (Rdma_destroy_event_channel channel))) (
     ret 0)))))))))"

section \<open>The ledger of the event loop\<close>

type_synonym conn = "ptr \<times> conn_ctx \<times> qp_state \<times> cm_phase"

definition conns_res :: "conn list \<Rightarrow> ledger" where
  "conns_res ks = concat (map (\<lambda>(i, c, st, ph). conn_res CS_CTX_SIZE i c st ph) ks)"

definition cs_base :: "ptr \<Rightarrow> ptr \<Rightarrow> ledger \<Rightarrow> ledger" where
  "cs_base l ch V = id_res l Cm_listening 0 # chan_res ch # V"

text \<open>A connection is waiting to be established, or established.\<close>

definition conn_state :: "ledger \<Rightarrow> (ptr \<Rightarrow> conn_ctx option) \<Rightarrow> conn \<Rightarrow> bool" where
  "conn_state V ctxs k = (case k of (i, c, st, ph) \<Rightarrow>
     conn_ok CS_CTX_SIZE c \<and> ctxs i = Some c \<and> live V (KCtx (cx_verbs c)) \<and>
     (st = IBV_QPS_INIT \<and> ph = Cm_connecting \<or> st = IBV_QPS_RTS \<and> ph = Cm_established))"

lemma conns_res_simps [simp]:
  "conns_res [] = []"
  "conns_res ((i, c, st, ph) # ks) = conn_res CS_CTX_SIZE i c st ph @ conns_res ks"
  "conns_res (ks @ ks') = conns_res ks @ conns_res ks'"
  by (simp_all add: conns_res_def)

lemma conns_closed: "closed (conns_res ks)"
proof (induction ks)
  case (Cons k ks)
  obtain i c st ph where "k = (i, c, st, ph)" by (cases k)
  with Cons show ?case by (auto simp: closed_def dest!: conn_res_closed)
qed (simp add: closed_def ledger_simps)

lemma conns_regions: "\<forall>k \<in> set ks. conn_state V ctxs k \<Longrightarrow> regions_in_blocks (conns_res ks)"
proof (induction ks)
  case (Cons k ks)
  obtain i c st ph where "k = (i, c, st, ph)" by (cases k)
  with Cons show ?case by (auto simp: conn_state_def intro!: regions_append conn_regions)
qed (simp add: regions_in_blocks_def)

lemma base_regions: "lib_only V \<Longrightarrow> regions_in_blocks (cs_base l ch V)"
  by (auto simp: regions_in_blocks_def cs_base_def lib_only_def)

text \<open>The identifier an event is for is that of a connection.\<close>

lemma id_entry_conns:
  assumes "id_entry (conns_res ks @ B) i = Some (ph, q)" "id_entry B i \<noteq> Some (ph, q)"
  shows "\<exists>K1 c st K2. ks = K1 @ (i, c, st, ph) # K2 \<and> q = cx_qp c"
  using assms(1)
proof (induction ks)
  case Nil
  with assms(2) show ?case by simp
next
  case (Cons k ks)
  obtain j c st p where k: "k = (j, c, st, p)" by (cases k)
  show ?case
  proof (cases "i = j")
    case True
    with Cons.prems show ?thesis
      by (auto simp: k conn_res_def conn_own_def ledger_simps intro!: exI [of _ "[]"])
  next
    case False
    with Cons.prems have "id_entry (conns_res ks @ B) i = Some (ph, q)"
      by (simp add: k conn_res_def conn_own_def ledger_simps)
    with Cons.IH obtain K1 c' st' K2 where "ks = K1 @ (i, c', st', ph) # K2" "q = cx_qp c'" by blast
    then show ?thesis by (intro exI [of _ "k # K1"]) auto
  qed
qed

lemma conns_no_ctx: "\<not> live (conns_res ks) (KCtx u)"
proof (induction ks)
  case (Cons k ks)
  obtain i c st ph where "k = (i, c, st, ph)" by (cases k)
  with Cons show ?case by (simp add: conn_res_def conn_own_def ledger_simps)
qed (simp add: ledger_simps)

section \<open>What an event does to the ledger\<close>

lemma cs_base_lib:
  "lib_only V \<Longrightarrow> (\<And>c. \<not> live A (KCtx c)) \<Longrightarrow>
   \<exists>V'. open_lib u (A @ cs_base l ch V) = A @ cs_base l ch V' \<and> lib_only V' \<and> live V' (KCtx u) \<and>
     (\<forall>k. live V k \<longrightarrow> live V' k)"
  using open_lib_base [of V "A @ [id_res l Cm_listening 0, chan_res ch]" u]
  by (simp add: cs_base_def ledger_simps)

lemma deliver_conn:
  assumes "sound (conns_res ks @ cs_base l ch V)" "lib_only V" "ev_type e \<noteq> RDMA_CM_EVENT_CONNECT_REQUEST"
    and "cm_edge (ev_type e) = Some (ph, ph')" "ph \<noteq> Cm_listening"
    and "\<And>K1 c st K2 V'. ks = K1 @ (ev_id e, c, st, ph) # K2 \<Longrightarrow> lib_only V' \<Longrightarrow> (\<forall>k. live V k \<longrightarrow> live V' k) \<Longrightarrow>
      P (conns_res K1 @ conn_res CS_CTX_SIZE (ev_id e) c (if ph' = Cm_established then IBV_QPS_RTS else st) ph'
         @ conns_res K2 @ cs_base l ch V')"
  shows "fair P (cm_deliver e (conns_res ks @ cs_base l ch V))"
proof (cases "id_entry (conns_res ks @ cs_base l ch V) (ev_id e)")
  case (Some x)
  obtain ph0 q where x: "x = (ph0, q)" by (cases x)
  show ?thesis
  proof (cases "ph0 = ph")
    case True
    have "id_entry (cs_base l ch V) (ev_id e) \<noteq> Some (ph, q)"
      using assms(2,5) by (auto simp: cs_base_def ledger_simps id_entry_lib)
    with Some x True id_entry_conns [of ks "cs_base l ch V" "ev_id e" ph q] obtain K1 c st K2 where
      k: "ks = K1 @ (ev_id e, c, st, ph) # K2" "q = cx_qp c" by blast
    have s: "sound (conns_res K1 @ conn_res CS_CTX_SIZE (ev_id e) c st ph @ conns_res K2 @ cs_base l ch V)"
      using assms(1) by (simp add: k)
    have s': "sound (conns_res K1 @ conn_res CS_CTX_SIZE (ev_id e) c st ph' @ conns_res K2 @ cs_base l ch V)"
      using sound_set_id [OF s, of "ev_id e" ph' "cx_qp c"] set_id_conn [OF s] by simp
    have n: "\<not> live (conns_res K1 @ conn_res CS_CTX_SIZE (ev_id e) c st' ph' @ conns_res K2) (KCtx u)" for st' u
      by (simp add: conns_no_ctx conn_res_def conn_own_def ledger_simps)
    obtain V' where v: "open_lib (ev_verbs e) (conns_res K1 @ conn_res CS_CTX_SIZE (ev_id e) c
        (if ph' = Cm_established then IBV_QPS_RTS else st) ph' @ conns_res K2 @ cs_base l ch V) =
        conns_res K1 @ conn_res CS_CTX_SIZE (ev_id e) c (if ph' = Cm_established then IBV_QPS_RTS else st) ph'
          @ conns_res K2 @ cs_base l ch V'" "lib_only V'" "\<forall>k. live V k \<longrightarrow> live V' k"
      using cs_base_lib [OF assms(2) n] by force
    show ?thesis
      using assms(3,4) Some assms(6) [OF k(1) v(2,3)] set_id_conn [OF s] set_qp_conn [OF s'] v(1)
      by (simp add: cm_deliver_def x True k split: if_splits)
  qed (use Some x assms(3,4) in \<open>simp add: cm_deliver_def\<close>)
qed (use assms(3,4) in \<open>simp add: cm_deliver_def\<close>)

section \<open>The event loop keeps to the contract\<close>

definition cs_inv :: "ptr \<Rightarrow> ptr \<Rightarrow> (ptr \<Rightarrow> conn_ctx option) \<Rightarrow> ledger \<Rightarrow> cm_event_type list \<Rightarrow> bool" where
  "cs_inv l ch ctxs L xs \<longleftrightarrow> sound L \<and>
     (\<exists>ks V. L = conns_res ks @ cs_base l ch V \<and> lib_only V \<and> (\<forall>k \<in> set ks. conn_state V ctxs k) \<and>
        length ks = count_of RDMA_CM_EVENT_CONNECT_REQUEST xs \<and> count_of RDMA_CM_EVENT_DISCONNECTED xs = 0)"

text \<open>When the loop has ended: the connections not closed, and an identifier whose request failed.\<close>

definition cs_end :: "ptr \<Rightarrow> ptr \<Rightarrow> ledger \<Rightarrow> cm_event_type list \<Rightarrow> bool" where
  "cs_end l ch L xs \<longleftrightarrow> sound L \<and>
     (\<exists>R ks V. L = R @ conns_res ks @ cs_base l ch V \<and> lib_only V \<and> (R = [] \<or> (\<exists>i. R = [id_res i Cm_request 0])) \<and>
        length R + length ks + count_of RDMA_CM_EVENT_DISCONNECTED xs = count_of RDMA_CM_EVENT_CONNECT_REQUEST xs)"

lemma calls_cs_handlers:
  "calls (\<lambda>c. \<not> is_get c) (cs_on_connect_request i u)" "calls (\<lambda>c. \<not> is_get c) (cs_on_established fuel c)"
  "calls (\<lambda>c. \<not> is_get c) (cs_on_disconnected i c)"
  unfolding cs_on_connect_request_def cm_build_def err_defs cs_on_established_def cs_answer_def cs_on_disconnected_def
    cm_release_def cm_post_receive_def cm_post_send_def Let_def
  by (auto intro!: only_rules)

lemma keeps_cs_on_established:
  assumes "conn_usable c L" "\<And>r. Q (Ret r) L" "Q UB L" "Q Hang L"
  shows "keeps v (cs_on_established fuel c) L Q"
proof -
  note u = assms(1) [unfolded conn_usable_def]
  have "length (snprintf_bytes CM_BUFFER_SIZE s) \<le> CM_BUFFER_SIZE" for s by (rule length_snprintf_le)
  then show ?thesis
    using u assms(2-) post_send_usable [OF assms(1), of "n + 1" for n]
    by (auto simp: cs_on_established_def cs_answer_def cm_post_send_def simp del: of_nat_add of_nat_Suc
        intro!: obeys_rules split: sum.split)
qed

lemma keeps_cs_on_disconnected:
  assumes "sound (A @ conn_res CS_CTX_SIZE i c st ph @ B)" "closed A" "regions_in_blocks A" "regions_in_blocks B"
    and "conn_ok CS_CTX_SIZE c" "Q (Ret ()) (A @ B)"
  shows "keeps v (cs_on_disconnected i c) (A @ conn_res CS_CTX_SIZE i c st ph @ B) Q"
proof -
  have "live (conn_res CS_CTX_SIZE i c st ph) (KId i)" by (simp add: conn_res_def ledger_simps)
  from sound_frame [OF assms(1,2) this] have "\<not> live A (KId i)" "\<not> live B (KId i)" "\<not> needed A (KId i)" "\<not> needed B (KId i)"
    by simp_all
  then have "fair (Q (Ret ())) (release (KId i) (A @ id_res i ph 0 # B))"
    using assms(6) by (simp add: ledger_simps filter_fresh)
  then show ?thesis
    unfolding cs_on_disconnected_def
    by (intro obeys_seq keeps_cm_release [OF assms(1-5)]) (auto intro!: obeys_rules)
qed

lemma chan_live: "live (R @ conns_res ks @ cs_base l ch V) (KChan ch)"
  by (simp add: cs_base_def ledger_simps)

lemma base_no_id: "lib_only V \<Longrightarrow> live (cs_base l ch V) (KId i) \<Longrightarrow> i = l"
  by (auto simp: cs_base_def ledger_simps dest: lib_only_live)

lemma cs_inv_end: "cs_inv l ch ctxs L xs \<Longrightarrow> cs_end l ch L xs"
  unfolding cs_inv_def cs_end_def by (elim conjE exE) (intro conjI exI [of _ "[]"] exI, auto)

lemma conn_ids: "(i, c, st, ph) \<in> set ks \<Longrightarrow> live (conns_res ks) (KId i)"
proof (induction ks)
  case (Cons k ks)
  obtain j d s p where "k = (j, d, s, p)" by (cases k)
  with Cons show ?case by (auto simp: conn_res_def ledger_simps)
qed simp

lemma obeys_request:
  assumes IH: "\<And>ctxs L xs. cs_inv l ch ctxs L xs \<Longrightarrow> obeys (paired contract cm_type_by) v (cs_loop fuel ch ctxs) (L, xs) Q"
    and fin: "\<And>L xs. cs_end l ch L xs \<Longrightarrow> Q (Ret ()) (L, xs)"
    and s: "sound (id_res i Cm_request 0 # conns_res ks @ cs_base l ch V)" and V: "lib_only V" "live V (KCtx u)"
    and K: "\<forall>k \<in> set ks. conn_state V ctxs k"
    and n: "Suc (length ks) = count_of RDMA_CM_EVENT_CONNECT_REQUEST xs" "count_of RDMA_CM_EVENT_DISCONNECTED xs = 0"
  shows "obeys (paired contract cm_type_by) v
    (bnd (cs_on_connect_request i u) (\<lambda>r. case r of None \<Rightarrow> ret () | Some c \<Rightarrow> cs_loop fuel ch (ctxs(i := Some c))))
    (id_res i Cm_request 0 # conns_res ks @ cs_base l ch V, xs) Q"
proof (rule obeys_bnd, rule obeys_paired [OF keeps_sound [OF s] cm_silent [OF calls_cs_handlers(1)]],
    unfold cs_on_connect_request_def, rule cs.keeps_build)
  let ?R = "conns_res ks @ cs_base l ch V"
  show "sound ?R" using s by (rule sound_tail)
  show "live ?R (KCtx u)" using V(2) by (simp add: cs_base_def ledger_simps)
  show "regions_in_blocks ?R" by (intro regions_append conns_regions [OF K] base_regions V(1))
  show fresh: "\<not> live ?R (KId i)" using s by (auto simp: sound_def live_set)
  show "32 + 2 * CM_BUFFER_SIZE \<le> CS_CTX_SIZE" by (simp add: CM_BUFFER_SIZE_def CS_CTX_SIZE_def)
  have old: "conn_state V (ctxs(i := Some c)) k" if "k \<in> set ks" for c k
  proof -
    obtain j d st ph where k: "k = (j, d, st, ph)" by (cases k)
    with that fresh have "j \<noteq> i" by (auto dest: conn_ids)
    with K that k show ?thesis by (auto simp: conn_state_def)
  qed
  show "sound L' \<longrightarrow> after (\<lambda>r s'. obeys (paired contract cm_type_by) v (case r of None \<Rightarrow> ret ()
        | Some c \<Rightarrow> cs_loop fuel ch (ctxs(i := Some c))) s' Q) Q (Ret (Some c)) (L', xs)"
    if "conn_ok CS_CTX_SIZE c" "cx_verbs c = u" "L' = conn_res CS_CTX_SIZE i c IBV_QPS_INIT Cm_connecting @ ?R" for c L'
  proof
    assume s': "sound L'"
    have "L' = conns_res ((i, c, IBV_QPS_INIT, Cm_connecting) # ks) @ cs_base l ch V" by (simp add: that(3))
    moreover have "conn_state V (ctxs(i := Some c)) (i, c, IBV_QPS_INIT, Cm_connecting)"
      using that(1,2) V(2) by (simp add: conn_state_def)
    moreover have "length ((i, c, IBV_QPS_INIT, Cm_connecting) # ks) = count_of RDMA_CM_EVENT_CONNECT_REQUEST xs"
      using n(1) by simp
    ultimately have "cs_inv l ch (ctxs(i := Some c)) L' xs"
      unfolding cs_inv_def using s' V(1) n(2) old
      by (intro conjI exI [of _ "(i, c, IBV_QPS_INIT, Cm_connecting) # ks"] exI [of _ V]) auto
    then show "after (\<lambda>r s'. obeys (paired contract cm_type_by) v (case r of None \<Rightarrow> ret ()
        | Some c \<Rightarrow> cs_loop fuel ch (ctxs(i := Some c))) s' Q) Q (Ret (Some c)) (L', xs)"
      by (simp add: IH)
  qed
  have "cs_end l ch (id_res i Cm_request 0 # ?R) xs"
    unfolding cs_end_def using s V(1) n
    by (intro conjI exI [of _ "[id_res i Cm_request 0]"] exI [of _ ks] exI [of _ V]) auto
  then show "sound (id_res i Cm_request 0 # ?R) \<longrightarrow> after (\<lambda>r s'. obeys (paired contract cm_type_by) v (case r of None \<Rightarrow> ret ()
        | Some c \<Rightarrow> cs_loop fuel ch (ctxs(i := Some c))) s' Q) Q (Ret None) (id_res i Cm_request 0 # ?R, xs)"
    by (simp add: fin)
qed

lemma obeys_established:
  assumes IH: "\<And>ctxs L xs. cs_inv l ch ctxs L xs \<Longrightarrow> obeys (paired contract cm_type_by) v (cs_loop fuel ch ctxs) (L, xs) Q"
    and fin: "\<And>L xs. cs_end l ch L xs \<Longrightarrow> Q (Ret ()) (L, xs)" "\<And>s. Q UB s" "\<And>s. Q Hang s"
    and inv: "cs_inv l ch ctxs L xs" "conn_usable c L"
  shows "obeys (paired contract cm_type_by) v
    (bnd (cs_on_established fuel c) (\<lambda>r. if r \<noteq> 0 then ret () else cs_loop fuel ch ctxs)) (L, xs) Q"
  by (rule obeys_bnd, rule obeys_paired [OF _ cm_silent [OF calls_cs_handlers(2)]], rule keeps_cs_on_established [OF inv(2)])
    (use IH [OF inv(1)] fin cs_inv_end [OF inv(1)] in auto)

lemma obeys_disconnected:
  assumes fin: "\<And>L xs. cs_end l ch L xs \<Longrightarrow> Q (Ret ()) (L, xs)"
    and s: "sound (conns_res K1 @ conn_res CS_CTX_SIZE i c IBV_QPS_RTS Cm_closed @ conns_res K2 @ cs_base l ch V)"
    and V: "lib_only V" and K: "\<forall>k \<in> set (K1 @ (i, c, st, ph) # K2). conn_state V ctxs k"
    and n: "Suc (length K1 + length K2) = count_of RDMA_CM_EVENT_CONNECT_REQUEST xs" "count_of RDMA_CM_EVENT_DISCONNECTED xs = 1"
  shows "obeys (paired contract cm_type_by) v (cs_on_disconnected i c)
    (conns_res K1 @ conn_res CS_CTX_SIZE i c IBV_QPS_RTS Cm_closed @ conns_res K2 @ cs_base l ch V, xs) Q"
proof (rule obeys_paired [OF keeps_sound [OF s] cm_silent [OF calls_cs_handlers(3)]],
    rule keeps_cs_on_disconnected [OF s conns_closed])
  show "regions_in_blocks (conns_res K1)" by (rule conns_regions) (use K in auto)
  show "regions_in_blocks (conns_res K2 @ cs_base l ch V)"
    by (intro regions_append conns_regions base_regions V) (use K in auto)
  show "conn_ok CS_CTX_SIZE c" using K by (simp add: conn_state_def)
  show "sound (conns_res K1 @ conns_res K2 @ cs_base l ch V) \<longrightarrow> Q (Ret ()) (conns_res K1 @ conns_res K2 @ cs_base l ch V, xs)"
  proof
    assume "sound (conns_res K1 @ conns_res K2 @ cs_base l ch V)"
    then have "cs_end l ch (conns_res K1 @ conns_res K2 @ cs_base l ch V) xs"
      unfolding cs_end_def using V n by (intro conjI exI [of _ "[]"] exI [of _ "K1 @ K2"] exI [of _ V]) auto
    then show "Q (Ret ()) (conns_res K1 @ conns_res K2 @ cs_base l ch V, xs)" by (rule fin)
  qed
qed


text \<open>What is done with an event, given what the loop does from then on.\<close>

definition cs_handle :: "nat \<Rightarrow> ptr \<Rightarrow> (ptr \<Rightarrow> conn_ctx option) \<Rightarrow> cm_event \<Rightarrow> unit io" where
  "cs_handle fuel channel ctxs event =
         (if ev_type event = RDMA_CM_EVENT_CONNECT_REQUEST
         then bnd (cs_on_connect_request (ev_id event) (ev_verbs event)) (\<lambda>r. case r of
             None \<Rightarrow> ret ()
           | Some c \<Rightarrow> cs_loop fuel channel (ctxs(ev_id event := Some c)))
         else if ev_type event = RDMA_CM_EVENT_ESTABLISHED
         then (case ctxs (ev_id event) of
             None \<Rightarrow> undef
           | Some c \<Rightarrow> bnd (cs_on_established fuel c) (\<lambda>r. if r \<noteq> 0 then ret () else cs_loop fuel channel ctxs))
         else if ev_type event = RDMA_CM_EVENT_DISCONNECTED
         then (case ctxs (ev_id event) of
             None \<Rightarrow> undef
           | Some c \<Rightarrow> cs_on_disconnected (ev_id event) c)
         else ret ())"

lemma cs_loop_handle:
  "cs_loop (Suc fuel) ch ctxs =
     bnd (sys_cm (Cm (Rdma_get_cm_event ch))) (\<lambda>(r, event).
       if r \<noteq> 0 then ret () else seq (sysv (Cm Rdma_ack_cm_event)) (cs_handle fuel ch ctxs event))"
  unfolding cs_loop.simps cs_handle_def by (rule refl)

lemma conn_state_mono: "conn_state V ctxs k \<Longrightarrow> \<forall>k. live V k \<longrightarrow> live V' k \<Longrightarrow> conn_state V' ctxs k"
  by (auto simp: conn_state_def)

lemma cs_end_conns:
  assumes "sound L" "L = conns_res ks @ cs_base l ch V" "lib_only V"
    and "length ks + count_of RDMA_CM_EVENT_DISCONNECTED xs = count_of RDMA_CM_EVENT_CONNECT_REQUEST xs"
  shows "cs_end l ch L xs"
  unfolding cs_end_def using assms by (intro conjI exI [of _ "[]"] exI [of _ ks] exI [of _ V]) auto

lemma obeys_handle:
  assumes IH: "\<And>ctxs L xs. cs_inv l ch ctxs L xs \<Longrightarrow> obeys (paired contract cm_type_by) v (cs_loop fuel ch ctxs) (L, xs) Q"
    and fin: "\<And>L xs. cs_end l ch L xs \<Longrightarrow> Q (Ret ()) (L, xs)" "\<And>s. Q UB s" "\<And>s. Q Hang s"
    and inv: "cs_inv l ch ctxs L xs"
  shows "fair (\<lambda>L'. sound L' \<longrightarrow> obeys (paired contract cm_type_by) v (cs_handle fuel ch ctxs e) (L', xs @ [ev_type e]) Q)
    (cm_deliver e L)"
proof -
  obtain ks V where s: "sound L" and L: "L = conns_res ks @ cs_base l ch V" and V: "lib_only V"
    and K: "\<forall>k \<in> set ks. conn_state V ctxs k"
    and n: "length ks = count_of RDMA_CM_EVENT_CONNECT_REQUEST xs" "count_of RDMA_CM_EVENT_DISCONNECTED xs = 0"
    using inv unfolding cs_inv_def by blast
  note s' = s [unfolded L]
  show ?thesis
  proof (cases "ev_type e = RDMA_CM_EVENT_CONNECT_REQUEST")
    case True
    obtain V' where v: "open_lib (ev_verbs e) L = conns_res ks @ cs_base l ch V'" "lib_only V'"
      "live V' (KCtx (ev_verbs e))" "\<forall>k. live V k \<longrightarrow> live V' k"
      using cs_base_lib [OF V, of "conns_res ks" "ev_verbs e" l ch] conns_no_ctx L by auto
    have "obeys (paired contract cm_type_by) v (cs_handle fuel ch ctxs e)
        (id_res (ev_id e) Cm_request 0 # conns_res ks @ cs_base l ch V', xs @ [ev_type e]) Q"
      if "sound (id_res (ev_id e) Cm_request 0 # conns_res ks @ cs_base l ch V')"
      using obeys_request [OF IH fin(1) that v(2,3), of ctxs "xs @ [ev_type e]"] K v(4) n True
      by (auto simp: cs_handle_def intro: conn_state_mono)
    with True v(1) show ?thesis by (simp add: cm_deliver_def)
  next
    case False
    show ?thesis
    proof (cases "cm_edge (ev_type e)")
      case None
      then have "cs_handle fuel ch ctxs e = ret ()"
        using False by (auto simp: cs_handle_def)
      moreover have "cs_end l ch L (xs @ [ev_type e])"
        by (rule cs_end_conns [OF s L V]) (use None n False in auto)
      ultimately show ?thesis using None False by (simp add: cm_deliver_def fin(1))
    next
      case (Some x)
      obtain ph ph' where x: "cm_edge (ev_type e) = Some (ph, ph')" using Some by (cases x) auto
      have "ph \<noteq> Cm_listening" using x by (cases "ev_type e") auto
      then show ?thesis
        unfolding L
      proof (rule deliver_conn [OF s' V False x], intro impI)
        fix K1 c st K2 V'
        let ?L = "conns_res K1 @ conn_res CS_CTX_SIZE (ev_id e) c (if ph' = Cm_established then IBV_QPS_RTS else st) ph'
          @ conns_res K2 @ cs_base l ch V'"
        assume k: "ks = K1 @ (ev_id e, c, st, ph) # K2" and v: "lib_only V'" "\<forall>k. live V k \<longrightarrow> live V' k"
          and s2: "sound ?L"
        have c: "conn_ok CS_CTX_SIZE c" "ctxs (ev_id e) = Some c"
          "st = IBV_QPS_INIT \<and> ph = Cm_connecting \<or> st = IBV_QPS_RTS \<and> ph = Cm_established"
          "live V (KCtx (cx_verbs c))"
          using K by (auto simp: k conn_state_def)
        have K': "\<forall>k \<in> set (K1 @ K2). conn_state V' ctxs k"
          using K v(2) by (auto simp: k intro: conn_state_mono)
        have n': "Suc (length K1 + length K2) = count_of RDMA_CM_EVENT_CONNECT_REQUEST (xs @ [ev_type e])"
          using n(1) False by (simp add: k)
        consider (est) "ev_type e = RDMA_CM_EVENT_ESTABLISHED" | (dis) "ev_type e = RDMA_CM_EVENT_DISCONNECTED"
          | (other) "ev_type e \<noteq> RDMA_CM_EVENT_ESTABLISHED" "ev_type e \<noteq> RDMA_CM_EVENT_DISCONNECTED" by blast
        then show "obeys (paired contract cm_type_by) v (cs_handle fuel ch ctxs e) (?L, xs @ [ev_type e]) Q"
        proof cases
          case est
          with x have ph: "ph = Cm_connecting" "ph' = Cm_established" by auto
          have "cs_inv l ch ctxs ?L (xs @ [ev_type e])"
            unfolding cs_inv_def using s2 v c K' n n' est ph
            by (intro conjI exI [of _ "K1 @ (ev_id e, c, IBV_QPS_RTS, Cm_established) # K2"] exI [of _ V'])
              (auto simp: conn_state_def)
          moreover have "conn_usable c ?L"
            using conn_usable_at [OF _ c(1)] s2 ph by simp
          ultimately show ?thesis
            using obeys_established [OF IH fin] est c(2) by (simp add: cs_handle_def)
        next
          case dis
          with x have ph: "ph = Cm_established" "ph' = Cm_closed" by auto
          with c(3) have st: "st = IBV_QPS_RTS" by auto
          have "\<forall>k \<in> set (K1 @ (ev_id e, c, st, ph) # K2). conn_state V' ctxs k"
            using K' c v(2) by (auto simp: conn_state_def)
          then have "obeys (paired contract cm_type_by) v (cs_on_disconnected (ev_id e) c) (?L, xs @ [ev_type e]) Q"
            using s2 n n' dis ph st v(1) by (simp, intro obeys_disconnected [where st = st and ph = ph] fin(1)) auto
          then show ?thesis
            using dis c(2) by (simp add: cs_handle_def)
        next
          case other
          have "cs_end l ch ?L (xs @ [ev_type e])"
            by (rule cs_end_conns [OF s2 _ v(1), of "K1 @ (ev_id e, c, if ph' = Cm_established then IBV_QPS_RTS else st, ph') # K2"])
              (use n n' other in auto)
          with other False show ?thesis by (simp add: cs_handle_def fin(1))
        qed
      qed
    qed
  qed
qed

lemma obeys_cs_loop:
  assumes fin: "\<And>L xs. cs_end l ch L xs \<Longrightarrow> Q (Ret ()) (L, xs)" "\<And>s. Q UB s" "\<And>s. Q Hang s"
  shows "cs_inv l ch ctxs L xs \<Longrightarrow> obeys (paired contract cm_type_by) v (cs_loop fuel ch ctxs) (L, xs) Q"
proof (induction fuel arbitrary: ctxs L xs)
  case (Suc fuel)
  have s: "sound L" "live L (KChan ch)"
    using Suc.prems by (auto simp: cs_inv_def cs_base_def ledger_simps)
  show ?case
    unfolding cs_loop_handle
    by (rule obeys_event [OF s]) (use obeys_handle [OF Suc.IH fin Suc.prems] fin(1) [OF cs_inv_end [OF Suc.prems]] in auto)
qed (simp add: fin)

section \<open>The whole program\<close>

definition ids_left :: "ledger \<Rightarrow> nat" where
  "ids_left L = length (filter (\<lambda>r. \<exists>i. res_key r = KId i) L)"

lemma ids_left_simps [simp]:
  "ids_left [] = 0" "ids_left (r # L) = (if \<exists>i. res_key r = KId i then Suc (ids_left L) else ids_left L)"
  "ids_left (K @ L) = ids_left K + ids_left L"
  by (simp_all add: ids_left_def)

lemma ids_left_conns: "ids_left (conns_res ks) = length ks"
  by (induction ks) (auto simp: conn_res_def conn_own_def)

lemma ids_left_lib: "lib_only V \<Longrightarrow> ids_left V = 0"
  by (induction V) (auto simp: lib_only_def)

lemma conns_needs: "\<not> needed (conns_res ks) (KId i)" "\<not> needed (conns_res ks) (KChan ch)" "\<not> live (conns_res ks) (KChan ch)"
  by (induction ks) (auto simp: conn_res_def conn_own_def ledger_simps)

lemma obeys_cs_end:
  assumes "cs_end l ch L xs"
    and "\<And>L. ids_left L + count_of RDMA_CM_EVENT_DISCONNECTED xs = count_of RDMA_CM_EVENT_CONNECT_REQUEST xs \<Longrightarrow>
      (ids_left L = 0 \<Longrightarrow> lib_only L) \<Longrightarrow> Q (Ret 0) (L, xs)"
  shows "obeys (paired contract cm_type_by) v
    (seq (sysv (Cm (Rdma_destroy_id l))) (seq (sysv (Cm (Rdma_destroy_event_channel ch))) (ret 0))) (L, xs) Q"
proof -
  obtain R ks V where s: "sound L" and L: "L = R @ conns_res ks @ cs_base l ch V" and V: "lib_only V"
    and R: "R = [] \<or> (\<exists>i. R = [id_res i Cm_request 0])"
    and n: "length R + length ks + count_of RDMA_CM_EVENT_DISCONNECTED xs = count_of RDMA_CM_EVENT_CONNECT_REQUEST xs"
    using assms(1) unfolding cs_end_def by blast
  have l: "\<not> live (R @ conns_res ks) (KId l)"
    using s by (auto simp: L sound_def live_set cs_base_def)
  have "\<not> needed R k" "\<not> live R (KChan ch)" for k using R by (auto simp: ledger_simps)
  moreover have "ids_left R = length R" using R by auto
  moreover have "R = [] \<and> ks = []" if "length R + length ks = 0" using that by auto
  ultimately show ?thesis
    using l V conns_needs lib_needs [OF V] ids_left_conns [of ks] ids_left_lib [OF V] n
    by (auto intro!: obeys_rules assms(2) simp: L cs_base_def ledger_simps filter_fresh)
qed

lemma cs_inv_start: "l \<noteq> 0 \<Longrightarrow> cs_inv l ch (\<lambda>i. None) [id_res l Cm_listening 0, chan_res ch] []"
  unfolding cs_inv_def
  by (intro conjI exI [of _ "[]"]) (auto simp: cs_base_def lib_only_def sound_def apart_blocks_def)

definition cs_left :: "int outcome \<Rightarrow> ledger \<times> cm_event_type list \<Rightarrow> bool" where
  "cs_left r s \<longleftrightarrow> r = Ret 0 \<longrightarrow>
     ids_left (fst s) + count_of RDMA_CM_EVENT_DISCONNECTED (snd s) = count_of RDMA_CM_EVENT_CONNECT_REQUEST (snd s) \<and>
     (ids_left (fst s) = 0 \<longrightarrow> lib_only (fst s))"

lemma obeys_cs_main: "obeys (paired contract cm_type_by) v (cs_main fuel arg) ([], []) cs_left"
proof -
  have serve: "obeys (paired contract cm_type_by) v (seq (cs_loop fuel ch (\<lambda>i. None))
      (seq (sysv (Cm (Rdma_destroy_id l))) (seq (sysv (Cm (Rdma_destroy_event_channel ch))) (ret 0))))
      ([id_res l Cm_listening 0, chan_res ch], []) cs_left" if "l \<noteq> 0" for l ch
    by (rule obeys_seq, rule obeys_cs_loop [OF _ _ _ cs_inv_start [OF that]])
      (auto simp: cs_left_def intro: obeys_cs_end)
  show ?thesis
    unfolding cs_main_def Let_def
    by (auto intro!: obeys_bnd obeys_sysp obeys_sys obeys_sys_intptr obeys_get_order obeys_if serve simp: ledger_simps)
      (simp_all add: cs_left_def)
qed


lemma cs_text_ok: "no_nul (cs_text n)" "length (cs_text n) < CM_BUFFER_SIZE"
proof -
  have "unat n < 10 ^ 10" using unat_bound [of n] by simp
  then have "length (fmt_u (unat n)) \<le> 10"
    unfolding fmt_u_def by (intro length_numeral_string) simp_all
  then show "length (cs_text n) < CM_BUFFER_SIZE" by (simp add: cs_text_def CM_BUFFER_SIZE_def)
  have "no_nul (fmt_u (unat n))" unfolding fmt_u_def by (rule no_nul_numeral) simp_all
  moreover have "no_nul ''Hello from server! Your message was ''" "no_nul '' bytes.''"
    by (simp_all add: no_nul_def chars_def)
  ultimately show "no_nul (cs_text n)" unfolding cs_text_def no_nul_append by blast
qed

definition cs_store :: "conn_ctx \<Rightarrow> ibv_wc \<Rightarrow> event" where
  "cs_store c wc = (Os (Mem_store (send_buf (cx_ptr c)) (snprintf_bytes CM_BUFFER_SIZE (cs_text (wc_byte_len wc)))), RVoid)"

lemma cs_established_parts:
  assumes "cs_on_established fuel c v h = (Ret 0, es)"
  obtains wc wc' d d' e1 e2 e3 e4 w h' where
    "busy_wait fuel (cx_cq c) v h = (Ret (Inr wc), e1)" "wc_status wc = IBV_WC_SUCCESS"
    "load_str (recv_buf (cx_ptr c)) CM_BUFFER_SIZE v (h @ e1) = (Ret d', e2)"
    "load_str (send_buf (cx_ptr c)) CM_BUFFER_SIZE v ((h @ e1 @ e2) @ [cs_store c wc]) = (Ret d, e3)"
    "cm_post_send c (length d + 1) v (h @ e1 @ e2 @ cs_store c wc # e3) = (Ret 0, [w])"
    "busy_wait fuel (cx_cq c) v h' = (Ret (Inr wc'), e4)" "wc_status wc' = IBV_WC_SUCCESS"
    "es = e1 @ e2 @ cs_store c wc # e3 @ w # e4"
proof -
  obtain wc d' e1 e2 r1 where 1: "busy_wait fuel (cx_cq c) v h = (Ret (Inr wc), e1)" "wc_status wc = IBV_WC_SUCCESS"
    "load_str (recv_buf (cx_ptr c)) CM_BUFFER_SIZE v (h @ e1) = (Ret d', e2)" "es = e1 @ e2 @ r1"
    and r1: "cs_answer fuel c wc v (h @ e1 @ e2) = (Ret 0, r1)"
    using assms unfolding cs_on_established_def
    by (fastforce simp: bnd_sum_Ret seq_eq_Ret split: if_splits)
  obtain r2 where 2: "r1 = cs_store c wc # r2"
    and r2: "bnd (load_str (send_buf (cx_ptr c)) CM_BUFFER_SIZE) (\<lambda>str.
     bnd (cm_post_send c (length str + 1)) (\<lambda>r. if r \<noteq> 0 then ret (- 1)
     else bnd (busy_wait fuel (cx_cq c)) (\<lambda>r. case r of
       Inl e \<Rightarrow> ret (- 1)
     | Inr wc \<Rightarrow> if wc_status wc \<noteq> IBV_WC_SUCCESS then ret (- 1) else ret 0))) v ((h @ e1 @ e2) @ [cs_store c wc]) = (Ret (0 :: int), r2)"
    using r1 [unfolded cs_answer_def sysv_Ret, folded cs_store_def] by (elim exE conjE) (rule that)
  obtain d e3 r3 where 3: "load_str (send_buf (cx_ptr c)) CM_BUFFER_SIZE v ((h @ e1 @ e2) @ [cs_store c wc]) = (Ret d, e3)"
    and r3: "bnd (cm_post_send c (length d + 1)) (\<lambda>r. if r \<noteq> 0 then ret (- 1)
     else bnd (busy_wait fuel (cx_cq c)) (\<lambda>r. case r of
       Inl e \<Rightarrow> ret (- 1)
     | Inr wc \<Rightarrow> if wc_status wc \<noteq> IBV_WC_SUCCESS then ret (- 1) else ret 0)) v (((h @ e1 @ e2) @ [cs_store c wc]) @ e3) = (Ret (0 :: int), r3)"
    and 4: "r2 = e3 @ r3"
    using r2 by (rule bnd_RetE)
  obtain rc w r4 where 5: "cm_post_send c (length d + 1) v (((h @ e1 @ e2) @ [cs_store c wc]) @ e3) = (Ret rc, w)"
    and r4: "(if rc \<noteq> 0 then ret (- 1)
     else bnd (busy_wait fuel (cx_cq c)) (\<lambda>r. case r of
       Inl e \<Rightarrow> ret (- 1)
     | Inr wc \<Rightarrow> if wc_status wc \<noteq> IBV_WC_SUCCESS then ret (- 1) else ret 0)) v ((((h @ e1 @ e2) @ [cs_store c wc]) @ e3) @ w) = (Ret (0 :: int), r4)"
    and 6: "r3 = w @ r4"
    using r3 by (rule bnd_RetE)
  obtain w' where w: "w = [w']" using 5 by (auto simp: cm_post_send_def sys_def)
  from r4 obtain wc' where "rc = 0" "busy_wait fuel (cx_cq c) v ((((h @ e1 @ e2) @ [cs_store c wc]) @ e3) @ w) = (Ret (Inr wc'), r4)"
    "wc_status wc' = IBV_WC_SUCCESS"
    by (auto simp: bnd_sum_Ret split: if_splits)
  with 1 2 3 4 5 6 w that [of wc e1 d' e2 d e3 w' _ wc' r4] show thesis by simp
qed

text \<open>C34: A successful \<^verbatim>\<open>on_established\<close> of the server takes two successful completions, the first for
  the client's message, and sends exactly one reply in between: the text that names the number of bytes
  received, uncut and with its NUL, as long as nobody else writes the send buffer.\<close>

theorem cs_reply:
  assumes "cs_on_established fuel c v h = (Ret 0, es)" "own_memory v (send_buf (cx_ptr c))"
  shows "\<exists>wc wc'. polled es = [wc, wc'] \<and> wc_status wc = IBV_WC_SUCCESS \<and> wc_status wc' = IBV_WC_SUCCESS \<and>
    work es = [Completed, Posted_send 1, Completed] \<and>
    sends es = [(send_buf (cx_ptr c), length (cs_text (wc_byte_len wc)) + 1)] \<and>
    stored (send_buf (cx_ptr c)) es = chars (cs_text (wc_byte_len wc)) @ [0]"
proof -
  let ?p = "send_buf (cx_ptr c)"
  obtain wc wc' d d' e1 e2 e3 e4 w h' where
    1: "busy_wait fuel (cx_cq c) v h = (Ret (Inr wc), e1)" "wc_status wc = IBV_WC_SUCCESS"
    and 2: "load_str (recv_buf (cx_ptr c)) CM_BUFFER_SIZE v (h @ e1) = (Ret d', e2)"
    and 3: "load_str ?p CM_BUFFER_SIZE v ((h @ e1 @ e2) @ [cs_store c wc]) = (Ret d, e3)"
    and 4: "cm_post_send c (length d + 1) v (h @ e1 @ e2 @ cs_store c wc # e3) = (Ret 0, [w])"
    and 5: "busy_wait fuel (cx_cq c) v h' = (Ret (Inr wc'), e4)" "wc_status wc' = IBV_WC_SUCCESS"
    and es: "es = e1 @ e2 @ cs_store c wc # e3 @ w # e4"
    by (rule cs_established_parts [OF assms(1)])
  note len = sent_string [OF 3 [unfolded cs_store_def] assms(2) cs_text_ok]
  have w: "work [w] = [Posted_send 1]" "polled [w] = []" "sends [w] = [(?p, length (cs_text (wc_byte_len wc)) + 1)]" "stored ?p [w] = []"
    using 4 len(2) by (auto simp: cm_post_send_def sys_def simp del: of_nat_add of_nat_Suc)
  have st: "work [cs_store c wc] = []" "polled [cs_store c wc] = []" "sends [cs_store c wc] = []"
    "stored ?p [cs_store c wc] = chars (cs_text (wc_byte_len wc)) @ [0]"
    by (simp_all add: cs_store_def snprintf_fits [OF cs_text_ok(2)])
  have "es = e1 @ e2 @ [cs_store c wc] @ e3 @ [w] @ e4" by (simp add: es)
  then show ?thesis
    using busy_wait_took [OF 1(1)] load_str_traffic [OF 2] load_str_traffic [OF 3] busy_wait_took [OF 5(1)] w st 1(2) 5(2)
    by (simp only: traffic_simps work_simps stored_append) simp
qed

text \<open>The run of the witness: a client that connects, is served and disconnects.\<close>

lemma cs_lab_run: "\<exists>es. cs_main (Suc (Suc (Suc (Suc 0)))) None (cm_lab 99 [RDMA_CM_EVENT_CONNECT_REQUEST,
    RDMA_CM_EVENT_ESTABLISHED, RDMA_CM_EVENT_DISCONNECTED]) [] = (Ret 0, es) \<and> mon_run contract [] es = Live [ctx_res 64]"
proof -
  have "0 < CM_BUFFER_SIZE" by (simp add: CM_BUFFER_SIZE_def)
  then show ?thesis
    by (simp add: cs_main_def cm_lab_simps run_defs Let_def lab_int_def lab_wc_def zero_wc_def lab_handle_def
      cs_on_connect_request_def cm_build_def cm_post_receive_def cs_on_established_def cs_answer_def cm_lab_load cm_post_send_def
      cs_on_disconnected_def cm_release_def lab_mr_def cm_types_def)
      (simp add: ledger_simps judge_defs listening_def cm_qp_attr_def CM_BUFFER_SIZE_def CS_CTX_SIZE_def
      recv_buf_def send_buf_def snprintf_bytes_def)
qed


definition cs_lab_ctx :: conn_ctx where
  "cs_lab_ctx = \<lparr>cx_ptr = 4096, cx_verbs = 64, cx_pd = 1, cx_cq = 2,
     cx_recv_mr = \<lparr>mr_ptr = 3, mr_addr = 4128, mr_lkey = 7, mr_rkey = 9\<rparr>,
     cx_send_mr = \<lparr>mr_ptr = 4, mr_addr = 5152, mr_lkey = 8, mr_rkey = 9\<rparr>, cx_qp = 5\<rparr>"

lemma cs_text_64: "cs_text 64 = ''Hello from server! Your message was 64 bytes.''"
  by (simp add: cs_text_def fmt_u_def numeral_string.simps digit_def char_of_def bit_0)

lemma cs_reply_witness:
  "\<exists>es. cs_on_established (Suc 0) cs_lab_ctx (lab_env 17 5 []) [] = (Ret 0, es) \<and> sends es = [(5152, 46)]"
proof -
  have "own_memory (lab_env 17 5 []) p" for p
    by (simp add: own_memory_def lab_env_simps lab_read_def)
  moreover obtain es where r: "cs_on_established (Suc 0) cs_lab_ctx (lab_env 17 5 []) [] = (Ret 0, es)"
    and "polled es = [lab_wc, lab_wc]"
    by (simp add: cs_on_established_def cs_answer_def cm_post_send_def load_str_def run_defs lab_env_simps lab_int_def
      lab_read_def lab_wc_def zero_wc_def cs_text_64 CM_BUFFER_SIZE_def snprintf_bytes_def fit_def chars_def cs_lab_ctx_def
      recv_buf_def send_buf_def)
  moreover have "wc_byte_len lab_wc = 64" by (simp add: lab_wc_def)
  ultimately show ?thesis
    using cs_reply [OF r] by (simp add: cs_lab_ctx_def send_buf_def CM_BUFFER_SIZE_def cs_text_64)
qed

text \<open>A client that sends no NUL makes the server read past its buffer.\<close>

lemma cs_trusts_message:
  assumes "env_wc v h (Vb (Ibv_poll_cq (cx_cq c) 1)) = (1, [wc])" "wc_status wc = IBV_WC_SUCCESS"
    and "\<And>h n. env_bytes v h (Os (Mem_load (recv_buf (cx_ptr c)) n)) = (int n, replicate n 65)"
  shows "fst (cs_on_established (Suc fuel) c v h) = UB"
  using assms by (simp add: cs_on_established_def run_defs load_str_def)

end
