(* ===== verification/Cm_Client.thy ===== *)
theory Cm_Client
  imports Cm_Server
begin

text \<open>
  \<^verbatim>\<open>ch10-cm-client-server/cm_client.c\<close>: the active side.  One identifier goes through address and
  route resolution, is connected, and carries one exchange of messages.
\<close>

definition CC_CTX_SIZE :: nat where "CC_CTX_SIZE = 2088"

definition cc_conn_param :: conn_param where
  "cc_conn_param = \<lparr>cp_responder_resources = 1, cp_initiator_depth = 1, cp_retry_count = 7,
     cp_rnr_retry_count = 7\<rparr>"

definition cc_on_addr_resolved :: "ptr \<Rightarrow> int io" where
  "cc_on_addr_resolved i = sys (Cm (Rdma_resolve_route i 2000))"

definition cc_on_route_resolved :: "ptr \<Rightarrow> ptr \<Rightarrow> conn_ctx option io" where
  "cc_on_route_resolved i verbs =
     cm_build CC_CTX_SIZE (sys (Cm (Rdma_connect i cc_conn_param))) i verbs"

interpretation cc: starter i Cm_route "sys (Cm (Rdma_connect i p))" for i p
  by unfold_locales (auto intro!: exI)

definition cc_text :: string where "cc_text = ''Hello from RDMA_CM client!''"

text \<open>The field \<^verbatim>\<open>connected\<close> behind the two buffers of the context.\<close>

definition connected_at :: "ptr \<Rightarrow> ptr" where "connected_at p = p + of_nat (32 + 2 * CM_BUFFER_SIZE)"

text \<open>
  The two waits of \<^verbatim>\<open>on_established\<close>.  When the first poll fails, the message printed reads the
  status of a completion that was never filled in.
\<close>

definition cc_await :: "nat \<Rightarrow> ptr \<Rightarrow> conn_ctx \<Rightarrow> int io" where
  "cc_await fuel i c =
     bnd (busy_wait fuel (cx_cq c)) (\<lambda>r. case r of
       Inl e \<Rightarrow> undef
     | Inr wc \<Rightarrow>
         if wc_status wc \<noteq> IBV_WC_SUCCESS then ret (- 1)
         else bnd (busy_wait fuel (cx_cq c)) (\<lambda>r. case r of
           Inl e \<Rightarrow> ret (- 1)
         | Inr wc \<Rightarrow>
             if wc_status wc \<noteq> IBV_WC_SUCCESS then ret (- 1)
             else seq (load_str (recv_buf (cx_ptr c)) CM_BUFFER_SIZE) (
               seq (sys (Cm (Rdma_disconnect i))) (ret 0))))"

definition cc_on_established :: "nat \<Rightarrow> ptr \<Rightarrow> conn_ctx \<Rightarrow> int io" where
  "cc_on_established fuel i c =
     bnd get_order (\<lambda>ord.
     seq (sysv (Os (Mem_store (connected_at (cx_ptr c)) (enc ord 4 1)))) (
     seq (sysv (Os (Mem_store (send_buf (cx_ptr c)) (snprintf_bytes CM_BUFFER_SIZE cc_text)))) (
     bnd (load_str (send_buf (cx_ptr c)) CM_BUFFER_SIZE) (\<lambda>str.
     bnd (cm_post_send c (length str + 1)) (\<lambda>r.
     if r \<noteq> 0 then ret (- 1) else cc_await fuel i c)))))"

definition cc_on_disconnected :: "ptr \<Rightarrow> conn_ctx \<Rightarrow> unit io" where
  "cc_on_disconnected i c = cm_release i c"

text \<open>\<open>fuel\<close> bounds the number of events handled, and the polls within a handler.\<close>

fun cc_loop :: "nat \<Rightarrow> ptr \<Rightarrow> (ptr \<Rightarrow> conn_ctx option) \<Rightarrow> unit io" where
  "cc_loop 0 channel ctxs = hang"
| "cc_loop (Suc fuel) channel ctxs =
     bnd (sys_cm (Cm (Rdma_get_cm_event channel))) (\<lambda>(r, event).
       if r \<noteq> 0 then ret ()
       else seq (sysv (Cm Rdma_ack_cm_event)) (
         if ev_type event = RDMA_CM_EVENT_ADDR_RESOLVED
         then bnd (cc_on_addr_resolved (ev_id event)) (\<lambda>r. if r \<noteq> 0 then ret () else cc_loop fuel channel ctxs)
         else if ev_type event = RDMA_CM_EVENT_ROUTE_RESOLVED
         then bnd (cc_on_route_resolved (ev_id event) (ev_verbs event)) (\<lambda>r. case r of
             None \<Rightarrow> ret ()
           | Some c \<Rightarrow> cc_loop fuel channel (ctxs(ev_id event := Some c)))
         else if ev_type event = RDMA_CM_EVENT_ESTABLISHED
         then (case ctxs (ev_id event) of
             None \<Rightarrow> undef
           | Some c \<Rightarrow> bnd (cc_on_established fuel (ev_id event) c) (\<lambda>r.
               if r \<noteq> 0 then ret () else cc_loop fuel channel ctxs))
         else if ev_type event = RDMA_CM_EVENT_DISCONNECTED
         then (case ctxs (ev_id event) of
             None \<Rightarrow> undef
           | Some c \<Rightarrow> cc_on_disconnected (ev_id event) c)
         else ret ()))"

text \<open>
  \<open>args\<close> are the arguments after the name of the program.  The result of \<^verbatim>\<open>inet_pton\<close> is not looked
  at: for a host that is no address the zero of the initializer stays.
\<close>

definition cc_main :: "nat \<Rightarrow> string list \<Rightarrow> int io" where
  "cc_main fuel args = (case args of [] \<Rightarrow> ret 1 | server_ip # rest \<Rightarrow>
     let port = (case rest of [] \<Rightarrow> CM_PORT | s # _ \<Rightarrow> to_u16 (atoi s)) in
     bnd (sysp (Cm Rdma_create_event_channel)) (\<lambda>channel. if channel = 0 then ret 1 else
     bnd (sys_intptr (Cm (Rdma_create_id channel))) (\<lambda>(r, conn). if r \<noteq> 0 then ret 1 else
     bnd get_order (\<lambda>ord.
     bnd (sys_intptr (Cm (Inet_pton server_ip))) (\<lambda>(ok, a).
     bnd (sys (Cm (Rdma_resolve_addr conn (Sin (htons ord port) (if ok = 1 then ucast a else 0)) 2000))) (\<lambda>r.
     if r \<noteq> 0 then ret 1 else
     seq (cc_loop fuel channel (\<lambda>i. None)) (
     seq (sysv (Cm (Rdma_destroy_id conn))) (
     seq (sysv (Cm (Rdma_destroy_event_channel channel))) (
     ret 0)))))))))"

section \<open>The handlers keep to the contract\<close>

lemma calls_cc_handlers:
  "calls (\<lambda>c. \<not> is_get c) (cc_on_addr_resolved i)" "calls (\<lambda>c. \<not> is_get c) (cc_on_route_resolved i u)"
  "calls (\<lambda>c. \<not> is_get c) (cc_on_established fuel i c)" "calls (\<lambda>c. \<not> is_get c) (cc_on_disconnected i c)"
  unfolding cc_on_addr_resolved_def cc_on_route_resolved_def cm_build_def err_defs cc_on_established_def cc_await_def
    cc_on_disconnected_def cm_release_def cm_post_receive_def cm_post_send_def Let_def load_str_def
  by (auto intro!: only_rules)

lemma keeps_cc_on_established:
  assumes "conn_usable c L" "mem_ok L (connected_at (cx_ptr c)) 4" "live L (KId i)"
    and "\<And>r. Q (Ret r) L" "Q UB L" "Q Hang L"
  shows "keeps v (cc_on_established fuel i c) L Q"
proof -
  note u = assms(1) [unfolded conn_usable_def]
  have "length (snprintf_bytes CM_BUFFER_SIZE s) \<le> CM_BUFFER_SIZE" for s by (rule length_snprintf_le)
  then show ?thesis
    using u assms(2-) post_send_usable [OF assms(1), of "n + 1" for n]
    by (auto simp: cc_on_established_def cc_await_def cm_post_send_def simp del: of_nat_add of_nat_Suc
        intro!: obeys_rules split: sum.split)
qed

section \<open>The ledger of the event loop\<close>

text \<open>Before the route is known there is only the identifier, afterwards the connection as well.\<close>

abbreviation cc_plain :: "ptr \<Rightarrow> cm_phase \<Rightarrow> ptr \<Rightarrow> ledger \<Rightarrow> ledger" where
  "cc_plain i ph ch V \<equiv> id_res i ph 0 # chan_res ch # V"

abbreviation cc_built :: "ptr \<Rightarrow> conn_ctx \<Rightarrow> qp_state \<Rightarrow> cm_phase \<Rightarrow> ptr \<Rightarrow> ledger \<Rightarrow> ledger" where
  "cc_built i c st ph ch V \<equiv> conn_res CC_CTX_SIZE i c st ph @ chan_res ch # V"

definition cc_inv :: "ptr \<Rightarrow> ptr \<Rightarrow> (ptr \<Rightarrow> conn_ctx option) \<Rightarrow> ledger \<Rightarrow> cm_event_type list \<Rightarrow> bool" where
  "cc_inv i ch ctxs L xs \<longleftrightarrow> sound L \<and> RDMA_CM_EVENT_DISCONNECTED \<notin> set xs \<and>
     (\<exists>V. lib_only V \<and>
       ((\<exists>ph \<in> {Cm_resolving, Cm_routing}. L = cc_plain i ph ch V) \<or>
        (\<exists>c st ph. L = cc_built i c st ph ch V \<and> conn_ok CC_CTX_SIZE c \<and> ctxs i = Some c \<and>
          RDMA_CM_EVENT_ROUTE_RESOLVED \<in> set xs \<and>
          (st = IBV_QPS_INIT \<and> ph = Cm_connecting \<or> st = IBV_QPS_RTS \<and> ph = Cm_established))))"

definition cc_end :: "ptr \<Rightarrow> ptr \<Rightarrow> ledger \<Rightarrow> cm_event_type list \<Rightarrow> bool" where
  "cc_end i ch L xs \<longleftrightarrow> sound L \<and>
     (\<exists>V. lib_only V \<and>
       ((\<exists>ph. L = cc_plain i ph ch V) \<or>
        (\<exists>c st ph. L = cc_built i c st ph ch V \<and> RDMA_CM_EVENT_ROUTE_RESOLVED \<in> set xs \<and>
          RDMA_CM_EVENT_DISCONNECTED \<notin> set xs)))"

lemma cc_inv_end: "cc_inv i ch ctxs L xs \<Longrightarrow> cc_end i ch L xs"
  unfolding cc_inv_def cc_end_def by blast

lemma cc_end_mono:
  assumes "cc_end i ch L xs" "t \<noteq> RDMA_CM_EVENT_DISCONNECTED"
  shows "cc_end i ch L (xs @ [t])"
proof -
  have "RDMA_CM_EVENT_ROUTE_RESOLVED \<in> set xs \<Longrightarrow> RDMA_CM_EVENT_ROUTE_RESOLVED \<in> set (xs @ [t])"
    "RDMA_CM_EVENT_DISCONNECTED \<notin> set xs \<Longrightarrow> RDMA_CM_EVENT_DISCONNECTED \<notin> set (xs @ [t])"
    using assms(2) by auto
  then show ?thesis using assms(1) unfolding cc_end_def by blast
qed

lemma cc_intros:
  "sound (cc_plain i ph ch V) \<Longrightarrow> lib_only V \<Longrightarrow> ph \<in> {Cm_resolving, Cm_routing} \<Longrightarrow>
    RDMA_CM_EVENT_DISCONNECTED \<notin> set xs \<Longrightarrow> cc_inv i ch ctxs (cc_plain i ph ch V) xs"
  "sound (cc_built i c st ph ch V) \<Longrightarrow> lib_only V \<Longrightarrow> conn_ok CC_CTX_SIZE c \<Longrightarrow> ctxs i = Some c \<Longrightarrow>
    RDMA_CM_EVENT_ROUTE_RESOLVED \<in> set xs \<Longrightarrow> RDMA_CM_EVENT_DISCONNECTED \<notin> set xs \<Longrightarrow>
    st = IBV_QPS_INIT \<and> ph = Cm_connecting \<or> st = IBV_QPS_RTS \<and> ph = Cm_established \<Longrightarrow>
    cc_inv i ch ctxs (cc_built i c st ph ch V) xs"
  "sound (cc_plain i ph ch V) \<Longrightarrow> lib_only V \<Longrightarrow> cc_end i ch (cc_plain i ph ch V) xs"
  "sound (cc_built i c st ph ch V) \<Longrightarrow> lib_only V \<Longrightarrow> RDMA_CM_EVENT_ROUTE_RESOLVED \<in> set xs \<Longrightarrow>
    RDMA_CM_EVENT_DISCONNECTED \<notin> set xs \<Longrightarrow> cc_end i ch (cc_built i c st ph ch V) xs"
  unfolding cc_inv_def cc_end_def by blast+

lemma cc_regions: "lib_only V \<Longrightarrow> regions_in_blocks (chan_res ch # V)"
  by (auto simp: regions_in_blocks_def lib_only_def)

lemma cc_not_listening:
  "lib_only V \<Longrightarrow> ph \<noteq> Cm_listening \<Longrightarrow> \<not> listening (cc_plain i ph ch V)"
  "lib_only V \<Longrightarrow> ph \<noteq> Cm_listening \<Longrightarrow> \<not> listening (cc_built i c st ph ch V)"
  by (auto simp: listening_def lib_only_def conn_res_def conn_own_def)

text \<open>What an event does before and after the connection is built.\<close>

lemma deliver_plain:
  assumes "lib_only V" "ph \<in> {Cm_resolving, Cm_routing}"
    and none: "cm_edge (ev_type e) = None \<Longrightarrow> P (cc_plain i ph ch V)"
    and some: "\<And>ph' V'. cm_edge (ev_type e) = Some (ph, ph') \<Longrightarrow> ev_id e = i \<Longrightarrow> lib_only V' \<Longrightarrow>
      live V' (KCtx (ev_verbs e)) \<Longrightarrow> P (cc_plain i ph' ch V')"
  shows "fair P (cm_deliver e (cc_plain i ph ch V))"
proof (cases "ev_type e = RDMA_CM_EVENT_CONNECT_REQUEST")
  case True
  with cc_not_listening(1) [OF assms(1), of ph i ch] assms(2) show ?thesis by (auto simp: cm_deliver_def)
next
  case False
  show ?thesis
  proof (cases "cm_edge (ev_type e) = None \<or> ev_id e \<noteq> i \<or> fst (the (cm_edge (ev_type e))) \<noteq> ph")
    case True
    with False none show ?thesis
      by (auto simp: cm_deliver_def ledger_simps id_entry_lib [OF assms(1)] split: option.split)
  next
    case True': False
    then obtain ph' where e: "cm_edge (ev_type e) = Some (ph, ph')" "ev_id e = i" by (cases "cm_edge (ev_type e)") auto
    have ne: "ph' \<noteq> Cm_established" using e(1) assms(2) by (cases "ev_type e") auto
    obtain V' where "open_lib (ev_verbs e) (cc_plain i ph' ch V) = cc_plain i ph' ch V'" "lib_only V'" "live V' (KCtx (ev_verbs e))"
      using open_lib_base [OF assms(1), of "[id_res i ph' 0, chan_res ch]" "ev_verbs e"] by (auto simp: ledger_simps)
    with some [OF e] e ne False show ?thesis
      by (simp add: cm_deliver_def ledger_simps set_id_id lib_needs(2) [OF assms(1)])
  qed
qed

lemma deliver_built:
  assumes "sound (cc_built i c st ph ch V)" "lib_only V" "ph \<noteq> Cm_listening"
    and none: "cm_edge (ev_type e) = None \<Longrightarrow> P (cc_built i c st ph ch V)"
    and some: "\<And>ph' V'. cm_edge (ev_type e) = Some (ph, ph') \<Longrightarrow> ev_id e = i \<Longrightarrow> lib_only V' \<Longrightarrow>
      P (cc_built i c (if ph' = Cm_established then IBV_QPS_RTS else st) ph' ch V')"
  shows "fair P (cm_deliver e (cc_built i c st ph ch V))"
proof (cases "ev_type e = RDMA_CM_EVENT_CONNECT_REQUEST")
  case True
  with cc_not_listening(2) [OF assms(2,3)] show ?thesis by (auto simp: cm_deliver_def)
next
  case False
  have entry: "id_entry (cc_built i c st ph ch V) j = (if i = j then Some (ph, cx_qp c) else None)" for j
    by (simp add: conn_res_def conn_own_def ledger_simps id_entry_lib [OF assms(2)])
  show ?thesis
  proof (cases "cm_edge (ev_type e) = None \<or> ev_id e \<noteq> i \<or> fst (the (cm_edge (ev_type e))) \<noteq> ph")
    case True
    with False none show ?thesis
      by (auto simp: cm_deliver_def entry split: option.split)
  next
    case True': False
    then obtain ph' where e: "cm_edge (ev_type e) = Some (ph, ph')" "ev_id e = i" by (cases "cm_edge (ev_type e)") auto
    let ?st = "if ph' = Cm_established then IBV_QPS_RTS else st"
    have "sound ([] @ conn_res CC_CTX_SIZE i c st ph @ chan_res ch # V)" using assms(1) by simp
    note 1 = set_id_conn [OF this, of ph'] sound_set_id [OF this, of i ph' "cx_qp c"]
    then have 2: "sound ([] @ conn_res CC_CTX_SIZE i c st ph' @ chan_res ch # V)" by simp
    have "\<not> live (conn_res CC_CTX_SIZE i c ?st ph' @ [chan_res ch]) (KCtx u)" for u
      by (simp add: conn_res_def conn_own_def ledger_simps)
    from open_lib_base [OF assms(2) this, of "ev_verbs e"] obtain V' where
      "open_lib (ev_verbs e) (cc_built i c ?st ph' ch V) = cc_built i c ?st ph' ch V'" "lib_only V'" by auto
    with some [OF e] e False 1 set_qp_conn [OF 2] show ?thesis
      by (simp add: cm_deliver_def entry split: if_splits)
  qed
qed

section \<open>The event loop keeps to the contract\<close>

text \<open>What is done with an event.\<close>

definition cc_handle :: "nat \<Rightarrow> ptr \<Rightarrow> (ptr \<Rightarrow> conn_ctx option) \<Rightarrow> cm_event \<Rightarrow> unit io" where
  "cc_handle fuel channel ctxs event =
         (if ev_type event = RDMA_CM_EVENT_ADDR_RESOLVED
         then bnd (cc_on_addr_resolved (ev_id event)) (\<lambda>r. if r \<noteq> 0 then ret () else cc_loop fuel channel ctxs)
         else if ev_type event = RDMA_CM_EVENT_ROUTE_RESOLVED
         then bnd (cc_on_route_resolved (ev_id event) (ev_verbs event)) (\<lambda>r. case r of
             None \<Rightarrow> ret ()
           | Some c \<Rightarrow> cc_loop fuel channel (ctxs(ev_id event := Some c)))
         else if ev_type event = RDMA_CM_EVENT_ESTABLISHED
         then (case ctxs (ev_id event) of
             None \<Rightarrow> undef
           | Some c \<Rightarrow> bnd (cc_on_established fuel (ev_id event) c) (\<lambda>r.
               if r \<noteq> 0 then ret () else cc_loop fuel channel ctxs))
         else if ev_type event = RDMA_CM_EVENT_DISCONNECTED
         then (case ctxs (ev_id event) of
             None \<Rightarrow> undef
           | Some c \<Rightarrow> cc_on_disconnected (ev_id event) c)
         else ret ())"

lemma cc_loop_handle:
  "cc_loop (Suc fuel) ch ctxs =
     bnd (sys_cm (Cm (Rdma_get_cm_event ch))) (\<lambda>(r, event).
       if r \<noteq> 0 then ret () else seq (sysv (Cm Rdma_ack_cm_event)) (cc_handle fuel ch ctxs event))"
  unfolding cc_loop.simps cc_handle_def by (rule refl)

lemma obeys_route:
  assumes IH: "\<And>ctxs L xs. cc_inv i ch ctxs L xs \<Longrightarrow> obeys (paired contract cm_type_by) v (cc_loop fuel ch ctxs) (L, xs) Q"
    and fin: "\<And>L xs. cc_end i ch L xs \<Longrightarrow> Q (Ret ()) (L, xs)"
    and s: "sound (cc_plain i Cm_route ch V)" and V: "lib_only V" "live V (KCtx u)"
    and xs: "RDMA_CM_EVENT_ROUTE_RESOLVED \<in> set xs" "RDMA_CM_EVENT_DISCONNECTED \<notin> set xs"
  shows "obeys (paired contract cm_type_by) v
    (bnd (cc_on_route_resolved i u) (\<lambda>r. case r of None \<Rightarrow> ret () | Some c \<Rightarrow> cc_loop fuel ch (ctxs(i := Some c))))
    (cc_plain i Cm_route ch V, xs) Q"
proof (rule obeys_bnd, rule obeys_paired [OF keeps_sound [OF s] cm_silent [OF calls_cc_handlers(2)]],
    unfold cc_on_route_resolved_def, rule cc.keeps_build)
  let ?R = "chan_res ch # V"
  let ?after = "after (\<lambda>r s'. obeys (paired contract cm_type_by) v (case r of None \<Rightarrow> ret ()
        | Some c \<Rightarrow> cc_loop fuel ch (ctxs(i := Some c))) s' Q) Q"
  show "sound ?R" using s by (rule sound_tail)
  show "live ?R (KCtx u)" using V(2) by (simp add: ledger_simps)
  show "regions_in_blocks ?R" by (rule cc_regions [OF V(1)])
  show "\<not> live ?R (KId i)" using lib_needs(2) [OF V(1)] by (simp add: ledger_simps)
  show "32 + 2 * CM_BUFFER_SIZE \<le> CC_CTX_SIZE" by (simp add: CM_BUFFER_SIZE_def CC_CTX_SIZE_def)
  show "sound L' \<longrightarrow> ?after (Ret (Some c)) (L', xs)"
    if "conn_ok CC_CTX_SIZE c" "L' = cc_built i c IBV_QPS_INIT Cm_connecting ch V" for c L'
    using that V(1) xs by (auto intro!: IH cc_intros)
  have "cc_end i ch (cc_plain i Cm_route ch V) xs" using s V(1) by (rule cc_intros)
  then show "sound (cc_plain i Cm_route ch V) \<longrightarrow> ?after (Ret None) (cc_plain i Cm_route ch V, xs)"
    by (simp add: fin)
qed

lemma connected_ok:
  assumes "conn_ok CC_CTX_SIZE c"
  shows "mem_ok (cc_built i c st ph ch V) (connected_at (cx_ptr c)) 4"
proof -
  have "unat (cx_ptr c) + CC_CTX_SIZE \<le> 2 ^ 64" using assms by (simp add: conn_ok_def)
  then have "within (cx_ptr c) CC_CTX_SIZE (connected_at (cx_ptr c)) 4"
    unfolding connected_at_def by (rule within_offset) (simp_all add: CC_CTX_SIZE_def CM_BUFFER_SIZE_def)
  then show ?thesis by (simp add: conn_res_def conn_own_def ledger_simps)
qed

lemma obeys_built:
  assumes IH: "\<And>ctxs L xs. cc_inv i ch ctxs L xs \<Longrightarrow> obeys (paired contract cm_type_by) v (cc_loop fuel ch ctxs) (L, xs) Q"
    and fin: "\<And>L xs. cc_end i ch L xs \<Longrightarrow> Q (Ret ()) (L, xs)" "\<And>s. Q UB s" "\<And>s. Q Hang s"
    and s: "sound (cc_built i c st ph' ch V)" and V: "lib_only V" and c: "conn_ok CC_CTX_SIZE c" "ctxs i = Some c"
    and xs: "RDMA_CM_EVENT_ROUTE_RESOLVED \<in> set xs" "RDMA_CM_EVENT_DISCONNECTED \<notin> set xs"
    and e: "ev_id e = i" "cm_edge (ev_type e) = Some (ph, ph')" "ph' = Cm_established \<Longrightarrow> st = IBV_QPS_RTS"
      "ph \<in> {Cm_connecting, Cm_established}"
  shows "obeys (paired contract cm_type_by) v (cc_handle fuel ch ctxs e) (cc_built i c st ph' ch V, xs @ [ev_type e]) Q"
proof -
  consider (est) "ev_type e = RDMA_CM_EVENT_ESTABLISHED" | (dis) "ev_type e = RDMA_CM_EVENT_DISCONNECTED"
    | (other) "ev_type e \<in> {RDMA_CM_EVENT_CONNECT_ERROR, RDMA_CM_EVENT_UNREACHABLE, RDMA_CM_EVENT_REJECTED}"
    using e(2,4) by (cases "ev_type e") auto
  then show ?thesis
  proof cases
    case est
    with e have ph: "ph' = Cm_established" "st = IBV_QPS_RTS" by auto
    have inv: "cc_inv i ch ctxs (cc_built i c st ph' ch V) (xs @ [ev_type e])"
      using s V c xs ph est by (intro cc_intros) auto
    have "sound ([] @ conn_res CC_CTX_SIZE i c IBV_QPS_RTS ph' @ chan_res ch # V)" using s ph by simp
    from conn_usable_at [OF this c(1)] have u: "conn_usable c (cc_built i c st ph' ch V)" using ph by simp
    have "live (cc_built i c st ph' ch V) (KId i)" by (simp add: conn_res_def conn_own_def ledger_simps)
    from keeps_cc_on_established [OF u connected_ok [OF c(1)] this] show ?thesis
      using IH [OF inv] fin cc_inv_end [OF inv] est e(1) c(2)
      by (auto simp: cc_handle_def intro!: obeys_bnd obeys_paired cm_silent calls_cc_handlers)
  next
    case dis
    with e have ph: "ph' = Cm_closed" by auto
    have s': "sound ([] @ conn_res CC_CTX_SIZE i c st ph' @ chan_res ch # V)" using s by simp
    have "keeps v (cc_on_disconnected i c) ([] @ conn_res CC_CTX_SIZE i c st ph' @ chan_res ch # V)
        (\<lambda>r L. Q r (L, xs @ [ev_type e]))"
      unfolding cc_on_disconnected_def
    proof (rule keeps_sound [OF s'], rule keeps_cm_release [OF s' _ _ cc_regions [OF V] c(1)])
      show "closed []" by (simp add: closed_def ledger_simps)
      show "regions_in_blocks []" by (simp add: regions_in_blocks_def)
      show "sound ([] @ id_res i ph' 0 # chan_res ch # V) \<longrightarrow> Q (Ret ()) ([] @ id_res i ph' 0 # chan_res ch # V, xs @ [ev_type e])"
        using V by (auto intro!: fin(1) cc_intros)
    qed
    then show ?thesis
      using dis e(1) c(2) by (auto simp: cc_handle_def intro: obeys_paired cm_silent calls_cc_handlers)
  next
    case other
    then have "cc_end i ch (cc_built i c st ph' ch V) (xs @ [ev_type e])"
      using s V xs by (intro cc_intros) auto
    with other fin(1) show ?thesis by (auto simp: cc_handle_def)
  qed
qed

lemma obeys_resolved:
  assumes IH: "\<And>ctxs L xs. cc_inv i ch ctxs L xs \<Longrightarrow> obeys (paired contract cm_type_by) v (cc_loop fuel ch ctxs) (L, xs) Q"
    and fin: "\<And>L xs. cc_end i ch L xs \<Longrightarrow> Q (Ret ()) (L, xs)"
    and s: "sound (cc_plain i ph' ch V)" and V: "lib_only V" "live V (KCtx (ev_verbs e))"
    and xs: "RDMA_CM_EVENT_DISCONNECTED \<notin> set xs"
    and e: "ev_id e = i" "cm_edge (ev_type e) = Some (ph, ph')" "ph \<in> {Cm_resolving, Cm_routing}"
  shows "obeys (paired contract cm_type_by) v (cc_handle fuel ch ctxs e) (cc_plain i ph' ch V, xs @ [ev_type e]) Q"
proof -
  consider (addr) "ev_type e = RDMA_CM_EVENT_ADDR_RESOLVED" | (route) "ev_type e = RDMA_CM_EVENT_ROUTE_RESOLVED"
    | (other) "ev_type e \<in> {RDMA_CM_EVENT_ADDR_ERROR, RDMA_CM_EVENT_ROUTE_ERROR}"
    using e(2,3) by (cases "ev_type e") auto
  then show ?thesis
  proof cases
    case addr
    with e have ph: "ph' = Cm_addr" by auto
    have s2: "sound (cc_plain i Cm_routing ch V)"
      using sound_set_id [OF s, of i Cm_routing 0] lib_needs(2) [OF V(1)] by (simp add: ledger_simps set_id_id)
    have "cc_inv i ch ctxs (cc_plain i Cm_routing ch V) (xs @ [ev_type e])"
      using s2 V xs addr by (intro cc_intros) auto
    moreover have "cc_end i ch (cc_plain i Cm_addr ch V) (xs @ [ev_type e])"
      using s V ph by (intro cc_intros) auto
    ultimately show ?thesis
      using IH fin addr e(1) ph lib_needs(2) [OF V(1)]
      by (auto simp: cc_handle_def cc_on_addr_resolved_def ledger_simps set_id_id intro!: obeys_bnd obeys_sys)
  next
    case route
    with e have "ph' = Cm_route" by auto
    with route obeys_route [where xs = "xs @ [ev_type e]" and ctxs = ctxs, OF IH fin _ V] s xs e(1) show ?thesis
      by (simp add: cc_handle_def)
  next
    case other
    then have "cc_end i ch (cc_plain i ph' ch V) (xs @ [ev_type e])"
      using s V by (intro cc_intros) auto
    with other fin show ?thesis by (auto simp: cc_handle_def)
  qed
qed

lemma obeys_cc_handle:
  assumes IH: "\<And>ctxs L xs. cc_inv i ch ctxs L xs \<Longrightarrow> obeys (paired contract cm_type_by) v (cc_loop fuel ch ctxs) (L, xs) Q"
    and fin: "\<And>L xs. cc_end i ch L xs \<Longrightarrow> Q (Ret ()) (L, xs)" "\<And>s. Q UB s" "\<And>s. Q Hang s"
    and inv: "cc_inv i ch ctxs L xs"
  shows "fair (\<lambda>L'. sound L' \<longrightarrow> obeys (paired contract cm_type_by) v (cc_handle fuel ch ctxs e) (L', xs @ [ev_type e]) Q)
    (cm_deliver e L)"
proof -
  have s: "sound L" and xs: "RDMA_CM_EVENT_DISCONNECTED \<notin> set xs" using inv by (auto simp: cc_inv_def)
  have none: "obeys (paired contract cm_type_by) v (cc_handle fuel ch ctxs e) (L, xs @ [ev_type e]) Q"
    if "cm_edge (ev_type e) = None"
  proof -
    have "cc_handle fuel ch ctxs e = ret ()" using that by (auto simp: cc_handle_def)
    moreover have "cc_end i ch L (xs @ [ev_type e])"
      by (rule cc_end_mono [OF cc_inv_end [OF inv]]) (use that in auto)
    ultimately show ?thesis by (simp add: fin(1))
  qed
  obtain V where V: "lib_only V" and
    "(\<exists>ph \<in> {Cm_resolving, Cm_routing}. L = cc_plain i ph ch V) \<or>
     (\<exists>c st ph. L = cc_built i c st ph ch V \<and> conn_ok CC_CTX_SIZE c \<and> ctxs i = Some c \<and>
        RDMA_CM_EVENT_ROUTE_RESOLVED \<in> set xs \<and>
        (st = IBV_QPS_INIT \<and> ph = Cm_connecting \<or> st = IBV_QPS_RTS \<and> ph = Cm_established))"
    using inv unfolding cc_inv_def by blast
  then consider (plain) ph where "ph \<in> {Cm_resolving, Cm_routing}" "L = cc_plain i ph ch V"
    | (built) c st ph where "L = cc_built i c st ph ch V" "conn_ok CC_CTX_SIZE c" "ctxs i = Some c"
        "RDMA_CM_EVENT_ROUTE_RESOLVED \<in> set xs"
        "st = IBV_QPS_INIT \<and> ph = Cm_connecting \<or> st = IBV_QPS_RTS \<and> ph = Cm_established"
    by blast
  then show ?thesis
  proof cases
    case plain
    then show ?thesis
      unfolding plain(2)
      by (intro deliver_plain V plain(1) impI obeys_resolved [OF IH fin(1) _ _ _ xs] none [unfolded plain(2)])
  next
    case built
    have ph: "ph \<noteq> Cm_listening" "ph \<in> {Cm_connecting, Cm_established}" using built(5) by auto
    show ?thesis
      unfolding built(1)
    proof (rule deliver_built [OF s [unfolded built(1)] V ph(1)])
      show "sound (cc_built i c st ph ch V) \<longrightarrow>
          obeys (paired contract cm_type_by) v (cc_handle fuel ch ctxs e) (cc_built i c st ph ch V, xs @ [ev_type e]) Q"
        if "cm_edge (ev_type e) = None" using none [OF that, unfolded built(1)] by simp
      show "sound (cc_built i c (if ph' = Cm_established then IBV_QPS_RTS else st) ph' ch V') \<longrightarrow>
          obeys (paired contract cm_type_by) v (cc_handle fuel ch ctxs e)
            (cc_built i c (if ph' = Cm_established then IBV_QPS_RTS else st) ph' ch V', xs @ [ev_type e]) Q"
        if "cm_edge (ev_type e) = Some (ph, ph')" "ev_id e = i" "lib_only V'" for ph' V'
        using obeys_built [where ph = ph and i = i and Q = Q and ctxs = ctxs, OF IH fin _ that(3) built(2-4) xs that(2,1) _ ph(2)] by simp
    qed
  qed
qed

lemma obeys_cc_loop:
  assumes fin: "\<And>L xs. cc_end i ch L xs \<Longrightarrow> Q (Ret ()) (L, xs)" "\<And>s. Q UB s" "\<And>s. Q Hang s"
  shows "cc_inv i ch ctxs L xs \<Longrightarrow> obeys (paired contract cm_type_by) v (cc_loop fuel ch ctxs) (L, xs) Q"
proof (induction fuel arbitrary: ctxs L xs)
  case (Suc fuel)
  have s: "sound L" "live L (KChan ch)"
    using Suc.prems by (auto simp: cc_inv_def ledger_simps)
  show ?case
    unfolding cc_loop_handle
    by (rule obeys_event [OF s]) (use obeys_cc_handle [OF Suc.IH fin Suc.prems] fin(1) [OF cc_inv_end [OF Suc.prems]] in auto)
qed (simp add: fin)

section \<open>The whole program\<close>

text \<open>What a run that ends normally leaves behind.\<close>

definition cc_left :: "int outcome \<Rightarrow> ledger \<times> cm_event_type list \<Rightarrow> bool" where
  "cc_left r s \<longleftrightarrow> r = Ret 0 \<longrightarrow> lib_only (fst s) \<or>
     RDMA_CM_EVENT_ROUTE_RESOLVED \<in> set (snd s) \<and> RDMA_CM_EVENT_DISCONNECTED \<notin> set (snd s) \<and>
     (\<exists>c st V. fst s = conn_own CC_CTX_SIZE c st @ V \<and> lib_only V)"

lemma obeys_cc_end:
  assumes "cc_end i ch L xs"
  shows "obeys (paired contract cm_type_by) v
    (seq (sysv (Cm (Rdma_destroy_id i))) (seq (sysv (Cm (Rdma_destroy_event_channel ch))) (ret 0))) (L, xs) cc_left"
proof -
  obtain V where V: "lib_only V" and L: "(\<exists>ph. L = cc_plain i ph ch V) \<or>
        (\<exists>c st ph. L = cc_built i c st ph ch V \<and> RDMA_CM_EVENT_ROUTE_RESOLVED \<in> set xs \<and>
          RDMA_CM_EVENT_DISCONNECTED \<notin> set xs)"
    using assms unfolding cc_end_def by blast
  note n = lib_needs [OF V]
  have own: "\<not> live (conn_own CC_CTX_SIZE c st) (KId j)" "\<not> needed (conn_own CC_CTX_SIZE c st) (KId j)"
    "\<not> live (conn_own CC_CTX_SIZE c st) (KChan j)" "\<not> needed (conn_own CC_CTX_SIZE c st) (KChan j)" for c st j
    by (simp_all add: conn_own_def ledger_simps)
  from L show ?thesis
  proof (elim disjE exE conjE)
    fix ph assume "L = cc_plain i ph ch V"
    then show ?thesis
      using V n by (auto intro!: obeys_rules simp: ledger_simps filter_fresh cc_left_def)
  next
    fix c st ph
    assume b: "L = cc_built i c st ph ch V" "RDMA_CM_EVENT_ROUTE_RESOLVED \<in> set xs" "RDMA_CM_EVENT_DISCONNECTED \<notin> set xs"
    have "cc_left (Ret 0) (conn_own CC_CTX_SIZE c st @ V, xs)"
      using V b(2,3) unfolding cc_left_def by auto
    then show ?thesis
      using n own by (auto intro!: obeys_rules simp: b(1) conn_res_def ledger_simps filter_fresh)
  qed
qed

lemma obeys_cc_main: "obeys (paired contract cm_type_by) v (cc_main fuel args) ([], []) cc_left"
proof -
  have run: "obeys (paired contract cm_type_by) v (seq (cc_loop fuel ch (\<lambda>i. None))
      (seq (sysv (Cm (Rdma_destroy_id i))) (seq (sysv (Cm (Rdma_destroy_event_channel ch))) (ret 0))))
      (cc_plain i Cm_resolving ch [], []) cc_left" for i ch
  proof (rule obeys_seq, rule obeys_cc_loop [where i = i])
    show "cc_inv i ch (\<lambda>i. None) (cc_plain i Cm_resolving ch []) []"
      by (intro cc_intros) (auto simp: lib_only_def sound_def apart_blocks_def)
  qed (auto simp: cc_left_def intro: obeys_cc_end)
  show ?thesis
    unfolding cc_main_def Let_def
    by (cases args; simp only: list.case)
      (auto intro!: obeys_bnd obeys_sysp obeys_sys obeys_sys_intptr obeys_get_order obeys_if run simp: ledger_simps,
       simp_all add: cc_left_def)
qed


section \<open>The exchange\<close>

lemma cc_await_parts:
  assumes "cc_await fuel i c v h = (Ret 0, es)"
  shows "\<exists>wc wc' es' r. polled es = [wc, wc'] \<and> wc_status wc = IBV_WC_SUCCESS \<and> wc_status wc' = IBV_WC_SUCCESS \<and>
    work es = [Completed, Completed] \<and> sends es = [] \<and> stored p es = [] \<and> es = es' @ [(Cm (Rdma_disconnect i), RInt r)]"
proof -
  from assms obtain wc e1 r1 where 1: "busy_wait fuel (cx_cq c) v h = (Ret (Inr wc), e1)" "es = e1 @ r1"
    and r1: "(if wc_status wc \<noteq> IBV_WC_SUCCESS then ret (- 1)
         else bnd (busy_wait fuel (cx_cq c)) (\<lambda>r. case r of
           Inl e \<Rightarrow> ret (- 1)
         | Inr wc \<Rightarrow>
             if wc_status wc \<noteq> IBV_WC_SUCCESS then ret (- 1)
             else seq (load_str (recv_buf (cx_ptr c)) CM_BUFFER_SIZE) (
               seq (sys (Cm (Rdma_disconnect i))) (ret 0)))) v (h @ e1) = (Ret (0 :: int), r1)"
    unfolding cc_await_def by (elim bnd_RetE) (auto split: sum.splits)
  then obtain wc' e2 d e3 r where 2: "busy_wait fuel (cx_cq c) v (h @ e1) = (Ret (Inr wc'), e2)"
    "load_str (recv_buf (cx_ptr c)) CM_BUFFER_SIZE v (h @ e1 @ e2) = (Ret d, e3)"
    "wc_status wc = IBV_WC_SUCCESS" "wc_status wc' = IBV_WC_SUCCESS"
    "r1 = e2 @ e3 @ [(Cm (Rdma_disconnect i), RInt r)]"
    by (fastforce simp: bnd_sum_Ret seq_eq_Ret sys_def split: if_splits)
  have "es = (e1 @ e2 @ e3) @ [(Cm (Rdma_disconnect i), RInt r)]" by (simp add: 1(2) 2(5))
  then show ?thesis
    using busy_wait_took [OF 1(1)] busy_wait_took [OF 2(1)] load_str_traffic [OF 2(2)] 2(3,4)
    by (simp add: stored_append)
qed

lemma cc_text_ok: "no_nul cc_text" "length cc_text = 26" "length cc_text < CM_BUFFER_SIZE"
  by (simp_all add: cc_text_def no_nul_def chars_def CM_BUFFER_SIZE_def)

text \<open>C35: A successful \<^verbatim>\<open>on_established\<close> of the client sends its greeting, uncut and with its NUL, as
  long as nobody else writes the send buffer; then it takes two successful completions, of the send and
  of the server's reply, and the disconnect is the last thing it does.\<close>

theorem cc_exchange:
  assumes "cc_on_established fuel i c v h = (Ret 0, es)" "own_memory v (send_buf (cx_ptr c))"
  shows "\<exists>wc wc' es' r. polled es = [wc, wc'] \<and> wc_status wc = IBV_WC_SUCCESS \<and> wc_status wc' = IBV_WC_SUCCESS \<and>
    work es = [Posted_send 1, Completed, Completed] \<and> sends es = [(send_buf (cx_ptr c), length cc_text + 1)] \<and>
    stored (send_buf (cx_ptr c)) es = chars cc_text @ [0] \<and> es = es' @ [(Cm (Rdma_disconnect i), RInt r)]"
proof -
  let ?p = "send_buf (cx_ptr c)"
  let ?s1 = "(Os (Mem_store (connected_at (cx_ptr c)) (enc (env_order v) 4 1)), RVoid)"
  let ?s2 = "(Os (Mem_store ?p (snprintf_bytes CM_BUFFER_SIZE cc_text)), RVoid)"
  have "connected_at (cx_ptr c) \<noteq> ?p" by (simp add: connected_at_def send_buf_def CM_BUFFER_SIZE_def)
  then have st: "work [?s1, ?s2] = []" "polled [?s1, ?s2] = []" "sends [?s1, ?s2] = []" "stored ?p [?s1, ?s2] = chars cc_text @ [0]"
    by (simp_all add: snprintf_fits [OF cc_text_ok(3)] split: list.split)
  from assms(1) obtain r1 where es: "es = ?s1 # ?s2 # r1"
    and r1: "bnd (load_str ?p CM_BUFFER_SIZE) (\<lambda>str. bnd (cm_post_send c (length str + 1)) (\<lambda>r.
     if r \<noteq> 0 then ret (- 1) else cc_await fuel i c)) v ((h @ [?s1]) @ [?s2]) = (Ret (0 :: int), r1)"
    unfolding cc_on_established_def by (auto simp: bnd_get_order sysv_Ret)
  obtain d e3 r3 where 3: "load_str ?p CM_BUFFER_SIZE v ((h @ [?s1]) @ [?s2]) = (Ret d, e3)"
    and r3: "bnd (cm_post_send c (length d + 1)) (\<lambda>r. if r \<noteq> 0 then ret (- 1) else cc_await fuel i c) v
      (((h @ [?s1]) @ [?s2]) @ e3) = (Ret (0 :: int), r3)" and 4: "r1 = e3 @ r3"
    using r1 by (rule bnd_RetE)
  obtain w r4 h' where 5: "cm_post_send c (length d + 1) v (((h @ [?s1]) @ [?s2]) @ e3) = (Ret 0, w)"
    and r4: "cc_await fuel i c v h' = (Ret 0, r4)" and 6: "r3 = w @ r4"
    using r3 by (elim bnd_RetE) (auto split: if_splits)
  from cc_await_parts [OF r4, of ?p] obtain wc wc' es' r where aw: "polled r4 = [wc, wc']" "wc_status wc = IBV_WC_SUCCESS"
    "wc_status wc' = IBV_WC_SUCCESS" "work r4 = [Completed, Completed]" "sends r4 = []" "stored ?p r4 = []"
    "r4 = es' @ [(Cm (Rdma_disconnect i), RInt r)]" by blast
  have w: "work w = [Posted_send 1]" "polled w = []" "sends w = [(?p, length cc_text + 1)]" "stored ?p w = []"
    using 5 sent_string(2) [OF 3 assms(2) cc_text_ok(1,3)]
    by (auto simp: cm_post_send_def sys_def simp del: of_nat_add of_nat_Suc)
  have "es = [?s1, ?s2] @ e3 @ w @ r4" "es = ([?s1, ?s2] @ e3 @ w @ es') @ [(Cm (Rdma_disconnect i), RInt r)]"
    by (simp_all add: es 4 6 aw(7))
  then show ?thesis
    using st w aw(1-6) load_str_traffic [OF 3] by (simp only: traffic_simps work_simps stored_append) fastforce
qed

text \<open>The first poll fails: the status printed was never written.\<close>

lemma cc_uninitialised_status:
  assumes "env_wc v h (Vb (Ibv_poll_cq (cx_cq c) 1)) = (- 1, [])"
  shows "fst (cc_await (Suc fuel) i c v h) = UB"
  using assms by (simp add: cc_await_def run_defs)

section \<open>Server and client arm the receive queue first\<close>

text \<open>C33: On both sides a connection is started by the last call of the handler, and by then exactly
  one receive for the whole buffer has been posted to its queue pair: the server accepts, and the client
  connects, only when the first message of the other side has a place to go.\<close>

theorem cm_start_armed:
  assumes "cs_on_connect_request i u v h = (Ret (Some c), es)" "cc_on_route_resolved j u' v' h' = (Ret (Some c'), es')"
  shows "(\<exists>ks. es = ks @ [(Cm (Rdma_accept i cs_conn_param), RInt 0)] \<and> work ks = [Posted_recv 0] \<and>
      recvs ks = [(cx_qp c, recv_buf (cx_ptr c), CM_BUFFER_SIZE)]) \<and>
    (\<exists>ks. es' = ks @ [(Cm (Rdma_connect j cc_conn_param), RInt 0)] \<and> work ks = [Posted_recv 0] \<and>
      recvs ks = [(cx_qp c', recv_buf (cx_ptr c'), CM_BUFFER_SIZE)])"
  using assms unfolding cs_on_connect_request_def cc_on_route_resolved_def by (blast intro: cm_build_armed)

section \<open>Runs of the witnesses\<close>

lemma cc_lab_run: "\<exists>es. cc_main (Suc (Suc (Suc (Suc (Suc 0))))) [''10.0.0.1''] (cm_lab 8192 [RDMA_CM_EVENT_ADDR_RESOLVED,
    RDMA_CM_EVENT_ROUTE_RESOLVED, RDMA_CM_EVENT_ESTABLISHED, RDMA_CM_EVENT_DISCONNECTED]) [] = (Ret 0, es) \<and>
  mon_run contract [] es = Live [ctx_res 64]"
proof -
  have "0 < CM_BUFFER_SIZE" by (simp add: CM_BUFFER_SIZE_def)
  then show ?thesis
    by (simp add: cc_main_def cm_lab_simps run_defs Let_def lab_int_def lab_wc_def zero_wc_def lab_handle_def
      cc_on_addr_resolved_def cc_on_route_resolved_def cm_build_def cm_post_receive_def cc_on_established_def
      cc_await_def cm_lab_load cm_post_send_def cc_on_disconnected_def cm_release_def lab_mr_def cm_types_def)
      (simp add: ledger_simps judge_defs cm_qp_attr_def cc_text_def CM_BUFFER_SIZE_def CC_CTX_SIZE_def
      recv_buf_def send_buf_def connected_at_def snprintf_bytes_def enc_def)
qed


lemma cm_start_armed_witness:
  "\<exists>c es c' es'. cs_on_connect_request 99 64 (cm_lab 99 []) [] = (Ret (Some c), es) \<and> (Cm (Rdma_accept 99 cs_conn_param), RInt 0) \<in> set es \<and>
     cc_on_route_resolved 98 64 (cm_lab 98 []) [] = (Ret (Some c'), es') \<and> (Cm (Rdma_connect 98 cc_conn_param), RInt 0) \<in> set es'"
proof -
  obtain c es where 1: "cs_on_connect_request 99 64 (cm_lab 99 []) [] = (Ret (Some c), es)"
    by (simp add: cs_on_connect_request_def cm_build_def cm_post_receive_def cm_lab_simps run_defs lab_handle_def lab_mr_def
      lab_int_def Let_def)
  obtain c' es' where 2: "cc_on_route_resolved 98 64 (cm_lab 98 []) [] = (Ret (Some c'), es')"
    by (simp add: cc_on_route_resolved_def cm_build_def cm_post_receive_def cm_lab_simps run_defs lab_handle_def lab_mr_def
      lab_int_def Let_def)
  show ?thesis using cm_start_armed [OF 1 2] 1 2 by auto
qed

lemma cc_exchange_witness:
  "\<exists>es. cc_on_established (Suc 0) 8192 cs_lab_ctx (lab_env 17 5 []) [] = (Ret 0, es) \<and> sends es = [(5152, 27)]"
proof -
  have "own_memory (lab_env 17 5 []) p" for p
    by (simp add: own_memory_def lab_env_simps lab_read_def)
  moreover obtain es where r: "cc_on_established (Suc 0) 8192 cs_lab_ctx (lab_env 17 5 []) [] = (Ret 0, es)"
    by (simp add: cc_on_established_def cc_await_def cm_post_send_def load_str_def run_defs lab_env_simps lab_int_def
      lab_read_def lab_wc_def zero_wc_def cc_text_def CM_BUFFER_SIZE_def snprintf_bytes_def fit_def chars_def cs_lab_ctx_def
      recv_buf_def send_buf_def connected_at_def enc_def)
  ultimately show ?thesis
    using cc_exchange [OF r] by (auto simp: cs_lab_ctx_def send_buf_def CM_BUFFER_SIZE_def cc_text_ok(2))
qed

text \<open>A connection that is rejected: the client destroys the identifier and leaves everything else.\<close>

lemma cc_rejected_leaks:
  "\<exists>es q. cc_main (Suc (Suc (Suc (Suc 0)))) [''10.0.0.1''] (cm_lab 8192 [RDMA_CM_EVENT_ADDR_RESOLVED,
      RDMA_CM_EVENT_ROUTE_RESOLVED, RDMA_CM_EVENT_REJECTED]) [] = (Ret 0, es) \<and> live (leftover es) (KQp q)"
proof -
  have "0 < CM_BUFFER_SIZE" by (simp add: CM_BUFFER_SIZE_def)
  then show ?thesis
    by (simp add: cc_main_def cm_lab_simps run_defs Let_def lab_int_def lab_wc_def zero_wc_def lab_handle_def
      cc_on_addr_resolved_def cc_on_route_resolved_def cm_build_def cm_post_receive_def lab_mr_def cm_types_def)
      (simp add: leftover_def ledger_simps judge_defs cm_qp_attr_def CM_BUFFER_SIZE_def CC_CTX_SIZE_def
      recv_buf_def send_buf_def; metis)
qed

end
