(* ===== verification/Rdma_Bench.thy ===== *)
theory Rdma_Bench
  imports Qp_Array
begin

text \<open>
  \<^verbatim>\<open>ch12-benchmark/rdma_bench.c\<close>: RDMA writes over an array of queue pairs that all connect to the
  one queue pair the peer announced.  Times are kept in nanoseconds and the rates as the counts they
  are quotients of; floating point is not modelled.
\<close>

section \<open>Parameters, configuration, context\<close>

definition BENCH_MSG_SIZE :: int where "BENCH_MSG_SIZE = 4096"
definition BENCH_ITERS :: int where "BENCH_ITERS = 100000"
definition BENCH_WARMUP :: int where "BENCH_WARMUP = 5000"
definition BENCH_QP_COUNT :: int where "BENCH_QP_COUNT = 1"
definition BENCH_SQ_DEPTH :: int where "BENCH_SQ_DEPTH = 512"
definition BENCH_CQ_DEPTH :: int where "BENCH_CQ_DEPTH = 1024"
definition BENCH_PORT :: int where "BENCH_PORT = 18515"
definition BENCH_IB_PORT :: int where "BENCH_IB_PORT = 1"
definition BENCH_GID_INDEX :: int where "BENCH_GID_INDEX = 0"
definition SIGNAL_INTERVAL :: nat where "SIGNAL_INTERVAL = 32"

record conn_info =
  ci_addr :: u64
  ci_rkey :: u32
  ci_qpn :: u32
  ci_lid :: u16
  ci_gid :: gid

text \<open>The memory image: 34 bytes of fields and 6 of padding, in the zeroed context of \<^verbatim>\<open>main\<close>.\<close>

definition conn_info_bytes :: "byte_order \<Rightarrow> conn_info \<Rightarrow> bytes" where
  "conn_info_bytes ord c =
     enc ord 8 (unat (ci_addr c)) @ enc ord 4 (unat (ci_rkey c)) @ enc ord 4 (unat (ci_qpn c))
     @ enc ord 2 (unat (ci_lid c)) @ gid_raw (ci_gid c) @ replicate 6 0"

definition conn_info_of :: "byte_order \<Rightarrow> bytes \<Rightarrow> conn_info" where
  "conn_info_of ord bs =
     \<lparr>ci_addr = u64_at ord 0 bs, ci_rkey = u32_at ord 8 bs, ci_qpn = u32_at ord 12 bs,
      ci_lid = u16_at ord 16 bs, ci_gid = gid_at 18 bs\<rparr>"

record bench_config =
  bc_devname :: "string option"
  bc_server :: "string option"
  bc_msg_size :: int
  bc_iterations :: int
  bc_warmup :: int
  bc_qp_count :: int
  bc_sq_depth :: int
  bc_ib_port :: int
  bc_gid_index :: int
  bc_tcp_port :: int
  bc_is_server :: int

record bench_ctx =
  bx_ctx :: ptr
  bx_pd :: ptr
  bx_mr :: ibv_mr
  bx_cq :: ptr
  bx_qps :: ptr
  bx_qp :: "ibv_qp list"
  bx_buf :: ptr
  bx_local :: conn_info
  bx_remote :: conn_info

text \<open>The numbers of the statistics: nanoseconds, operations, and the bits they moved.\<close>

record bench_stats =
  bs_elapsed_ns :: int
  bs_ops :: int
  bs_bits :: int
  bs_iterations :: int
  bs_msg_size :: int

definition get_time :: "int io" where
  "get_time = bnd sys_time (\<lambda>(s, ns). ret (s * 1000000000 + ns))"

definition die :: "('v, 'e, 'a) prog" where "die = halt EXIT_FAILURE"

text \<open>A product of two \<^verbatim>\<open>int\<close> values: an overflow has no meaning.\<close>

definition int_times :: "int \<Rightarrow> int \<Rightarrow> int io" where
  "int_times a b = (if - (2 ^ 31) \<le> a * b \<and> a * b < 2 ^ 31 then ret (a * b) else undef)"

section \<open>The side channel\<close>

definition bench_listen :: "int \<Rightarrow> int io" where
  "bench_listen port =
     bnd get_order (\<lambda>ord.
     bnd (sys (Os (Socket AF_INET SOCK_STREAM 0))) (\<lambda>sockfd. if sockfd < 0 then die else
     seq (sys (Os (Setsockopt sockfd))) (
     bnd (sys (Os (Bind sockfd (Sin (htons ord (to_u16 port)) INADDR_ANY)))) (\<lambda>r. if r < 0 then die else
     bnd (sys (Os (Listen sockfd 1))) (\<lambda>r. if r < 0 then die else
     bnd (sys (Os (Accept sockfd))) (\<lambda>connfd. if connfd < 0 then die else
     seq (sys (Os (Close sockfd))) (ret connfd)))))))"

text \<open>The host as an address, or else as a name to look up.\<close>

definition bench_resolve :: "string \<Rightarrow> u32 io" where
  "bench_resolve host =
     bnd (sys_intptr (Cm (Inet_pton host))) (\<lambda>(ok, a).
       if ok \<le> 0
       then bnd (sys_intptr (Os (Gethostbyname host))) (\<lambda>(he, a). if he = 0 then die else ret (ucast a))
       else ret (ucast a))"

definition bench_dial :: "string \<Rightarrow> int \<Rightarrow> int io" where
  "bench_dial host port =
     bnd get_order (\<lambda>ord.
     bnd (bench_resolve host) (\<lambda>a.
     bnd (sys (Os (Socket AF_INET SOCK_STREAM 0))) (\<lambda>sockfd. if sockfd < 0 then die else
     bnd (sys (Os (Connect sockfd (Sin (htons ord (to_u16 port)) a)))) (\<lambda>r. if r < 0 then die else
     ret sockfd))))"

text \<open>One \<^verbatim>\<open>write\<close> and one \<^verbatim>\<open>read\<close>: a short transfer is an error.\<close>

definition exchange_info :: "int \<Rightarrow> conn_info \<Rightarrow> conn_info io" where
  "exchange_info sockfd loc =
     bnd get_order (\<lambda>ord.
     bnd (sys (Os (Write sockfd (conn_info_bytes ord loc)))) (\<lambda>w. if w \<noteq> 40 then die else
     bnd (sys_bytes (Os (Read sockfd 40))) (\<lambda>(n, d). if n \<noteq> 40 then die else
     ret (conn_info_of ord d))))"

section \<open>Setup\<close>

definition bench_open_device :: "string option \<Rightarrow> ptr io" where
  "bench_open_device name =
     bnd sys_devs (\<lambda>(dev_list, devs).
       if dev_list = 0 \<or> length devs = 0 then die
       else bnd (case (case name of Some n \<Rightarrow> find_named devs n | None \<Rightarrow> Some (hd devs)) of
           None \<Rightarrow> ret 0
         | Some dev \<Rightarrow> sysp (Vb (Ibv_open_device (dev_ptr dev)))) (\<lambda>ctx.
       seq (sysv (Vb (Ibv_free_device_list dev_list))) (
       if ctx = 0 then die else ret ctx)))"

definition bench_qp_attr :: "bench_config \<Rightarrow> ptr \<Rightarrow> qp_init_attr" where
  "bench_qp_attr cfg cq =
     \<lparr>qi_send_cq = cq, qi_recv_cq = cq, qi_srq = 0,
      qi_cap = \<lparr>max_send_wr = bc_sq_depth cfg, max_recv_wr = 1, max_send_sge = 1, max_recv_sge = 1,
        max_inline_data = 64\<rparr>,
      qi_qp_type = IBV_QPT_RC, qi_sq_sig_all = 0\<rparr>"

fun bench_make_qps :: "bench_config \<Rightarrow> ptr \<Rightarrow> ptr \<Rightarrow> nat \<Rightarrow> ibv_qp list io" where
  "bench_make_qps cfg pd cq 0 = ret []"
| "bench_make_qps cfg pd cq (Suc n) =
     bnd (sys_qp (Vb (Ibv_create_qp pd (bench_qp_attr cfg cq)))) (\<lambda>q. if qp_ptr q = 0 then die else
     bnd (bench_make_qps cfg pd cq n) (\<lambda>qs. ret (q # qs)))"

text \<open>What is announced to the peer; with no queue pair the read of the first one is outside the array.\<close>

definition bench_local_info :: "bench_config \<Rightarrow> ptr \<Rightarrow> ptr \<Rightarrow> ibv_mr \<Rightarrow> ibv_qp list \<Rightarrow> conn_info io" where
  "bench_local_info cfg ctx buf mr qps =
     bnd (sys_port (Vb (Ibv_query_port ctx (to_u8 (bc_ib_port cfg))))) (\<lambda>(r, pa). if r \<noteq> 0 then die else
     case qps of [] \<Rightarrow> undef | q # _ \<Rightarrow>
     bnd (sys_gid (Vb (Ibv_query_gid ctx (to_u8 (bc_ib_port cfg)) (bc_gid_index cfg)))) (\<lambda>(r, g). if r \<noteq> 0 then die else
     ret \<lparr>ci_addr = buf, ci_rkey = mr_rkey mr, ci_qpn = qp_num q, ci_lid = pa_lid pa, ci_gid = g\<rparr>))"

definition zero_conn_info :: conn_info where
  "zero_conn_info = \<lparr>ci_addr = 0, ci_rkey = 0, ci_qpn = 0, ci_lid = 0, ci_gid = 0\<rparr>"

definition bench_buf_size :: "bench_config \<Rightarrow> nat" where
  "bench_buf_size cfg = to_size (bc_msg_size cfg * bc_qp_count cfg)"

definition bench_access :: "access set" where
  "bench_access = {IBV_ACCESS_LOCAL_WRITE, IBV_ACCESS_REMOTE_WRITE, IBV_ACCESS_REMOTE_READ}"

definition bench_init_ctx :: "bench_config \<Rightarrow> bench_ctx io" where
  "bench_init_ctx cfg =
     bnd (bench_open_device (bc_devname cfg)) (\<lambda>ctx.
     bnd (sysp (Vb (Ibv_alloc_pd ctx))) (\<lambda>pd. if pd = 0 then die else
     bnd (sysp (Os (Calloc 1 (bench_buf_size cfg)))) (\<lambda>buf. if buf = 0 then die else
     bnd (sys_mr (Vb (Ibv_reg_mr pd buf (bench_buf_size cfg) bench_access))) (\<lambda>mr. if mr_ptr mr = 0 then die else
     bnd (sysp (Vb (Ibv_create_cq ctx BENCH_CQ_DEPTH))) (\<lambda>cq. if cq = 0 then die else
     bnd (sysp (Os (Calloc (to_size (bc_qp_count cfg)) 8))) (\<lambda>arr. if arr = 0 then die else
     bnd (bench_make_qps cfg pd cq (nat (bc_qp_count cfg))) (\<lambda>qps.
     bnd (bench_local_info cfg ctx buf mr qps) (\<lambda>li.
     ret \<lparr>bx_ctx = ctx, bx_pd = pd, bx_mr = mr, bx_cq = cq, bx_qps = arr, bx_qp = qps, bx_buf = buf,
          bx_local = li, bx_remote = zero_conn_info\<rparr>))))))))"

section \<open>Connecting\<close>

definition bench_init_attr :: "int \<Rightarrow> qp_attr" where
  "bench_init_attr port = zero_qp_attr\<lparr>qa_qp_state := IBV_QPS_INIT, qa_pkey_index := 0,
     qa_port_num := to_u8 port, qa_access_flags := bench_access\<rparr>"

definition bench_modify_qp_to_init :: "ibv_qp \<Rightarrow> int \<Rightarrow> int io" where
  "bench_modify_qp_to_init qp port =
     sys (Vb (Ibv_modify_qp (qp_ptr qp) (bench_init_attr port)
       {IBV_QP_STATE, IBV_QP_PKEY_INDEX, IBV_QP_PORT, IBV_QP_ACCESS_FLAGS}))"

definition bench_rtr_attr :: "conn_info \<Rightarrow> int \<Rightarrow> int \<Rightarrow> qp_attr" where
  "bench_rtr_attr remote port gidx = zero_qp_attr\<lparr>qa_qp_state := IBV_QPS_RTR,
     qa_path_mtu := IBV_MTU_1024, qa_dest_qp_num := ci_qpn remote, qa_rq_psn := 0,
     qa_max_dest_rd_atomic := 1, qa_min_rnr_timer := 12,
     qa_ah_attr := zero_ah\<lparr>ah_dlid := ci_lid remote, ah_sl := 0, ah_src_path_bits := 0,
       ah_port_num := to_u8 port, ah_is_global := 1, ah_dgid := ci_gid remote, ah_hop_limit := 1,
       ah_sgid_index := to_u8 gidx\<rparr>\<rparr>"

definition bench_modify_qp_to_rtr :: "ibv_qp \<Rightarrow> conn_info \<Rightarrow> int \<Rightarrow> int \<Rightarrow> int io" where
  "bench_modify_qp_to_rtr qp remote port gidx =
     sys (Vb (Ibv_modify_qp (qp_ptr qp) (bench_rtr_attr remote port gidx)
       {IBV_QP_STATE, IBV_QP_AV, IBV_QP_PATH_MTU, IBV_QP_DEST_QPN, IBV_QP_RQ_PSN,
        IBV_QP_MAX_DEST_RD_ATOMIC, IBV_QP_MIN_RNR_TIMER}))"

definition bench_rts_attr :: qp_attr where
  "bench_rts_attr = zero_qp_attr\<lparr>qa_qp_state := IBV_QPS_RTS, qa_timeout := 14, qa_retry_cnt := 7,
     qa_rnr_retry := 7, qa_sq_psn := 0, qa_max_rd_atomic := 1\<rparr>"

text \<open>
  The source writes \<^verbatim>\<open>IBV_QP_MAX_RD_ATOMIC\<close>, a name libibverbs does not have; it is read as the one
  the other programs write, which this edge requires.
\<close>

definition IBV_QP_MAX_RD_ATOMIC :: qp_mask where "IBV_QP_MAX_RD_ATOMIC = IBV_QP_MAX_QP_RD_ATOMIC"

definition bench_modify_qp_to_rts :: "ibv_qp \<Rightarrow> int io" where
  "bench_modify_qp_to_rts qp =
     sys (Vb (Ibv_modify_qp (qp_ptr qp) bench_rts_attr
       {IBV_QP_STATE, IBV_QP_TIMEOUT, IBV_QP_RETRY_CNT, IBV_QP_RNR_RETRY, IBV_QP_SQ_PSN,
        IBV_QP_MAX_RD_ATOMIC}))"

interpretation bench: ladder IBV_QPT_RC "qp_ptr qp" "bench_init_attr port" "bench_rtr_attr remote port gidx"
    bench_rts_attr "bench_modify_qp_to_init qp port" "bench_modify_qp_to_rtr qp remote port gidx"
    "bench_modify_qp_to_rts qp" for qp port remote gidx
  by unfold_locales
    (auto simp: bench_modify_qp_to_init_def bench_modify_qp_to_rtr_def bench_modify_qp_to_rts_def edge_ok_def
      bench_init_attr_def bench_rtr_attr_def bench_rts_attr_def IBV_QP_MAX_RD_ATOMIC_def intro!: exI)

text \<open>The three transition functions end the program when their call fails, as \<open>climb\<close> does.\<close>

definition connect_qps :: "bench_config \<Rightarrow> bench_ctx \<Rightarrow> int \<Rightarrow> bench_ctx io" where
  "connect_qps cfg x sockfd =
     bnd (exchange_info sockfd (bx_local x)) (\<lambda>remote.
     seq (for_each (bx_qp x) (\<lambda>qp.
       climb (bench_modify_qp_to_init qp (bc_ib_port cfg))
         (bench_modify_qp_to_rtr qp remote (bc_ib_port cfg) (bc_gid_index cfg))
         (bench_modify_qp_to_rts qp))) (
     ret (x\<lparr>bx_remote := remote\<rparr>)))"

section \<open>The benchmark\<close>

definition bench_write :: "bench_config \<Rightarrow> bench_ctx \<Rightarrow> nat \<Rightarrow> int \<Rightarrow> bool \<Rightarrow> send_wr" where
  "bench_write cfg x q off signaled =
     \<lparr>sw_wr_id = of_nat q,
      sw_sg_list = [\<lparr>sge_addr = bx_buf x + word_of_int off, sge_length = to_u32 (bc_msg_size cfg),
        sge_lkey = mr_lkey (bx_mr x)\<rparr>],
      sw_opcode = IBV_WR_RDMA_WRITE,
      sw_send_flags = (if signaled then {IBV_SEND_SIGNALED} else {}) \<union>
        (if bc_msg_size cfg \<le> 64 then {IBV_SEND_INLINE} else {}),
      sw_remote_addr = ci_addr (bx_remote x) + word_of_int off, sw_rkey = ci_rkey (bx_remote x),
      sw_ah = 0, sw_remote_qpn = 0, sw_remote_qkey = 0\<rparr>"

definition post_rdma_write :: "bench_config \<Rightarrow> bench_ctx \<Rightarrow> nat \<Rightarrow> bool \<Rightarrow> int io" where
  "post_rdma_write cfg x q signaled =
     bnd (int_times (int q) (bc_msg_size cfg)) (\<lambda>off.
     if length (bx_qp x) \<le> q then undef
     else sys (Vb (Ibv_post_send (qp_ptr (bx_qp x ! q)) (bench_write cfg x q off signaled))))"

text \<open>\<open>fuel\<close> bounds the polls; the array of completions has 32 entries.\<close>

fun poll_completions :: "nat \<Rightarrow> ptr \<Rightarrow> int \<Rightarrow> int \<Rightarrow> int io" where
  "poll_completions fuel cq want got =
     (if want \<le> got then ret got
      else case fuel of
        0 \<Rightarrow> hang
      | Suc k \<Rightarrow>
          bnd (sys_wc (Vb (Ibv_poll_cq cq 32))) (\<lambda>(n, wc).
            if n < 0 then die
            else if 32 < n then undef
            else if list_ex (\<lambda>w. wc_status w \<noteq> IBV_WC_SUCCESS) wc then ret (- 1)
            else poll_completions k cq want (got + n)))"

declare poll_completions.simps [simp del]

definition drain :: "nat \<Rightarrow> bench_ctx \<Rightarrow> int \<Rightarrow> unit io" where
  "drain fuel x outstanding_cqes =
     (if 0 < outstanding_cqes
      then seq (poll_completions fuel (bx_cq x) outstanding_cqes 0) (ret ()) else ret ())"

text \<open>The rounds of a pair of nested loops, in order.\<close>

definition rounds :: "int \<Rightarrow> int \<Rightarrow> (nat \<times> nat) list" where
  "rounds iterations qp_count = List.product [0..<nat iterations] [0..<nat qp_count]"

definition warmup_round :: "bench_config \<Rightarrow> bench_ctx \<Rightarrow> nat \<times> nat \<Rightarrow> int \<Rightarrow> int io" where
  "warmup_round cfg x iq outstanding_cqes =
     (let signaled = (fst iq mod SIGNAL_INTERVAL = SIGNAL_INTERVAL - 1) in
     bnd (post_rdma_write cfg x (snd iq) signaled) (\<lambda>r. if r \<noteq> 0 then die else
     ret (if signaled then outstanding_cqes + 1 else outstanding_cqes)))"

text \<open>The measured loop changes \<^verbatim>\<open>signal_cnt\<close> and \<^verbatim>\<open>outstanding_cqes\<close>.\<close>

definition measure_round :: "nat \<Rightarrow> bench_config \<Rightarrow> bench_ctx \<Rightarrow> nat \<times> nat \<Rightarrow> nat \<times> int \<Rightarrow> (nat \<times> int) io" where
  "measure_round fuel cfg x iq s =
     (let signaled = (fst s mod SIGNAL_INTERVAL = SIGNAL_INTERVAL - 1) in
     bnd (post_rdma_write cfg x (snd iq) signaled) (\<lambda>r. if r \<noteq> 0 then die else
     let outstanding_cqes = (if signaled then snd s + 1 else snd s) in
     if bc_sq_depth cfg div (2 * int SIGNAL_INTERVAL) \<le> outstanding_cqes
     then seq (poll_completions fuel (bx_cq x) 1 0) (ret (fst s + 1, outstanding_cqes - 1))
     else ret (fst s + 1, outstanding_cqes)))"

definition run_benchmark :: "nat \<Rightarrow> bench_config \<Rightarrow> bench_ctx \<Rightarrow> bench_stats io" where
  "run_benchmark fuel cfg x =
     bnd (int_times (bc_iterations cfg) (bc_qp_count cfg)) (\<lambda>total_ops.
     bnd (thread (warmup_round cfg x) (rounds (bc_warmup cfg) (bc_qp_count cfg)) 0) (\<lambda>outstanding_cqes.
     seq (drain fuel x outstanding_cqes) (
     bnd get_time (\<lambda>start.
     bnd (thread (measure_round fuel cfg x) (rounds (bc_iterations cfg) (bc_qp_count cfg)) (0, 0)) (\<lambda>(signal_cnt, outstanding_cqes).
     seq (drain fuel x outstanding_cqes) (
     bnd get_time (\<lambda>end_time.
     ret \<lparr>bs_elapsed_ns = end_time - start, bs_ops = total_ops, bs_bits = total_ops * bc_msg_size cfg * 8,
          bs_iterations = bc_iterations cfg, bs_msg_size = bc_msg_size cfg\<rparr>)))))))"

section \<open>Cleanup and main\<close>

definition bench_cleanup :: "bench_ctx \<Rightarrow> unit io" where
  "bench_cleanup x =
     seq (if bx_qps x \<noteq> 0
          then seq (for_each (bx_qp x) (\<lambda>q. destroy_slot (qp_ptr q))) (sysv (Os (Free (bx_qps x))))
          else ret ()) (
     seq (unless_null (bx_cq x) (Ibv_destroy_cq (bx_cq x))) (
     seq (unless_null (mr_ptr (bx_mr x)) (Ibv_dereg_mr (mr_ptr (bx_mr x)))) (
     seq (unless_null (bx_pd x) (Ibv_dealloc_pd (bx_pd x))) (
     seq (if bx_buf x \<noteq> 0 then sysv (Os (Free (bx_buf x))) else ret ()) (
     unless_null (bx_ctx x) (Ibv_close_device (bx_ctx x)))))))"

definition bench_defaults :: bench_config where
  "bench_defaults = \<lparr>bc_devname = None, bc_server = None, bc_msg_size = BENCH_MSG_SIZE,
     bc_iterations = BENCH_ITERS, bc_warmup = BENCH_WARMUP, bc_qp_count = BENCH_QP_COUNT,
     bc_sq_depth = BENCH_SQ_DEPTH, bc_ib_port = BENCH_IB_PORT, bc_gid_index = BENCH_GID_INDEX,
     bc_tcp_port = BENCH_PORT, bc_is_server = 1\<rparr>"

text \<open>The option loop: the exit status of a usage message, or the configuration.\<close>

fun bench_options :: "bench_config \<Rightarrow> (char \<times> string) list \<Rightarrow> int + bench_config" where
  "bench_options cfg [] = Inr cfg"
| "bench_options cfg ((c, optarg) # opts) =
     (if c = CHR ''d'' then bench_options (cfg\<lparr>bc_devname := Some optarg\<rparr>) opts
      else if c = CHR ''s'' then bench_options (cfg\<lparr>bc_msg_size := atoi optarg\<rparr>) opts
      else if c = CHR ''n'' then bench_options (cfg\<lparr>bc_iterations := atoi optarg\<rparr>) opts
      else if c = CHR ''q'' then bench_options (cfg\<lparr>bc_qp_count := atoi optarg\<rparr>) opts
      else if c = CHR ''p'' then bench_options (cfg\<lparr>bc_tcp_port := atoi optarg\<rparr>) opts
      else if c = CHR ''w'' then bench_options (cfg\<lparr>bc_warmup := atoi optarg\<rparr>) opts
      else if c = CHR ''h'' then Inl 0
      else Inl 1)"

definition bench_role :: "bench_config \<Rightarrow> string list \<Rightarrow> bench_config" where
  "bench_role cfg rest = (case rest of [] \<Rightarrow> cfg | s # _ \<Rightarrow> cfg\<lparr>bc_server := Some s, bc_is_server := 0\<rparr>)"

text \<open>The byte in \<^verbatim>\<open>sync\<close> after a \<^verbatim>\<open>read\<close> whose result is not looked at.\<close>

definition read_sync :: "int \<Rightarrow> byte \<Rightarrow> byte io" where
  "read_sync sockfd sync =
     bnd (sys_bytes (Os (Read sockfd 1))) (\<lambda>(n, d). ret (case d of [] \<Rightarrow> sync | b # _ \<Rightarrow> b))"

text \<open>The client measures and then tells the server, which waits for that.\<close>

definition bench_work :: "nat \<Rightarrow> bench_config \<Rightarrow> bench_ctx \<Rightarrow> int \<Rightarrow> unit io" where
  "bench_work fuel cfg x sockfd =
     seq (sys (Os (Write sockfd (chars ''R'')))) (
     bnd (read_sync sockfd (of_char (CHR ''R''))) (\<lambda>sync.
     if bc_is_server cfg = 0
     then seq (run_benchmark fuel cfg x) (seq (sys (Os (Write sockfd [sync]))) (ret ()))
     else seq (read_sync sockfd sync) (ret ())))"

definition bench_session :: "nat \<Rightarrow> bench_config \<Rightarrow> int io" where
  "bench_session fuel cfg =
     bnd (bench_init_ctx cfg) (\<lambda>x.
     bnd (if bc_is_server cfg \<noteq> 0 then bench_listen (bc_tcp_port cfg)
          else case bc_server cfg of None \<Rightarrow> undef | Some host \<Rightarrow> bench_dial host (bc_tcp_port cfg)) (\<lambda>sockfd.
     bnd (connect_qps cfg x sockfd) (\<lambda>x.
     seq (bench_work fuel cfg x sockfd) (
     seq (sys (Os (Close sockfd))) (
     seq (bench_cleanup x) (
     ret 0))))))"

definition bench_main :: "nat \<Rightarrow> (char \<times> string) list \<Rightarrow> string list \<Rightarrow> int io" where
  "bench_main fuel opts rest =
     (case bench_options bench_defaults opts of
        Inl status \<Rightarrow> ret status
      | Inr cfg \<Rightarrow> bench_session fuel (bench_role cfg rest))"

section \<open>The program keeps to the contract\<close>

text \<open>Everything but the queue pairs, once \<open>bench_init_ctx\<close> is through.\<close>

definition bench_base :: "bench_config \<Rightarrow> bench_ctx \<Rightarrow> ledger" where
  "bench_base cfg x =
     [buf_res (bx_qps x) (to_size (bc_qp_count cfg) * 8), cq_res (bx_cq x) (bx_ctx x),
      mr_res (bx_mr x) (bx_pd x) (bx_buf x) (bench_buf_size cfg) bench_access,
      buf_res (bx_buf x) (bench_buf_size cfg), pd_res (bx_pd x) (bx_ctx x), ctx_res (bx_ctx x)]"

definition bench_ready :: "bench_config \<Rightarrow> bench_ctx \<Rightarrow> (ptr \<Rightarrow> qp_state) \<Rightarrow> ledger \<Rightarrow> bool" where
  "bench_ready cfg x st L \<longleftrightarrow>
     qps_on (bench_base cfg x) (map qp_ptr (bx_qp x)) st L \<and>
     length (bx_qp x) = nat (bc_qp_count cfg) \<and> 0 \<notin> set (map qp_ptr (bx_qp x)) \<and>
     0 \<notin> {bx_qps x, bx_cq x, mr_ptr (bx_mr x), bx_buf x, bx_pd x, bx_ctx x} \<and> bx_qps x \<noteq> bx_buf x \<and>
     unat (bx_buf x) + bench_buf_size cfg \<le> 2 ^ 64 \<and>
     \<not> clash (bx_qps x) (to_size (bc_qp_count cfg) * 8) (Block (bx_buf x) (bench_buf_size cfg))"

lemma keeps_int_times [obeys_rules]:
  "(- (2 ^ 31) \<le> a * b \<Longrightarrow> a * b < 2 ^ 31 \<Longrightarrow> Q (Ret (a * b)) L) \<Longrightarrow> Q UB L \<Longrightarrow> keeps v (int_times a b) L Q"
  by (simp add: int_times_def)

lemma keeps_bench_open_device [obeys_rules]:
  assumes "wf_ledger L" "\<And>c. c \<noteq> 0 \<Longrightarrow> \<not> live L (KCtx c) \<Longrightarrow> Q (Ret c) (ctx_res c # L)" "\<And>L'. Q (Exit 1) L'"
  shows "keeps v (bench_open_device name) L Q"
  using assms
  by (auto simp: bench_open_device_def die_def EXIT_FAILURE_def ledger_simps fresh_not_needed filter_fresh
      intro!: obeys_rules split: option.split)

lemma keeps_make_qps:
  assumes "qps_on B (ps @ replicate n 0) (\<lambda>q. IBV_QPS_RESET) L" "live B (KPd pd)" "live B (KCq cq)"
    and "\<And>qs L'. length qs = n \<Longrightarrow> 0 \<notin> set (map qp_ptr qs) \<Longrightarrow>
      qps_on B (ps @ map qp_ptr qs) (\<lambda>q. IBV_QPS_RESET) L' \<Longrightarrow> Q (Ret qs) L'"
    and "\<And>L'. Q (Exit 1) L'"
  shows "keeps v (bench_make_qps cfg pd cq n) L Q"
  using assms(1,4,5)
proof (induction n arbitrary: ps L Q)
  case (Suc n)
  note live = qps_on_below(1) [OF Suc.prems(1)]
  have "keeps v (bench_make_qps cfg pd cq n)
      (\<lparr>res_key = KQp (qp_ptr q), res_needs = [KPd pd, KCq cq, KCq cq], res_info = Queue IBV_QPT_RC IBV_QPS_RESET\<rparr> # L)
      (after (\<lambda>qs L'. Q (Ret (q # qs)) L') Q)" if "qp_ptr q \<noteq> 0" "\<not> live L (KQp (qp_ptr q))" for q
  proof (rule Suc.IH [where ps = "ps @ [qp_ptr q]"])
    have "qps_on B ((ps @ replicate (Suc n) 0)[length ps := qp_ptr q]) ((\<lambda>q. IBV_QPS_RESET)(qp_ptr q := IBV_QPS_RESET))
      (\<lparr>res_key = KQp (qp_ptr q), res_needs = [KPd pd, KCq cq, KCq cq], res_info = Queue IBV_QPT_RC IBV_QPS_RESET\<rparr> # L)"
      by (rule qps_on_create [OF Suc.prems(1)]) (use that assms(2,3) in \<open>auto simp: nth_append\<close>)
    then show "qps_on B ((ps @ [qp_ptr q]) @ replicate n 0) (\<lambda>q. IBV_QPS_RESET)
      (\<lparr>res_key = KQp (qp_ptr q), res_needs = [KPd pd, KCq cq, KCq cq], res_info = Queue IBV_QPT_RC IBV_QPS_RESET\<rparr> # L)"
      by (simp add: fun_upd_idem)
  qed (use that Suc.prems(2) [of "q # _"] Suc.prems(3) in auto)
  then show ?case
    using live assms(2,3) Suc.prems(3)
    by (auto simp: die_def EXIT_FAILURE_def bench_qp_attr_def intro!: obeys_rules)
qed simp

lemma keeps_local_info:
  assumes "live L (KCtx ctx)" "\<And>li. Q (Ret li) L" "Q UB L" "Q (Exit 1) L"
  shows "keeps v (bench_local_info cfg ctx buf mr qps) L Q"
  using assms by (auto simp: bench_local_info_def die_def EXIT_FAILURE_def intro!: obeys_rules split: list.split)

lemma keeps_init_ctx:
  assumes ready: "\<And>x L. bench_ready cfg x (\<lambda>q. IBV_QPS_RESET) L \<Longrightarrow> Q (Ret x) L"
    and bad: "\<And>L. Q (Exit 1) L" "\<And>L. Q UB L"
  shows "keeps v (bench_init_ctx cfg) [] Q"
proof -
  have qps: "keeps v (bench_make_qps cfg pd cq (nat (bc_qp_count cfg)))
      [buf_res arr (to_size (bc_qp_count cfg) * 8), cq_res cq ctx, mr_res mr pd buf (bench_buf_size cfg) bench_access,
       buf_res buf (bench_buf_size cfg), pd_res pd ctx, ctx_res ctx]
      (after (\<lambda>qps L. keeps v (bnd (bench_local_info cfg ctx buf mr qps) (\<lambda>li.
         ret \<lparr>bx_ctx = ctx, bx_pd = pd, bx_mr = mr, bx_cq = cq, bx_qps = arr, bx_qp = qps, bx_buf = buf,
          bx_local = li, bx_remote = zero_conn_info\<rparr>)) L Q) Q)"
    if nz: "ctx \<noteq> 0" "pd \<noteq> 0" "buf \<noteq> 0" "mr_ptr mr \<noteq> 0" "cq \<noteq> 0" "arr \<noteq> 0" "arr \<noteq> buf"
      "unat buf + bench_buf_size cfg \<le> 2 ^ 64"
      "\<not> clash arr (to_size (bc_qp_count cfg) * 8) (Block buf (bench_buf_size cfg))"
    for ctx pd buf mr cq arr
  proof -
    let ?B = "[buf_res arr (to_size (bc_qp_count cfg) * 8), cq_res cq ctx, mr_res mr pd buf (bench_buf_size cfg) bench_access,
       buf_res buf (bench_buf_size cfg), pd_res pd ctx, ctx_res ctx]"
    have on: "qps_on ?B ([] @ replicate (nat (bc_qp_count cfg)) 0) (\<lambda>q. IBV_QPS_RESET) ?B"
      by (rule qps_on_none) (auto simp: ledger_simps)
    show ?thesis
    proof (rule keeps_make_qps [OF on])
      fix qs :: "ibv_qp list" and L
      assume q: "length qs = nat (bc_qp_count cfg)" "0 \<notin> set (map qp_ptr qs)" "qps_on ?B ([] @ map qp_ptr qs) (\<lambda>q. IBV_QPS_RESET) L"
      have "live L (KCtx ctx)" by (rule qps_on_below(1) [OF q(3)]) (simp add: ledger_simps)
      moreover have "bench_ready cfg \<lparr>bx_ctx = ctx, bx_pd = pd, bx_mr = mr, bx_cq = cq, bx_qps = arr, bx_qp = qs,
          bx_buf = buf, bx_local = li, bx_remote = zero_conn_info\<rparr> (\<lambda>q. IBV_QPS_RESET) L" for li
        using q nz by (simp add: bench_ready_def bench_base_def)
      ultimately show "after (\<lambda>qps L. keeps v (bnd (bench_local_info cfg ctx buf mr qps) (\<lambda>li.
         ret \<lparr>bx_ctx = ctx, bx_pd = pd, bx_mr = mr, bx_cq = cq, bx_qps = arr, bx_qp = qps, bx_buf = buf,
          bx_local = li, bx_remote = zero_conn_info\<rparr>)) L Q) Q (Ret qs) L"
        using ready bad by (auto intro!: obeys_bnd keeps_local_info)
    qed (simp_all add: ledger_simps bad)
  qed
  show ?thesis
    unfolding bench_init_ctx_def die_def EXIT_FAILURE_def
    using bad
    by (auto intro!: obeys_bnd keeps_bench_open_device obeys_sysp obeys_sys_mr obeys_if qps simp: ledger_simps)
qed

text \<open>Connecting all of them.\<close>

lemma keeps_connect_all:
  assumes "qps_on B ps st L" "set (map qp_ptr qs) \<subseteq> set ps" "0 \<notin> set (map qp_ptr qs)" "distinct (map qp_ptr qs)"
    and "\<forall>q \<in> set (map qp_ptr qs). st q = IBV_QPS_RESET"
    and "\<And>L'. qps_on B ps (\<lambda>q. if q \<in> set (map qp_ptr qs) then IBV_QPS_RTS else st q) L' \<Longrightarrow> Q (Ret ()) (fd_res fd # L')"
    and "\<And>L'. Q (Exit 1) L'"
  shows "keeps v (for_each qs (\<lambda>qp. climb (bench_modify_qp_to_init qp port)
         (bench_modify_qp_to_rtr qp remote port gidx) (bench_modify_qp_to_rts qp))) (fd_res fd # L) Q"
  using assms(1-6)
proof (induction qs arbitrary: st L)
  case (Cons q qs)
  let ?st = "st(qp_ptr q := IBV_QPS_RTS)"
  have q: "qp_ptr q \<in> set ps" "qp_ptr q \<noteq> 0" using Cons.prems(2,3) by auto
  have on: "qps_on B ps ?st (set_qp_state (qp_ptr q) IBV_QPS_RTS L)"
    by (rule qps_on_modify [OF Cons.prems(1) q])
  have "(\<lambda>q'. if q' \<in> set (map qp_ptr qs) then IBV_QPS_RTS else ?st q') =
      (\<lambda>q'. if q' \<in> set (map qp_ptr (q # qs)) then IBV_QPS_RTS else st q')"
    by (auto simp: fun_eq_iff)
  with Cons.prems(6) have fin: "\<And>L'. qps_on B ps (\<lambda>q'. if q' \<in> set (map qp_ptr qs) then IBV_QPS_RTS else ?st q') L' \<Longrightarrow>
      Q (Ret ()) (fd_res fd # L')" by simp
  have rest: "keeps v (for_each qs (\<lambda>qp. climb (bench_modify_qp_to_init qp port)
         (bench_modify_qp_to_rtr qp remote port gidx) (bench_modify_qp_to_rts qp)))
      (fd_res fd # set_qp_state (qp_ptr q) IBV_QPS_RTS L) Q"
  proof (rule Cons.IH [OF on _ _ _ _ fin])
    show "\<forall>q' \<in> set (map qp_ptr qs). ?st q' = IBV_QPS_RESET"
      using Cons.prems(4,5) by (auto simp: rev_image_eqI)
  qed (use Cons.prems in auto)
  have "qp_entry (fd_res fd # L) (qp_ptr q) = Some (IBV_QPT_RC, IBV_QPS_RESET)"
    using qps_on_entry [OF Cons.prems(1) q] Cons.prems(5) by (simp add: ledger_simps)
  then show ?case
    using rest assms(7) by (auto simp: ledger_simps intro!: obeys_seq bench.keeps_climb)
qed (use assms(1) in \<open>simp cong: if_cong\<close>)

text \<open>The side channel and the exchange.\<close>

lemma keeps_bench_listen [obeys_rules]:
  assumes "wf_ledger L" "\<And>L'. Q (Exit 1) L'" "\<And>fd. \<not> live L (KFd fd) \<Longrightarrow> Q (Ret fd) (fd_res fd # L)"
  shows "keeps v (bench_listen port) L Q"
  using assms
  by (auto simp: bench_listen_def die_def EXIT_FAILURE_def ledger_simps fresh_not_needed filter_fresh intro!: obeys_rules)

lemma keeps_bench_dial [obeys_rules]:
  assumes "\<And>L'. Q (Exit 1) L'" "\<And>fd. \<not> live L (KFd fd) \<Longrightarrow> Q (Ret fd) (fd_res fd # L)"
  shows "keeps v (bench_dial host port) L Q"
  using assms
  by (auto simp: bench_dial_def bench_resolve_def die_def EXIT_FAILURE_def ledger_simps intro!: obeys_rules)

lemma keeps_exchange_info [obeys_rules]:
  assumes "live L (KFd fd)" "\<And>L'. Q (Exit 1) L'" "\<And>y. Q (Ret y) L"
  shows "keeps v (exchange_info fd x) L Q"
  using assms by (auto simp: exchange_info_def die_def EXIT_FAILURE_def intro!: obeys_rules)

text \<open>All queue pairs ready to send.\<close>

abbreviation all_rts :: "bench_ctx \<Rightarrow> (ptr \<Rightarrow> qp_state) \<Rightarrow> bool" where
  "all_rts x st \<equiv> \<forall>q \<in> set (map qp_ptr (bx_qp x)). st q = IBV_QPS_RTS"

lemma keeps_connect_qps:
  assumes "bench_ready cfg x (\<lambda>q. IBV_QPS_RESET) L" "\<And>L'. Q (Exit 1) L'"
    and "\<And>st L' r. bench_ready cfg (x\<lparr>bx_remote := r\<rparr>) st L' \<Longrightarrow> all_rts (x\<lparr>bx_remote := r\<rparr>) st \<Longrightarrow>
      Q (Ret (x\<lparr>bx_remote := r\<rparr>)) (fd_res fd # L')"
  shows "keeps v (connect_qps cfg x fd) (fd_res fd # L) Q"
proof -
  let ?ps = "map qp_ptr (bx_qp x)"
  from assms(1) have on: "qps_on (bench_base cfg x) ?ps (\<lambda>q. IBV_QPS_RESET) L" and nz: "0 \<notin> set ?ps"
    by (auto simp: bench_ready_def)
  have "filter (\<lambda>q. q \<noteq> 0) ?ps = ?ps" using nz by (intro filter_True) auto
  then have d: "distinct ?ps" using on by (simp add: qps_on_def)
  have up: "bench_ready cfg (x\<lparr>bx_remote := r\<rparr>) (\<lambda>q. if q \<in> set ?ps then IBV_QPS_RTS else IBV_QPS_RESET) L'"
    if "qps_on (bench_base cfg x) ?ps (\<lambda>q. if q \<in> set ?ps then IBV_QPS_RTS else IBV_QPS_RESET) L'" for r L'
    using assms(1) that by (simp add: bench_ready_def bench_base_def)
  have walk: "keeps v (for_each (bx_qp x) (\<lambda>qp. climb (bench_modify_qp_to_init qp (bc_ib_port cfg))
         (bench_modify_qp_to_rtr qp r (bc_ib_port cfg) (bc_gid_index cfg)) (bench_modify_qp_to_rts qp)))
      (fd_res fd # L) (after (\<lambda>_ L'. Q (Ret (x\<lparr>bx_remote := r\<rparr>)) L') Q)" for r
  proof (rule keeps_connect_all [OF on subset_refl nz d])
    fix L' assume "qps_on (bench_base cfg x) ?ps (\<lambda>q. if q \<in> set ?ps then IBV_QPS_RTS else IBV_QPS_RESET) L'"
    from assms(3) [OF up [OF this]] show "after (\<lambda>_ L'. Q (Ret (x\<lparr>bx_remote := r\<rparr>)) L') Q (Ret ()) (fd_res fd # L')"
      by simp
  qed (use assms(2) in auto)
  show ?thesis
    unfolding connect_qps_def
    by (rule obeys_bnd, rule keeps_exchange_info) (use walk assms(2) in \<open>auto intro!: obeys_seq simp: ledger_simps\<close>)
qed

text \<open>The slice of every queue pair lies in the buffer.\<close>

lemma slice_within:
  assumes "0 \<le> bc_msg_size cfg" "bc_msg_size cfg < 2 ^ 31" "bc_qp_count cfg < 2 ^ 31" "q < nat (bc_qp_count cfg)"
    and sz: "unat b + bench_buf_size cfg \<le> 2 ^ 64"
  shows "within b (bench_buf_size cfg) (b + word_of_int (int q * bc_msg_size cfg)) (unat (to_u32 (bc_msg_size cfg)))"
proof -
  let ?m = "nat (bc_msg_size cfg)"
  have c: "0 \<le> bc_qp_count cfg" using assms(4) by linarith
  have "bc_msg_size cfg * bc_qp_count cfg \<le> 2 ^ 31 * 2 ^ 31"
    by (rule mult_mono) (use assms(1-3) c in linarith)+
  also have "(2 ^ 31 * 2 ^ 31 :: int) < 2 ^ 64" by simp
  finally have lt: "bc_msg_size cfg * bc_qp_count cfg < 2 ^ 64" .
  have size: "bench_buf_size cfg = ?m * nat (bc_qp_count cfg)"
    unfolding bench_buf_size_def using assms(1) c lt
    by (subst to_size_nonneg) (simp_all only: mult_nonneg_nonneg nat_mult_distrib)
  have off: "word_of_int (int q * bc_msg_size cfg) = (of_nat (q * ?m) :: u64)"
  proof -
    have "int q * bc_msg_size cfg = int (q * ?m)" using assms(1) by (simp only: of_nat_mult nat_0_le)
    then show ?thesis by (simp only: of_int_of_nat_eq)
  qed
  have u: "unat (to_u32 (bc_msg_size cfg)) = ?m"
    unfolding unat_to_u32 using assms(1,2) by (subst mod_pos_pos_trivial) auto
  show ?thesis
  proof (cases "?m = 0")
    case False
    have "q * ?m + ?m = Suc q * ?m" by simp
    also have "\<dots> \<le> bench_buf_size cfg"
      unfolding size using assms(4) by (subst mult.commute) (intro mult_le_mono2; simp)
    finally show ?thesis using False unfolding off u by (intro within_offset [OF sz]) auto
  next
    case True
    with assms(1) have "bc_msg_size cfg = 0" by simp
    then show ?thesis by (simp add: within_def to_u32_def)
  qed
qed

text \<open>Posting and polling leave the ledger as it is.\<close>

lemma keeps_post_write:
  assumes "bench_ready cfg x st L" "all_rts x st" "0 \<le> bc_msg_size cfg" "bc_msg_size cfg < 2 ^ 31" "bc_qp_count cfg < 2 ^ 31"
    and "q < nat (bc_qp_count cfg)" "\<And>r. Q (Ret r) (fd_res fd # L)" "\<And>L'. Q UB L'"
  shows "keeps v (post_rdma_write cfg x q signaled) (fd_res fd # L) Q"
proof -
  let ?g = "\<lparr>sge_addr = bx_buf x + word_of_int (int q * bc_msg_size cfg), sge_length = to_u32 (bc_msg_size cfg),
    sge_lkey = mr_lkey (bx_mr x)\<rparr>"
  from assms(1) have on: "qps_on (bench_base cfg x) (map qp_ptr (bx_qp x)) st L"
    and len: "length (bx_qp x) = nat (bc_qp_count cfg)" and nz: "0 \<notin> set (map qp_ptr (bx_qp x))"
    and sz: "unat (bx_buf x) + bench_buf_size cfg \<le> 2 ^ 64"
    by (auto simp: bench_ready_def)
  have i: "bx_qp x ! q \<in> set (bx_qp x)" using assms(6) len by simp
  then have "qp_ptr (bx_qp x ! q) \<noteq> 0" using nz by (metis imageI set_map)
  with i have e: "qp_entry (fd_res fd # L) (qp_ptr (bx_qp x ! q)) = Some (IBV_QPT_RC, IBV_QPS_RTS)"
    using qps_on_entry [OF on, of "qp_ptr (bx_qp x ! q)"] assms(2) by (simp add: ledger_simps)
  have "sge_ok (bench_base cfg x) {} ?g"
    using slice_within [OF assms(3-6) sz] by (simp add: bench_base_def ledger_simps)
  from qps_on_below(3) [OF on this] have "sge_ok (fd_res fd # L) {} ?g"
    by (simp add: ledger_simps)
  with e show ?thesis
    unfolding post_rdma_write_def
    using assms(7,8) by (auto simp: post_send_ok_def bench_write_def intro!: obeys_rules)
qed

lemma keeps_poll_completions [obeys_rules]:
  assumes "live L (KCq cq)" "\<And>r. Q (Ret r) L" "Q (Exit 1) L" "Q UB L" "Q Hang L"
  shows "keeps v (poll_completions fuel cq want got) L Q"
proof (induction fuel arbitrary: got)
  case (Suc fuel)
  then show ?case using assms
    by (subst poll_completions.simps) (auto simp: die_def EXIT_FAILURE_def intro!: obeys_rules)
qed (subst poll_completions.simps, simp add: assms)

lemma rounds_bound: "(i, q) \<in> set (rounds n k) \<Longrightarrow> q < nat k"
  by (auto simp: rounds_def)

lemma keeps_run_benchmark:
  assumes "bench_ready cfg x st L" "all_rts x st" "0 \<le> bc_msg_size cfg" "bc_msg_size cfg < 2 ^ 31" "bc_qp_count cfg < 2 ^ 31"
    and "\<And>r. Q (Ret r) (fd_res fd # L)" "\<And>L'. Q UB L'" "\<And>L'. Q (Exit 1) L'" "\<And>L'. Q Hang L'"
  shows "keeps v (run_benchmark fuel cfg x) (fd_res fd # L) Q"
proof -
  have cq: "live (fd_res fd # L) (KCq (bx_cq x))"
    using assms(1) qps_on_below(1) [of "bench_base cfg x" _ st L] by (auto simp: bench_ready_def bench_base_def ledger_simps)
  note post = keeps_post_write [OF assms(1-5)]
  have warm: "keeps v (thread (warmup_round cfg x) (rounds n (bc_qp_count cfg)) s) (fd_res fd # L) Q'"
    if "\<And>s. Q' (Ret s) (fd_res fd # L)" "\<And>L'. Q' UB L'" "\<And>L'. Q' (Exit 1) L'" for n s Q'
    using that(2,3)
    by (intro obeys_thread_same that(1))
      (auto simp: warmup_round_def Let_def die_def EXIT_FAILURE_def intro!: obeys_bnd post dest!: rounds_bound)
  have measure: "keeps v (thread (measure_round fuel cfg x) (rounds n (bc_qp_count cfg)) s) (fd_res fd # L) Q'"
    if "\<And>s. Q' (Ret s) (fd_res fd # L)" "\<And>L'. Q' UB L'" "\<And>L'. Q' (Exit 1) L'" "\<And>L'. Q' Hang L'" for n s Q'
    using that(2-4)
    by (intro obeys_thread_same that(1))
      (auto simp: measure_round_def Let_def die_def EXIT_FAILURE_def intro!: obeys_bnd obeys_seq obeys_if post
        keeps_poll_completions cq dest!: rounds_bound)
  have drain: "keeps v (drain fuel x n) (fd_res fd # L) Q'"
    if "Q' (Ret ()) (fd_res fd # L)" "\<And>L'. Q' UB L'" "\<And>L'. Q' (Exit 1) L'" "\<And>L'. Q' Hang L'" for n Q'
    using that by (auto simp: drain_def intro!: obeys_seq keeps_poll_completions cq)
  show ?thesis
    unfolding run_benchmark_def get_time_def
    using assms(6-9)
    by (auto intro!: obeys_bnd obeys_seq keeps_int_times warm drain measure obeys_sys_time)
qed

lemma keeps_destroy_all:
  assumes "qps_on B (map qp_ptr qs) st L" "Q (Ret ()) B"
  shows "keeps v (for_each qs (\<lambda>q. destroy_slot (qp_ptr q))) L Q"
  using assms(1)
proof (induction qs arbitrary: L)
  case Nil
  then show ?case using assms(2) qps_on_all_null [of B "[]" st L] by simp
next
  case (Cons q qs)
  then show ?case by (auto intro!: obeys_seq keeps_destroy_slot)
qed

lemma keeps_bench_cleanup:
  assumes "bench_ready cfg x st L" "Q (Ret ()) []"
  shows "keeps v (bench_cleanup x) L Q"
proof -
  from assms show ?thesis
    unfolding bench_cleanup_def bench_ready_def
    by (auto simp: unless_null_def bench_base_def ledger_simps intro!: keeps_destroy_all obeys_rules)
qed


text \<open>The socket is the only descriptor, whatever the queue pairs went through.\<close>

lemma bench_ready_no_fd:
  assumes "bench_ready cfg x st L"
  shows "wf_ledger L" "\<not> live L (KFd fd)"
proof -
  from assms have on: "qps_on (bench_base cfg x) (map qp_ptr (bx_qp x)) st L"
    by (simp add: bench_ready_def)
  then show "wf_ledger L" by (rule qps_on_below(4))
  from on show "\<not> live L (KFd fd)"
    unfolding qps_on_def bench_base_def live_def by fastforce
qed

lemma bench_ready_live_fd: "bench_ready cfg x st L \<Longrightarrow> filter (\<lambda>r. res_key r \<noteq> KFd fd) L = L"
  using bench_ready_no_fd by (simp add: filter_fresh)

lemma keeps_read_sync [obeys_rules]:
  "live L (KFd fd) \<Longrightarrow> (\<And>b. Q (Ret b) L) \<Longrightarrow> keeps v (read_sync fd sync) L Q"
  by (auto simp: read_sync_def intro!: obeys_rules)

lemma keeps_bench_work:
  assumes "bench_ready cfg x st L" "all_rts x st" "0 \<le> bc_msg_size cfg" "bc_msg_size cfg < 2 ^ 31" "bc_qp_count cfg < 2 ^ 31"
    and "Q (Ret ()) (fd_res fd # L)" "\<And>L'. Q UB L'" "\<And>L'. Q (Exit 1) L'" "\<And>L'. Q Hang L'"
  shows "keeps v (bench_work fuel cfg x fd) (fd_res fd # L) Q"
  unfolding bench_work_def using assms(6-9)
  by (auto simp: ledger_simps intro!: obeys_seq obeys_bnd obeys_sys keeps_read_sync keeps_run_benchmark [OF assms(1-5)])

lemma keeps_bench_session:
  assumes "0 \<le> bc_msg_size cfg" "bc_msg_size cfg < 2 ^ 31" "bc_qp_count cfg < 2 ^ 31"
  shows "keeps v (bench_session fuel cfg) [] (\<lambda>r L. (\<exists>n. r = Ret n) \<longrightarrow> L = [])"
proof -
  let ?Q = "\<lambda>r L :: ledger. (\<exists>n :: int. r = Ret n) \<longrightarrow> L = []"
  have finish: "keeps v (seq (sys (Os (Close fd))) (seq (bench_cleanup x) (ret 0))) (fd_res fd # L) ?Q"
    if "bench_ready cfg x st L" for x st L fd
    using bench_ready_no_fd [OF that] that
    by (auto simp: ledger_simps fresh_not_needed bench_ready_live_fd intro!: obeys_seq obeys_sys keeps_bench_cleanup)
  have work: "keeps v (seq (bench_work fuel cfg x fd) (seq (sys (Os (Close fd))) (seq (bench_cleanup x) (ret 0))))
      (fd_res fd # L) ?Q"
    if "bench_ready cfg x st L" "all_rts x st" for x st L fd
    by (rule obeys_seq, rule keeps_bench_work [OF that assms]) (use finish [OF that(1)] in auto)
  have connect: "keeps v (bnd (connect_qps cfg x fd) (\<lambda>x.
      seq (bench_work fuel cfg x fd) (seq (sys (Os (Close fd))) (seq (bench_cleanup x) (ret 0))))) (fd_res fd # L) ?Q"
    if "bench_ready cfg x (\<lambda>q. IBV_QPS_RESET) L" for x L fd
    by (rule obeys_bnd, rule keeps_connect_qps [OF that]) (use work in simp_all)
  show ?thesis
    unfolding bench_session_def
    by (auto simp: ledger_simps intro!: obeys_bnd keeps_init_ctx keeps_bench_listen keeps_bench_dial
        connect bench_ready_no_fd split: option.split)
qed

text \<open>What the option loop lets through.\<close>

lemma bench_options_range:
  assumes "bench_options c opts = Inr cfg" "bc_msg_size c < 2 ^ 31" "bc_qp_count c < 2 ^ 31"
  shows "bc_msg_size cfg < 2 ^ 31" "bc_qp_count cfg < 2 ^ 31"
proof -
  have at: "atoi t < 2 ^ 31" for t using atoi_range by blast
  from assms have "bc_msg_size cfg < 2 ^ 31 \<and> bc_qp_count cfg < 2 ^ 31"
  proof (induction c opts rule: bench_options.induct)
    case (2 cfg' ch t opts)
    then show ?case using at [of t] by (auto split: if_splits)
  qed simp
  then show "bc_msg_size cfg < 2 ^ 31" "bc_qp_count cfg < 2 ^ 31" by blast+
qed

lemma bench_role_fields [simp]:
  "bc_msg_size (bench_role cfg rest) = bc_msg_size cfg" "bc_qp_count (bench_role cfg rest) = bc_qp_count cfg"
  "bc_warmup (bench_role cfg rest) = bc_warmup cfg"
  by (simp_all add: bench_role_def split: list.split)

text \<open>C11: No run of \<^verbatim>\<open>rdma_bench\<close> breaks the contract when the message size is not negative: every write is
  posted on a queue pair that is ready to send, from within the registered buffer, however many queue
  pairs, rounds and options there are; and a run that returns leaves nothing open.
\<close>

theorem bench_main_contract:
  assumes "\<And>cfg. bench_options bench_defaults opts = Inr cfg \<Longrightarrow> 0 \<le> bc_msg_size cfg"
    and "bench_main fuel opts rest v [] = (r, es)"
  shows "clean es \<and> ((\<exists>n. r = Ret n) \<longrightarrow> leftover es = [])"
proof -
  have "keeps v (bench_main fuel opts rest) [] (\<lambda>r L. (\<exists>n. r = Ret n) \<longrightarrow> L = [])"
    unfolding bench_main_def
    using assms(1) bench_options_range [of bench_defaults opts]
    by (auto simp: bench_defaults_def BENCH_MSG_SIZE_def BENCH_QP_COUNT_def split: sum.split
        intro!: keeps_bench_session)
  with assms(2) show ?thesis
    using keeps_clean leftover_either by blast+
qed

section \<open>The two sides\<close>

interpretation conn_wire: wire conn_info_bytes conn_info_of 40
  by unfold_locales
    (simp_all add: conn_info_bytes_def conn_info_of_def u16_at_def u32_at_def u64_at_def gid_at_def)

text \<open>A successful exchange sent the own record and read the other.\<close>

lemma exchange_info_transfers:
  assumes "exchange_info fd x v h = (Ret y, es)"
  shows "sent fd es = conn_info_bytes (env_order v) x" "y = conn_info_of (env_order v) (rcvd fd es)"
    "length (rcvd fd es) = 40" "modified es = []"
  using assms
  by (auto simp: exchange_info_def bnd_get_order bnd_eq_Ret sys_def sys_bytes_def die_def conn_wire.length_img
      split: if_splits prod.splits)

definition bench_ladder :: "bench_config \<Rightarrow> conn_info \<Rightarrow> ibv_qp \<Rightarrow> (ptr \<times> qp_attr \<times> resp) list" where
  "bench_ladder cfg remote q =
     [(qp_ptr q, bench_init_attr (bc_ib_port cfg), RInt 0),
      (qp_ptr q, bench_rtr_attr remote (bc_ib_port cfg) (bc_gid_index cfg), RInt 0),
      (qp_ptr q, bench_rts_attr, RInt 0)]"

lemma connect_qps_parts:
  assumes "connect_qps cfg x fd v h = (Ret y, es)"
  obtains e1 e2 remote where "es = e1 @ e2" "exchange_info fd (bx_local x) v h = (Ret remote, e1)"
    "y = x\<lparr>bx_remote := remote\<rparr>" "modified es = concat (map (bench_ladder cfg remote) (bx_qp x))"
    "sent fd e2 = []" "rcvd fd e2 = []"
proof -
  let ?f = "\<lambda>remote qp. climb (bench_modify_qp_to_init qp (bc_ib_port cfg))
         (bench_modify_qp_to_rtr qp remote (bc_ib_port cfg) (bc_gid_index cfg)) (bench_modify_qp_to_rts qp)"
  from assms obtain remote e1 e2 where 1: "exchange_info fd (bx_local x) v h = (Ret remote, e1)"
    "for_each (bx_qp x) (?f remote) v (h @ e1) = (Ret (), e2)" "y = x\<lparr>bx_remote := remote\<rparr>" "es = e1 @ e2"
    by (auto simp: connect_qps_def bnd_eq_Ret seq_eq_Ret)
  have m: "modified e2 = concat (map (bench_ladder cfg remote) (bx_qp x))"
    by (rule for_each_trace [OF _ _ _ 1(2)]) (auto simp: bench_ladder_def dest!: bench.climb_modified)
  have quiet: "only (\<lambda>e. sent_by fd e = [] \<and> rcvd_by fd e = []) (sys (Vb (Ibv_modify_qp q a m)))" for q a m
    by (simp add: only_def sys_def)
  have "only (\<lambda>e. sent_by fd e = [] \<and> rcvd_by fd e = []) (for_each (bx_qp x) (?f remote))"
    by (auto simp: climb_def bench_modify_qp_to_init_def bench_modify_qp_to_rtr_def bench_modify_qp_to_rts_def
        CHECK_RC_def intro!: only_rules quiet)
  from onlyD [OF this 1(2)] have "sent fd e2 = []" "rcvd fd e2 = []"
    by (auto simp: sent_def rcvd_def list_all_iff)
  with 1 m show ?thesis by (intro that) (auto simp: exchange_info_transfers(4))
qed

lemma bench_hears:
  assumes A: "connect_qps cfg x fd v h = (Ret y, es)" and B: "connect_qps cfg' x' fd' v' h' = (Ret y', es')"
    and "env_order v = env_order v'" "rcvd fd h = sent fd' h'" "delivers fd' (h' @ es') fd (h @ es)"
  shows "bx_remote y = bx_local x'" "modified es = concat (map (bench_ladder cfg (bx_local x')) (bx_qp x))"
proof -
  obtain e1 e2 remote where a: "es = e1 @ e2" "exchange_info fd (bx_local x) v h = (Ret remote, e1)"
    "y = x\<lparr>bx_remote := remote\<rparr>" "modified es = concat (map (bench_ladder cfg remote) (bx_qp x))"
    using A by (rule connect_qps_parts)
  obtain f1 f2 remote' where b: "es' = f1 @ f2" "exchange_info fd' (bx_local x') v' h' = (Ret remote', f1)"
    using B by (rule connect_qps_parts)
  have "remote = bx_local x'"
    using exchange_info_transfers(2,3) [OF a(2)] exchange_info_transfers(1) [OF b(2), folded assms(3)]
      assms(4,5) [unfolded a(1) b(1)]
    by (rule conn_wire.meet(1))
  with a show "bx_remote y = bx_local x'" "modified es = concat (map (bench_ladder cfg (bx_local x')) (bx_qp x))"
    by simp_all
qed

text \<open>C21: When both sides connect over one TCP connection, each knows what the other announced, and every
  queue pair of each side climbs to the ready state with that one queue pair of the peer as its
  destination: side \<open>A\<close> writes into the buffer of side \<open>B\<close> under its key, but all its queue pairs are
  connected to the first queue pair of \<open>B\<close>.
\<close>

theorem bench_peers_meet:
  assumes "connect_qps cfg x fd v h = (Ret y, es)" and "connect_qps cfg' x' fd' v' h' = (Ret y', es')"
    and "env_order v = env_order v'"
    and "rcvd fd h = sent fd' h'" "rcvd fd' h' = sent fd h"
    and "delivers fd' (h' @ es') fd (h @ es)" "delivers fd (h @ es) fd' (h' @ es')"
  shows "bx_remote y = bx_local x' \<and> bx_remote y' = bx_local x \<and>
    modified es = concat (map (bench_ladder cfg (bx_local x')) (bx_qp x)) \<and>
    modified es' = concat (map (bench_ladder cfg' (bx_local x)) (bx_qp x')) \<and>
    (\<forall>q a r. (q, a, r) \<in> set (modified es) \<and> qa_qp_state a = IBV_QPS_RTR \<longrightarrow>
       qa_dest_qp_num a = ci_qpn (bx_local x') \<and> ah_dgid (qa_ah_attr a) = ci_gid (bx_local x') \<and>
       ah_dlid (qa_ah_attr a) = ci_lid (bx_local x'))"
proof -
  note A = bench_hears [OF assms(1,2,3,4,6)] and B = bench_hears [OF assms(2,1) assms(3) [symmetric] assms(5,7)]
  show ?thesis
    by (auto simp: A B bench_ladder_def bench_init_attr_def bench_rtr_attr_def bench_rts_attr_def)
qed

section \<open>What is posted\<close>

text \<open>The work requests a run posted and had accepted, and the completions its polls brought.\<close>

fun posted_by :: "event \<Rightarrow> (ptr \<times> send_wr) list" where
  "posted_by (Vb (Ibv_post_send q w), RInt n) = (if n = 0 then [(q, w)] else [])"
| "posted_by _ = []"

definition posted :: "event list \<Rightarrow> (ptr \<times> send_wr) list" where
  "posted es = concat (map posted_by es)"

fun polled_by :: "event \<Rightarrow> nat list" where
  "polled_by (Vb (Ibv_poll_cq c k), RWc n ws) = [nat n]"
| "polled_by _ = []"

definition poll_counts :: "event list \<Rightarrow> nat list" where
  "poll_counts es = concat (map polled_by es)"

lemma posted_simps [simp]:
  "posted [] = []" "posted (e # es) = posted_by e @ posted es" "posted (es @ es') = posted es @ posted es'"
  "poll_counts [] = []" "poll_counts (e # es) = polled_by e @ poll_counts es"
  "poll_counts (es @ es') = poll_counts es @ poll_counts es'"
  by (simp_all add: posted_def poll_counts_def)

fun is_poll :: "event \<Rightarrow> bool" where
  "is_poll (Vb (Ibv_poll_cq c k), RWc n ws) = True"
| "is_poll _ = False"

lemma is_poll_posted: "list_all is_poll es \<Longrightarrow> posted es = []"
  by (induction es) (auto elim!: is_poll.elims)

lemma polls_only: "poll_completions fuel cq want got v h = (r, es) \<Longrightarrow> list_all is_poll es"
proof (induction fuel arbitrary: got h r es)
  case 0
  then show ?case by (simp add: poll_completions.simps split: if_splits)
next
  case (Suc fuel)
  then show ?case
    by (subst (asm) (2) poll_completions.simps)
      (force simp: bnd_def sys_wc_def die_def split: if_splits prod.splits outcome.splits)
qed

text \<open>The request of one round.\<close>

definition bench_request :: "bench_config \<Rightarrow> bench_ctx \<Rightarrow> nat \<Rightarrow> bool \<Rightarrow> ptr \<times> send_wr" where
  "bench_request cfg x q signaled =
     (qp_ptr (bx_qp x ! q), bench_write cfg x q (int q * bc_msg_size cfg) signaled)"

lemma post_write_Ret:
  "post_rdma_write cfg x q signaled v h = (Ret r, es) \<longleftrightarrow>
   - (2 ^ 31) \<le> int q * bc_msg_size cfg \<and> int q * bc_msg_size cfg < 2 ^ 31 \<and> q < length (bx_qp x) \<and>
   (let c = (case bench_request cfg x q signaled of (p, w) \<Rightarrow> Vb (Ibv_post_send p w)) in
    r = env_int v h c \<and> es = [(c, RInt r)])"
  by (auto simp: post_rdma_write_def int_times_def sys_def bench_request_def Let_def)

lemma post_write_posted:
  "post_rdma_write cfg x q signaled v h = (Ret 0, es) \<Longrightarrow>
   posted es = [bench_request cfg x q signaled] \<and> poll_counts es = []"
  by (auto simp: post_write_Ret bench_request_def Let_def)

definition warm_requests :: "bench_config \<Rightarrow> bench_ctx \<Rightarrow> (nat \<times> nat) list \<Rightarrow> (ptr \<times> send_wr) list" where
  "warm_requests cfg x xs = map (\<lambda>(i, q). bench_request cfg x q (i mod SIGNAL_INTERVAL = SIGNAL_INTERVAL - 1)) xs"

definition measured_requests :: "bench_config \<Rightarrow> bench_ctx \<Rightarrow> nat \<Rightarrow> (nat \<times> nat) list \<Rightarrow> (ptr \<times> send_wr) list" where
  "measured_requests cfg x k xs =
     map (\<lambda>(j, i, q). bench_request cfg x q (j mod SIGNAL_INTERVAL = SIGNAL_INTERVAL - 1)) (enumerate k xs)"

lemma warm_round_parts:
  assumes "warmup_round cfg x (i, q) s v h = (Ret s', es)"
  shows "post_rdma_write cfg x q (i mod SIGNAL_INTERVAL = SIGNAL_INTERVAL - 1) v h = (Ret 0, es)"
  using assms by (auto simp: warmup_round_def Let_def bnd_eq_Ret die_def split: if_splits)

lemma warm_posted:
  "thread (warmup_round cfg x) xs s v h = (Ret s', es) \<Longrightarrow> posted es = warm_requests cfg x xs"
proof (induction xs arbitrary: s h es)
  case (Cons iq xs)
  obtain i q where iq: "iq = (i, q)" by fastforce
  from Cons.prems obtain s1 e1 e2 where "warmup_round cfg x (i, q) s v h = (Ret s1, e1)"
    "thread (warmup_round cfg x) xs s1 v (h @ e1) = (Ret s', e2)" "es = e1 @ e2"
    by (auto simp: bnd_eq_Ret iq)
  then show ?case
    using Cons.IH warm_round_parts post_write_posted by (fastforce simp: warm_requests_def iq)
qed (simp add: warm_requests_def)

text \<open>A round of the measured loop: the post, and then possibly a wait for one completion.\<close>

lemma measure_round_parts:
  assumes "measure_round fuel cfg x (i, q) (k, out) v h = (Ret s', es)"
  obtains e1 e2 where "es = e1 @ e2" "fst s' = Suc k"
    "post_rdma_write cfg x q (k mod SIGNAL_INTERVAL = SIGNAL_INTERVAL - 1) v h = (Ret 0, e1)"
    "e2 = [] \<and> snd s' = (if k mod SIGNAL_INTERVAL = SIGNAL_INTERVAL - 1 then out + 1 else out) \<or>
     (\<exists>r. poll_completions fuel (bx_cq x) 1 0 v (h @ e1) = (Ret r, e2)) \<and>
     snd s' = (if k mod SIGNAL_INTERVAL = SIGNAL_INTERVAL - 1 then out + 1 else out) - 1"
  using assms
  by (auto simp: measure_round_def Let_def bnd_eq_Ret seq_eq_Ret die_def split: if_splits)

lemma measure_posted:
  "thread (measure_round fuel cfg x) xs s v h = (Ret s', es) \<Longrightarrow> posted es = measured_requests cfg x (fst s) xs"
proof (induction xs arbitrary: s h es)
  case (Cons iq xs)
  obtain i q k out where iq: "iq = (i, q)" "s = (k, out)" by fastforce
  from Cons.prems obtain s1 e e' where r: "measure_round fuel cfg x (i, q) (k, out) v h = (Ret s1, e)"
    "thread (measure_round fuel cfg x) xs s1 v (h @ e) = (Ret s', e')" "es = e @ e'"
    by (auto simp: bnd_eq_Ret iq)
  from r(1) obtain e1 e2 where e: "e = e1 @ e2" "fst s1 = Suc k"
    "post_rdma_write cfg x q (k mod SIGNAL_INTERVAL = SIGNAL_INTERVAL - 1) v h = (Ret 0, e1)" "posted e2 = []"
    by (rule measure_round_parts) (auto dest!: polls_only is_poll_posted intro: that)
  show ?case
    using Cons.IH [OF r(2)] post_write_posted [OF e(3)] e
    by (simp add: measured_requests_def iq r(3))
qed (simp add: measured_requests_def)

lemma drain_posted: "drain fuel x n v h = (Ret u, es) \<Longrightarrow> posted es = []"
  by (auto simp: drain_def seq_eq_Ret dest!: polls_only is_poll_posted split: if_splits)

lemma get_time_posted: "get_time v h = (Ret t, es) \<Longrightarrow> posted es = []"
  by (auto simp: get_time_def sys_time_def bnd_eq_Ret split: prod.splits)

text \<open>What a posted write does: from which queue pair, what to where, under which key, and if it signals.\<close>

definition write_view :: "ptr \<times> send_wr \<Rightarrow> ptr \<times> wr_opcode \<times> (u64 \<times> u32) list \<times> u64 \<times> u32 \<times> bool" where
  "write_view qw = (case qw of (q, w) \<Rightarrow>
     (q, sw_opcode w, map (\<lambda>g. (sge_addr g, sge_length g)) (sw_sg_list w), sw_remote_addr w, sw_rkey w,
      IBV_SEND_SIGNALED \<in> sw_send_flags w))"

text \<open>The slice of queue pair \<open>q\<close>: the same offset in the own buffer and in the peer's.\<close>

definition slice :: "bench_config \<Rightarrow> bench_ctx \<Rightarrow> nat \<Rightarrow> bool \<Rightarrow> ptr \<times> wr_opcode \<times> (u64 \<times> u32) list \<times> u64 \<times> u32 \<times> bool" where
  "slice cfg x q signaled = (let off = word_of_int (int q * bc_msg_size cfg) in
     (qp_ptr (bx_qp x ! q), IBV_WR_RDMA_WRITE, [(bx_buf x + off, word_of_int (bc_msg_size cfg))],
      ci_addr (bx_remote x) + off, ci_rkey (bx_remote x), signaled))"

lemma write_view_request: "write_view (bench_request cfg x q signaled) = slice cfg x q signaled"
  by (auto simp: write_view_def bench_request_def bench_write_def slice_def Let_def to_u32_def)

lemma views:
  "map write_view (warm_requests cfg x xs) = map (\<lambda>(i, q). slice cfg x q (i mod 32 = 31)) xs"
  "map write_view (measured_requests cfg x k xs) = map (\<lambda>(j, i, q). slice cfg x q (j mod 32 = 31)) (enumerate k xs)"
  by (auto simp: warm_requests_def measured_requests_def write_view_request SIGNAL_INTERVAL_def)

lemma run_posted:
  assumes "run_benchmark fuel cfg x v h = (Ret s, es)"
  shows "posted es = warm_requests cfg x (rounds (bc_warmup cfg) (bc_qp_count cfg)) @
      measured_requests cfg x 0 (rounds (bc_iterations cfg) (bc_qp_count cfg)) \<and>
    bs_ops s = bc_iterations cfg * bc_qp_count cfg \<and> bs_bits s = bs_ops s * bc_msg_size cfg * 8"
  using assms
  by (auto simp: run_benchmark_def int_times_def bnd_eq_Ret seq_eq_Ret
      warm_posted measure_posted drain_posted get_time_posted split: if_splits)

text \<open>Every one of these is the request of some queue pair.\<close>

lemma requests_of:
  assumes "posted es = warm_requests cfg x (rounds n (bc_qp_count cfg)) @ measured_requests cfg x 0 (rounds m (bc_qp_count cfg))"
    and "qw \<in> set (posted es)"
  shows "\<exists>q sg. qw = bench_request cfg x q sg \<and> q < nat (bc_qp_count cfg)"
proof -
  have "q < nat (bc_qp_count cfg)" if "(j, i, q) \<in> set (enumerate 0 (rounds m (bc_qp_count cfg)))" for j i q
    using that by (auto simp: enumerate_eq_zip dest!: set_zip_rightD rounds_bound)
  with assms show ?thesis
    by (fastforce simp: warm_requests_def measured_requests_def dest: rounds_bound)
qed

text \<open>What is announced is the own buffer and its key.\<close>

lemma local_info_fields:
  "bench_local_info cfg ctx buf mr qps v h = (Ret li, es) \<Longrightarrow> ci_addr li = buf \<and> ci_rkey li = mr_rkey mr"
  by (cases qps) (auto simp: bench_local_info_def bnd_eq_Ret die_def split: if_splits prod.splits)

lemma bench_announces:
  assumes "bench_init_ctx cfg v h = (Ret x, es)"
  shows "ci_addr (bx_local x) = bx_buf x" "ci_rkey (bx_local x) = mr_rkey (bx_mr x)"
  using assms
  by (auto simp: bench_init_ctx_def bnd_eq_Ret die_def dest!: local_info_fields split: if_splits)

text \<open>C22: What a completed benchmark has posted: one RDMA write per round and queue pair, in the order of the
  two loops, each from the queue pair's own slice of the buffer to the same slice of the peer's.  In the
  warm-up all queue pairs signal in every 32nd iteration, in the measured loop every 32nd request
  signals, whichever queue pair it is on.  The statistics count the measured requests.
\<close>

theorem bench_posts:
  assumes "run_benchmark fuel cfg x v h = (Ret s, es)"
  shows "map write_view (posted es) =
      map (\<lambda>(i, q). slice cfg x q (i mod 32 = 31)) (rounds (bc_warmup cfg) (bc_qp_count cfg)) @
      map (\<lambda>(j, i, q). slice cfg x q (j mod 32 = 31)) (enumerate 0 (rounds (bc_iterations cfg) (bc_qp_count cfg))) \<and>
    bs_ops s = bc_iterations cfg * bc_qp_count cfg \<and> bs_bits s = bs_ops s * bc_msg_size cfg * 8"
  using run_posted [OF assms] by (simp add: views)

text \<open>C16: Every write of a benchmark lands in the peer's buffer.  When the peer set up its resources for the
  same message size and number of queue pairs, and the two sides exchanged their data over one
  connection, all RDMA writes the benchmark posts carry the key of the peer's memory region and stay
  within its buffer, whatever the number of rounds.
\<close>

theorem bench_writes_land:
  assumes "bench_init_ctx cfg' v' [] = (Ret x', is)"
    and "connect_qps cfg x fd v h = (Ret y, es)" and "connect_qps cfg' x' fd' v' h' = (Ret y', es')"
    and "env_order v = env_order v'" "rcvd fd h = sent fd' h'" "delivers fd' (h' @ es') fd (h @ es)"
    and "run_benchmark fuel cfg y v g = (Ret s, gs)"
    and "bc_msg_size cfg = bc_msg_size cfg'" "bc_qp_count cfg = bc_qp_count cfg'"
    and "0 \<le> bc_msg_size cfg" "bc_msg_size cfg < 2 ^ 31" "bc_qp_count cfg < 2 ^ 31"
    and "unat (bx_buf x') + bench_buf_size cfg' \<le> 2 ^ 64"
  shows "\<forall>(q, w) \<in> set (posted gs). sw_opcode w = IBV_WR_RDMA_WRITE \<and> sw_rkey w = mr_rkey (bx_mr x') \<and>
    within (bx_buf x') (bench_buf_size cfg') (sw_remote_addr w) (sge_bytes (sw_sg_list w))"
proof -
  have rem: "ci_addr (bx_remote y) = bx_buf x'" "ci_rkey (bx_remote y) = mr_rkey (bx_mr x')"
    using bench_hears(1) [OF assms(2-6)] bench_announces [OF assms(1)] by simp_all
  have size: "bench_buf_size cfg' = bench_buf_size cfg"
    by (simp add: bench_buf_size_def assms(8,9))
  have "within (bx_buf x') (bench_buf_size cfg) (bx_buf x' + word_of_int (int q * bc_msg_size cfg))
      (unat (to_u32 (bc_msg_size cfg)))" if "q < nat (bc_qp_count cfg)" for q
    using slice_within [OF assms(10-12) that] assms(13) by (simp add: size)
  then have "case qw of (p, w) \<Rightarrow> sw_opcode w = IBV_WR_RDMA_WRITE \<and> sw_rkey w = mr_rkey (bx_mr x') \<and>
      within (bx_buf x') (bench_buf_size cfg') (sw_remote_addr w) (sge_bytes (sw_sg_list w))"
    if "qw = bench_request cfg y q sg" "q < nat (bc_qp_count cfg)" for qw q sg
    using that by (simp add: bench_request_def bench_write_def rem size sge_bytes_def)
  then show ?thesis
    using requests_of [OF conjunct1 [OF run_posted [OF assms(7)]]] by blast
qed

section \<open>The warm-up overruns the send queue\<close>

text \<open>
  As long as no completion has been polled, the send queue of \<open>q\<close> takes at most \<open>cap\<close> requests: the
  entries of a send queue are freed by polling, and \<^verbatim>\<open>ibv_post_send\<close> refuses when it is full.
\<close>

definition send_queue_holds :: "env \<Rightarrow> nat \<Rightarrow> ptr \<Rightarrow> bool" where
  "send_queue_holds v cap q \<longleftrightarrow>
     (\<forall>h w. poll_counts h = [] \<and> cap \<le> count_list (map fst (posted h)) q \<longrightarrow>
        env_int v h (Vb (Ibv_post_send q w)) \<noteq> 0)"

lemma count_list_append [simp]: "count_list (xs @ ys) y = count_list xs y + count_list ys y"
  by (induction xs) auto

lemma warm_fits:
  assumes "send_queue_holds v cap p"
  shows "thread (warmup_round cfg x) xs s v h = (Ret s', es) \<Longrightarrow> poll_counts h = [] \<Longrightarrow>
    count_list (map fst (posted (h @ es))) p \<le> max cap (count_list (map fst (posted h)) p)"
proof (induction xs arbitrary: s h es)
  case (Cons iq xs)
  obtain i q where iq: "iq = (i, q)" by fastforce
  from Cons.prems(1) obtain s1 e1 e2 where r: "warmup_round cfg x (i, q) s v h = (Ret s1, e1)"
    "thread (warmup_round cfg x) xs s1 v (h @ e1) = (Ret s', e2)" "es = e1 @ e2"
    by (auto simp: bnd_eq_Ret iq)
  define sg where "sg = (i mod SIGNAL_INTERVAL = SIGNAL_INTERVAL - 1)"
  have post: "post_rdma_write cfg x q sg v h = (Ret 0, e1)"
    unfolding sg_def by (rule warm_round_parts [OF r(1)])
  then have e1: "posted e1 = [bench_request cfg x q sg]" "poll_counts e1 = []"
    by (auto dest: post_write_posted)
  have "count_list (map fst (posted h)) p < cap" if "qp_ptr (bx_qp x ! q) = p"
    using post assms Cons.prems(2) that
    by (fastforce simp: post_write_Ret bench_request_def Let_def send_queue_holds_def)
  then have "count_list (map fst (posted (h @ e1))) p \<le> max cap (count_list (map fst (posted h)) p)"
    by (auto simp: e1 bench_request_def)
  with Cons.IH [OF r(2)] e1(2) Cons.prems(2) show ?case by (simp add: r(3))
qed simp

lemma warm_requests_count:
  assumes "0 < k"
  shows "nat n \<le> count_list (map fst (warm_requests cfg x (rounds n k))) (qp_ptr (bx_qp x ! 0))"
proof -
  let ?f = "\<lambda>iq :: nat \<times> nat. qp_ptr (bx_qp x ! snd iq)"
  have "qp_ptr (bx_qp x ! 0) \<in> ?f ` set (map (Pair a) [0..<nat k])" for a :: nat
    using assms by (auto simp: image_iff intro!: bexI [of _ 0])
  then have one: "1 \<le> count_list (map ?f (map (Pair a) [0..<nat k])) (qp_ptr (bx_qp x ! 0))" for a :: nat
    using count_list_0_iff [of "map ?f (map (Pair a) [0..<nat k])" "qp_ptr (bx_qp x ! 0)"]
    by (simp only: set_map not_True_eq_False) (metis One_nat_def Suc_leI neq0_conv)
  have "length A \<le> count_list (map ?f (List.product A [0..<nat k])) (qp_ptr (bx_qp x ! 0))" for A
  proof (induction A)
    case (Cons a A)
    with one [of a] show ?case by simp
  qed simp
  moreover have "map fst (warm_requests cfg x (rounds n k)) = map ?f (rounds n k)"
    by (auto simp: warm_requests_def bench_request_def)
  ultimately show ?thesis
    unfolding rounds_def by (metis diff_zero length_upt)
qed

text \<open>How a run can end, from a monitor that never objects.\<close>

lemma ends_by: "obeys (\<lambda>s e. Live s) v m () (\<lambda>r _. P r) \<Longrightarrow> P (fst (m v h))"
proof -
  have "mon_run (\<lambda>s e. Live s) s es = Live s" for s :: unit and es :: "'a list"
    by (induction es) simp_all
  then show "obeys (\<lambda>s e. Live s) v m () (\<lambda>r _. P r) \<Longrightarrow> P (fst (m v h))"
    by (simp add: obeys_def)
qed

lemma warm_ends:
  assumes "length (bx_qp x) = nat (bc_qp_count cfg)" "0 \<le> bc_msg_size cfg" "bc_msg_size cfg * bc_qp_count cfg < 2 ^ 31"
  shows "fst (thread (warmup_round cfg x) (rounds n (bc_qp_count cfg)) s v h) = Exit 1 \<or>
    (\<exists>s'. fst (thread (warmup_round cfg x) (rounds n (bc_qp_count cfg)) s v h) = Ret s')"
proof -
  have "- (2 ^ 31) \<le> int q * bc_msg_size cfg \<and> int q * bc_msg_size cfg < 2 ^ 31"
    if "q < nat (bc_qp_count cfg)" for q
  proof -
    have "0 \<le> int q * bc_msg_size cfg" using assms(2) by simp
    moreover
    have "int q * bc_msg_size cfg \<le> bc_qp_count cfg * bc_msg_size cfg"
      using that assms(2) by (intro mult_right_mono) linarith+
    ultimately show ?thesis using assms(3) by (simp add: mult.commute)
  qed
  then have "obeys (\<lambda>s e. Live s) v (thread (warmup_round cfg x) (rounds n (bc_qp_count cfg)) s) ()
      (\<lambda>r _. r = Exit 1 \<or> (\<exists>s'. r = Ret s'))"
    using assms(1)
    by (intro obeys_thread_same) (auto simp: warmup_round_def Let_def post_rdma_write_def int_times_def die_def
      EXIT_FAILURE_def intro!: obeys_rules dest!: rounds_bound)
  then show ?thesis by (rule ends_by)
qed

text \<open>C20: The warm-up polls nothing before its end, so it needs a send queue for all its requests: with more
  warm-up iterations than the send queue holds (the defaults are 5000 and 512) one of its posts is
  refused and the benchmark ends with status 1, whatever the network does.
\<close>

theorem bench_warmup_dies:
  assumes "send_queue_holds v cap (qp_ptr (bx_qp x ! 0))" "poll_counts h = []"
    and "cap < nat (bc_warmup cfg)" "0 < bc_qp_count cfg" "length (bx_qp x) = nat (bc_qp_count cfg)"
    and "0 \<le> bc_msg_size cfg" "bc_msg_size cfg * bc_qp_count cfg < 2 ^ 31"
    and "- (2 ^ 31) \<le> bc_iterations cfg * bc_qp_count cfg" "bc_iterations cfg * bc_qp_count cfg < 2 ^ 31"
  shows "fst (run_benchmark fuel cfg x v h) = Exit 1"
proof -
  let ?W = "thread (warmup_round cfg x) (rounds (bc_warmup cfg) (bc_qp_count cfg)) 0"
  have "fst (?W v h) \<noteq> Ret s" for s
  proof
    assume "fst (?W v h) = Ret s"
    then obtain es where r: "?W v h = (Ret s, es)" by (metis prod.collapse)
    from warm_fits [OF assms(1) r assms(2)] warm_posted [OF r]
      warm_requests_count [OF assms(4), of "bc_warmup cfg" cfg x] assms(3)
    show False by simp
  qed
  with warm_ends [OF assms(5-7)] have "fst (?W v h) = Exit 1" by blast
  then obtain es where "?W v h = (Exit 1, es)" by (metis prod.collapse)
  with assms(8,9) show ?thesis
    by (simp add: run_benchmark_def int_times_def run_bnd)
qed

section \<open>The final drain\<close>

definition signalled :: "event list \<Rightarrow> nat" where
  "signalled es = length (filter (\<lambda>(q, w). IBV_SEND_SIGNALED \<in> sw_send_flags w) (posted es))"

definition taken :: "event list \<Rightarrow> nat" where
  "taken es = sum_list (poll_counts es)"

definition productive :: "event list \<Rightarrow> nat" where
  "productive es = length (filter (\<lambda>m. 0 < m) (poll_counts es))"

lemma tallies [simp]:
  "signalled (es @ es') = signalled es + signalled es'" "taken (es @ es') = taken es + taken es'"
  "productive (es @ es') = productive es + productive es'"
  "signalled [] = 0" "taken [] = 0" "productive [] = 0"
  by (simp_all add: signalled_def taken_def productive_def)

lemma poll_tallies [simp]:
  "signalled [(Vb (Ibv_poll_cq c k), r)] = 0" "taken [(Vb (Ibv_poll_cq c k), RWc n ws)] = nat n"
  "productive [(Vb (Ibv_poll_cq c k), RWc n ws)] = (if 0 < n then 1 else 0)"
  by (simp_all add: signalled_def taken_def productive_def)

text \<open>
  A completion queue that works: every poll succeeds, with at most as many completions as were asked
  for, all successful, and never more of them than signalled requests.
\<close>

definition honest_cq :: "env \<Rightarrow> bool" where
  "honest_cq v \<longleftrightarrow> (\<forall>h c k. case env_wc v h (Vb (Ibv_poll_cq c k)) of (n, ws) \<Rightarrow>
     0 \<le> n \<and> n \<le> int k \<and> int (length ws) = n \<and> (\<forall>w \<in> set ws. wc_status w = IBV_WC_SUCCESS) \<and>
     (taken h \<le> signalled h \<longrightarrow> taken h + nat n \<le> signalled h))"

text \<open>One step of the polling loop on such a queue.\<close>

lemma honest_poll:
  assumes "honest_cq v"
  obtains n e where "0 \<le> n" "taken h \<le> signalled h \<longrightarrow> taken h + nat n \<le> signalled h"
    "signalled [e] = 0" "taken [e] = nat n" "productive [e] = (if 0 < n then 1 else 0)"
    "\<And>fuel want got. got < want \<Longrightarrow> poll_completions (Suc fuel) cq want got v h =
       (case poll_completions fuel cq want (got + n) v (h @ [e]) of (r, es) \<Rightarrow> (r, e # es))"
proof -
  obtain n ws where e: "env_wc v h (Vb (Ibv_poll_cq cq 32)) = (n, ws)" by fastforce
  with assms have n: "0 \<le> n" "n \<le> 32" "length ws = nat n" "\<forall>w \<in> set ws. wc_status w = IBV_WC_SUCCESS"
    "taken h \<le> signalled h \<longrightarrow> taken h + nat n \<le> signalled h"
    unfolding honest_cq_def by (force split: prod.splits)+
  show ?thesis
  proof (rule that [of n "(Vb (Ibv_poll_cq cq 32), RWc n ws)"])
    fix fuel and want got :: int
    assume "got < want"
    then show "poll_completions (Suc fuel) cq want got v h =
       (case poll_completions fuel cq want (got + n) v (h @ [(Vb (Ibv_poll_cq cq 32), RWc n ws)]) of
         (r, es) \<Rightarrow> (r, (Vb (Ibv_poll_cq cq 32), RWc n ws) # es))"
      using n by (subst poll_completions.simps)
        (auto simp: run_bnd sys_wc_def e list_ex_iff split: prod.splits outcome.splits)
  qed (use n in simp_all)
qed

lemma poll_one:
  assumes "honest_cq v"
  shows "poll_completions fuel cq 1 0 v h = (Ret r, es) \<Longrightarrow> taken h \<le> signalled h \<Longrightarrow>
    signalled es = 0 \<and> productive es = 1 \<and> taken (h @ es) \<le> signalled (h @ es)"
proof (induction fuel arbitrary: h es)
  case 0
  then show ?case by (simp add: poll_completions.simps)
next
  case (Suc fuel)
  obtain n e where n: "0 \<le> n" "taken h \<le> signalled h \<longrightarrow> taken h + nat n \<le> signalled h"
    "signalled [e] = 0" "taken [e] = nat n" "productive [e] = (if 0 < n then 1 else 0)"
    and step: "\<And>fuel want got. got < want \<Longrightarrow> poll_completions (Suc fuel) cq want got v h =
       (case poll_completions fuel cq want (got + n) v (h @ [e]) of (r, es) \<Rightarrow> (r, e # es))"
    using honest_poll [OF assms, of h cq] by metis
  from Suc.prems(1) step [of 0 1 fuel] obtain es' where
    r: "poll_completions fuel cq 1 n v (h @ [e]) = (Ret r, es')" and es: "es = [e] @ es'"
    by (auto split: prod.splits)
  show ?case
  proof (cases "n = 0")
    case True
    with Suc.IH [of "h @ [e]" es'] r n Suc.prems(2) show ?thesis unfolding es tallies by simp
  next
    case False
    with r n(1) have "es' = []" by (subst (asm) poll_completions.simps) simp
    with False n Suc.prems(2) show ?thesis by (simp add: es)
  qed
qed

lemma measure_tally:
  assumes "honest_cq v"
  shows "thread (measure_round fuel cfg x) xs (k, out) v h = (Ret (k', out'), es) \<Longrightarrow> taken h \<le> signalled h \<Longrightarrow>
    out' = out + int (signalled es) - int (productive es) \<and> taken (h @ es) \<le> signalled (h @ es)"
proof (induction xs arbitrary: k out h es)
  case (Cons iq xs)
  obtain i q where iq: "iq = (i, q)" by fastforce
  define sg where "sg = (k mod SIGNAL_INTERVAL = SIGNAL_INTERVAL - 1)"
  from Cons.prems(1) obtain k1 o1 e e' where r: "measure_round fuel cfg x (i, q) (k, out) v h = (Ret (k1, o1), e)"
    "thread (measure_round fuel cfg x) xs (k1, o1) v (h @ e) = (Ret (k', out'), e')" "es = e @ e'"
    by (auto simp: bnd_eq_Ret iq)
  obtain e1 e2 where e: "e = e1 @ e2" "post_rdma_write cfg x q sg v h = (Ret 0, e1)"
    "e2 = [] \<and> o1 = (if sg then out + 1 else out) \<or>
     (\<exists>r. poll_completions fuel (bx_cq x) 1 0 v (h @ e1) = (Ret r, e2)) \<and> o1 = (if sg then out + 1 else out) - 1"
    using r(1) unfolding sg_def by (rule measure_round_parts) auto
  have "posted e1 = [bench_request cfg x q sg]" "poll_counts e1 = []"
    using post_write_posted [OF e(2)] by auto
  then have p: "signalled e1 = (if sg then 1 else 0)" "taken e1 = 0" "productive e1 = 0"
    by (auto simp: signalled_def taken_def productive_def bench_request_def bench_write_def)
  have "taken (h @ e1) \<le> signalled (h @ e1)" using p Cons.prems(2) by simp
  then have q: "o1 = out + int (signalled e) - int (productive e) \<and> taken (h @ e) \<le> signalled (h @ e)"
    using e(3) poll_one [OF assms, of fuel "bx_cq x" "h @ e1"] p by (auto simp: e(1))
  then show ?case
    using Cons.IH [OF r(2)] by (auto simp: r(3))
qed simp

lemma drain_hangs:
  assumes "honest_cq v"
  shows "got < want \<Longrightarrow> taken h \<le> signalled h \<Longrightarrow> int (signalled h) < int (taken h) + (want - got) \<Longrightarrow>
    fst (poll_completions fuel cq want got v h) = Hang"
proof (induction fuel arbitrary: got h)
  case 0
  then show ?case by (simp add: poll_completions.simps run_simps)
next
  case (Suc fuel)
  obtain n e where n: "0 \<le> n" "taken h \<le> signalled h \<longrightarrow> taken h + nat n \<le> signalled h"
    "signalled [e] = 0" "taken [e] = nat n"
    and step: "\<And>fuel want got. got < want \<Longrightarrow> poll_completions (Suc fuel) cq want got v h =
       (case poll_completions fuel cq want (got + n) v (h @ [e]) of (r, es) \<Rightarrow> (r, e # es))"
    using honest_poll [OF assms, of h cq] by metis
  have "fst (poll_completions fuel cq want (got + n) v (h @ [e])) = Hang"
    using Suc.prems n by (intro Suc.IH) auto
  then show ?case
    using step [OF Suc.prems(1), of fuel] by (simp split: prod.splits)
qed

lemma taken_surplus: "m \<in> set ms \<Longrightarrow> 2 \<le> m \<Longrightarrow> length (filter (\<lambda>m. 0 < m) ms) < sum_list (ms :: nat list)"
proof -
  have le: "length (filter (\<lambda>m. 0 < m) ms) \<le> sum_list ms" for ms :: "nat list"
    by (induction ms) auto
  show "m \<in> set ms \<Longrightarrow> 2 \<le> m \<Longrightarrow> length (filter (\<lambda>m. 0 < m) ms) < sum_list ms"
  proof (induction ms)
    case (Cons a ms)
    with le [of ms] show ?case by (auto split: if_splits)
  qed simp
qed

text \<open>C19: The measured loop counts one completion per wait, though a poll may bring up to 32.  If any poll of
  the loop brought two, then on a completion queue that works the final drain waits for completions
  that were already taken and never returns, however long it polls.
\<close>

theorem bench_drain_starves:
  assumes "honest_cq v" "taken h = signalled h"
    and "thread (measure_round fuel cfg x) (rounds n k) (0, 0) v h = (Ret (signal_cnt, outstanding), es)"
    and "m \<in> set (poll_counts es)" "2 \<le> m"
  shows "fst (drain fuel' x outstanding v (h @ es)) = Hang"
proof -
  from measure_tally [OF assms(1) assms(3)] assms(2)
  have t: "outstanding = int (signalled es) - int (productive es)" "taken (h @ es) \<le> signalled (h @ es)" by auto
  moreover have "productive es < taken es"
    using taken_surplus [OF assms(4,5)] by (simp add: productive_def taken_def)
  ultimately have "0 < outstanding" "int (signalled (h @ es)) < int (taken (h @ es)) + (outstanding - 0)"
    using assms(2) by auto
  with drain_hangs [OF assms(1) _ t(2), of 0 outstanding]
  have "0 < outstanding" "fst (poll_completions fuel' (bx_cq x) outstanding 0 v (h @ es)) = Hang" by auto
  then show ?thesis
    by (cases "poll_completions fuel' (bx_cq x) outstanding 0 v (h @ es)") (simp add: drain_def run_seq)
qed

section \<open>Runs of the witnesses\<close>

definition bench_lab :: "bytes \<Rightarrow> env" where
  "bench_lab peer = (lab_env 17 5 peer)\<lparr>env_intptr := \<lambda>h c. (1, 0x7f000001)\<rparr>"

lemma bench_lab_simps:
  "env_intptr (bench_lab ps) h c = (1, 0x7f000001)" "env_order (bench_lab ps) = Little"
  "env_int (bench_lab ps) h c = lab_int h c" "env_ptr (bench_lab ps) h c = lab_handle h"
  "env_mr (bench_lab ps) h c = lab_mr h c" "env_qp (bench_lab ps) h c = \<lparr>qp_ptr = lab_handle h, qp_num = 17\<rparr>"
  "env_bytes (bench_lab ps) h c = lab_read ps h c" "env_wc (bench_lab ps) h c = (1, [lab_wc])"
  "env_devs (bench_lab ps) h = env_devs (lab_env 17 5 ps) h" "env_port (bench_lab ps) h c = env_port (lab_env 17 5 ps) h c"
  "env_gid (bench_lab ps) h c = (0, 5)" "env_time (bench_lab ps) h = (int (length h), 0)"
  by (simp_all add: bench_lab_def lab_env_simps)

lemmas lab_bench = run_defs bench_lab_simps lab_env_simps lab_int_def lab_handle_def lab_read_def lab_mr_def sys_time_def
  get_order_def sys_intptr_def sys_devs_def sys_port_def sys_gid_def die_def int_times_def exchange_info_def
  connect_qps_def climb_def CHECK_RC_def bench_modify_qp_to_init_def bench_modify_qp_to_rtr_def bench_modify_qp_to_rts_def
  post_rdma_write_def warmup_round_def measure_round_def SIGNAL_INTERVAL_def rounds_def run_benchmark_def drain_def
  get_time_def conn_wire.length_img conn_wire.parse_img lab_options

definition bench_lab_ctx :: "ptr \<Rightarrow> u32 \<Rightarrow> bench_ctx" where
  "bench_lab_ctx b n = \<lparr>bx_ctx = 1, bx_pd = 2, bx_mr = \<lparr>mr_ptr = 3, mr_addr = b, mr_lkey = 7, mr_rkey = 9\<rparr>, bx_cq = 4,
     bx_qps = 5, bx_qp = [\<lparr>qp_ptr = 6, qp_num = n\<rparr>, \<lparr>qp_ptr = 7, qp_num = n + 1\<rparr>], bx_buf = b,
     bx_local = \<lparr>ci_addr = b, ci_rkey = 9, ci_qpn = n, ci_lid = 3, ci_gid = 5\<rparr>, bx_remote = zero_conn_info\<rparr>"

lemma bench_posts_witness:
  "\<exists>s es. run_benchmark 0 (bench_defaults\<lparr>bc_warmup := 1, bc_iterations := 1, bc_qp_count := 2\<rparr>) (bench_lab_ctx 4096 17)
     (bench_lab []) [] = (Ret s, es) \<and> bs_ops s = 2 \<and> map write_view (posted es) =
       [(6, IBV_WR_RDMA_WRITE, [(4096, 4096)], 0, 0, False), (7, IBV_WR_RDMA_WRITE, [(8192, 4096)], 4096, 0, False),
        (6, IBV_WR_RDMA_WRITE, [(4096, 4096)], 0, 0, False), (7, IBV_WR_RDMA_WRITE, [(8192, 4096)], 4096, 0, False)]"
proof -
  have u: "[0..<2] = [0, 1 :: nat]" by (simp add: upt_rec)
  obtain s es where r: "run_benchmark 0 (bench_defaults\<lparr>bc_warmup := 1, bc_iterations := 1, bc_qp_count := 2\<rparr>)
      (bench_lab_ctx 4096 17) (bench_lab []) [] = (Ret s, es)"
    by (simp add: lab_bench bench_defaults_def bench_lab_ctx_def u BENCH_MSG_SIZE_def BENCH_SQ_DEPTH_def)
  from bench_posts [OF r] r show ?thesis
    by (auto simp: rounds_def bench_defaults_def u slice_def bench_lab_ctx_def zero_conn_info_def BENCH_MSG_SIZE_def Let_def)
qed

lemma bench_peers_meet_witness:
  "\<exists>y y' es es'. connect_qps bench_defaults (bench_lab_ctx 4096 17) 3
       (bench_lab (conn_info_bytes Little (bx_local (bench_lab_ctx 8192 23)))) [] = (Ret y, es) \<and>
     connect_qps bench_defaults (bench_lab_ctx 8192 23) 4
       (bench_lab (conn_info_bytes Little (bx_local (bench_lab_ctx 4096 17)))) [] = (Ret y', es') \<and>
     ci_qpn (bx_remote y) = 23 \<and> ci_addr (bx_remote y') = 4096 \<and> length (modified es) = 6"
proof -
  let ?c = "bench_lab_ctx 4096 17" and ?s = "bench_lab_ctx 8192 23"
  let ?v = "bench_lab (conn_info_bytes Little (bx_local ?s))" and ?w = "bench_lab (conn_info_bytes Little (bx_local ?c))"
  have q: "bx_qp ?c = [\<lparr>qp_ptr = 6, qp_num = 17\<rparr>, \<lparr>qp_ptr = 7, qp_num = 18\<rparr>]"
    "bx_qp ?s = [\<lparr>qp_ptr = 6, qp_num = 23\<rparr>, \<lparr>qp_ptr = 7, qp_num = 24\<rparr>]"
    by (simp_all add: bench_lab_ctx_def)
  obtain y y' es es' where 1: "connect_qps bench_defaults ?c 3 ?v [] = (Ret y, es)"
    "connect_qps bench_defaults ?s 4 ?w [] = (Ret y', es')" "delivers 4 es' 3 es" "delivers 3 es 4 es'"
    by (simp add: lab_bench q delivers_def)
  show ?thesis
    using bench_peers_meet [OF 1(1,2)] 1
    by (auto simp: bench_lab_simps q bench_ladder_def) (simp_all add: bench_lab_ctx_def)
qed

text \<open>A peer with two queue pairs, and a client that writes to it.\<close>

definition bench_lab_two :: bench_config where
  "bench_lab_two = bench_defaults\<lparr>bc_warmup := 1, bc_iterations := 1, bc_qp_count := 2\<rparr>"

definition bench_lab_peer :: conn_info where
  "bench_lab_peer = \<lparr>ci_addr = 20480, ci_rkey = 9, ci_qpn = 17, ci_lid = 3, ci_gid = 5\<rparr>"

lemma bench_lab_init:
  "\<exists>x' es. bench_init_ctx bench_lab_two (bench_lab ps) [] = (Ret x', es) \<and> bx_local x' = bench_lab_peer \<and>
     bx_buf x' = 20480 \<and> mr_rkey (bx_mr x') = 9 \<and> bx_qp x' = [\<lparr>qp_ptr = 36864, qp_num = 17\<rparr>, \<lparr>qp_ptr = 40960, qp_num = 17\<rparr>]"
proof -
  have m: "bench_make_qps cfg pd cq 2 = bench_make_qps cfg pd cq (Suc (Suc 0))" for cfg pd cq
    by (simp only: numeral_2_eq_2)
  show ?thesis
    by (simp add: lab_bench m bench_lab_two_def bench_defaults_def bench_init_ctx_def bench_open_device_def
      bench_local_info_def bench_lab_peer_def)
qed

lemma bench_writes_land_witness:
  "\<exists>y (x' :: bench_ctx) s gs. bx_local x' = bench_lab_peer \<and>
     run_benchmark 0 bench_lab_two y (bench_lab (conn_info_bytes Little bench_lab_peer)) [] = (Ret s, gs) \<and>
     length (posted gs) = 4 \<and> (\<forall>(q, w) \<in> set (posted gs). within 20480 8192 (sw_remote_addr w) (sge_bytes (sw_sg_list w)))"
proof -
  let ?c = "bench_lab_ctx 4096 17"
  let ?v = "bench_lab (conn_info_bytes Little bench_lab_peer)" and ?w = "bench_lab (conn_info_bytes Little (bx_local ?c))"
  have q: "bx_qp ?c = [\<lparr>qp_ptr = 6, qp_num = 17\<rparr>, \<lparr>qp_ptr = 7, qp_num = 18\<rparr>]"
    by (simp add: bench_lab_ctx_def)
  have u: "[0..<2] = [0, 1 :: nat]" by (simp add: upt_rec)
  obtain x' es where i: "bench_init_ctx bench_lab_two ?w [] = (Ret x', es)" "bx_local x' = bench_lab_peer"
    "bx_buf x' = 20480" "mr_rkey (bx_mr x') = 9" "bx_qp x' = [\<lparr>qp_ptr = 36864, qp_num = 17\<rparr>, \<lparr>qp_ptr = 40960, qp_num = 17\<rparr>]"
    using bench_lab_init by blast
  obtain y y' e e' where c: "connect_qps bench_lab_two ?c 3 ?v [] = (Ret y, e)"
    "connect_qps bench_lab_two x' 4 ?w [] = (Ret y', e')" "delivers 4 e' 3 e" "y = ?c\<lparr>bx_remote := bench_lab_peer\<rparr>"
    by (simp add: lab_bench q i delivers_def)
  obtain s gs where r: "run_benchmark 0 bench_lab_two y ?v [] = (Ret s, gs)"
    by (simp add: c(4) lab_bench bench_lab_two_def bench_defaults_def bench_lab_ctx_def u BENCH_MSG_SIZE_def BENCH_SQ_DEPTH_def)
  have n: "length (posted gs) = 4"
    using run_posted [OF r] by (simp add: warm_requests_def measured_requests_def rounds_def bench_lab_two_def bench_defaults_def)
  have b: "bench_buf_size bench_lab_two = 8192"
    by (simp add: bench_buf_size_def bench_lab_two_def bench_defaults_def BENCH_MSG_SIZE_def to_size_def)
  have "\<forall>(q, w) \<in> set (posted gs). sw_opcode w = IBV_WR_RDMA_WRITE \<and> sw_rkey w = mr_rkey (bx_mr x') \<and>
    within (bx_buf x') (bench_buf_size bench_lab_two) (sw_remote_addr w) (sge_bytes (sw_sg_list w))"
    by (rule bench_writes_land [OF i(1) c(1,2) _ _ _ r])
      (use c(3) in \<open>simp_all add: bench_lab_simps i(3) b, simp_all add: bench_lab_two_def bench_defaults_def BENCH_MSG_SIZE_def\<close>)
  then have "\<forall>(q, w) \<in> set (posted gs). within 20480 8192 (sw_remote_addr w) (sge_bytes (sw_sg_list w))"
    by (auto simp: i(3) b)
  with n r i(2) show ?thesis by blast
qed

text \<open>A send queue of 512 entries.\<close>

lemma bench_warmup_dies_witness:
  "fst (run_benchmark 0 bench_defaults ((bench_lab_ctx 4096 17)\<lparr>bx_qp := [\<lparr>qp_ptr = 6, qp_num = 17\<rparr>]\<rparr>)
     ((bench_lab [])\<lparr>env_int := \<lambda>h c. case c of Vb (Ibv_post_send q w) \<Rightarrow>
        if 512 \<le> count_list (map fst (posted h)) q then 12 else 0 | _ \<Rightarrow> 0\<rparr>) []) = Exit 1"
  by (rule bench_warmup_dies [where cap = 512])
    (simp_all add: send_queue_holds_def bench_defaults_def bench_lab_ctx_def BENCH_WARMUP_def BENCH_QP_COUNT_def
      BENCH_MSG_SIZE_def BENCH_ITERS_def)

text \<open>A completion queue that hands out all it has.\<close>

definition bench_cq_env :: env where
  "bench_cq_env = (bench_lab [])\<lparr>env_wc := \<lambda>h c. let n = min 32 (signalled h - taken h) in
     case c of Vb (Ibv_poll_cq cq k) \<Rightarrow> (int (min k n), replicate (min k n) lab_wc) | _ \<Rightarrow> (0, [])\<rparr>"

lemma bench_cq_env_honest: "honest_cq bench_cq_env"
  by (auto simp: honest_cq_def bench_cq_env_def Let_def lab_wc_def zero_wc_def)


lemma bench_cq_env_simps:
  "env_int bench_cq_env h c = lab_int h c"
  "env_wc bench_cq_env h (Vb (Ibv_poll_cq cq 32)) =
     (int (min 32 (signalled h - taken h)), replicate (min 32 (signalled h - taken h)) lab_wc)"
  by (simp_all add: bench_cq_env_def bench_lab_def lab_env_def Let_def)

definition bench_lab_cfg :: bench_config where "bench_lab_cfg = bench_defaults\<lparr>bc_sq_depth := 128\<rparr>"

definition bench_lab_post :: "bool \<Rightarrow> event" where
  "bench_lab_post sg = (case bench_request bench_lab_cfg (bench_lab_ctx 4096 17) 0 sg of
     (p, w) \<Rightarrow> (Vb (Ibv_post_send p w), RInt 0))"

lemma bench_lab_post_tallies:
  "signalled (bench_lab_post sg # es) = (if sg then 1 else 0) + signalled es" "taken (bench_lab_post sg # es) = taken es"
  "polled_by (bench_lab_post sg) = []"
  by (simp_all add: signalled_def taken_def bench_lab_post_def bench_request_def bench_write_def)

lemma bench_lab_writes:
  "post_rdma_write bench_lab_cfg (bench_lab_ctx 4096 17) 0 sg bench_cq_env h = (Ret 0, [bench_lab_post sg])"
  by (simp add: lab_bench bench_cq_env_simps bench_lab_post_def bench_request_def bench_lab_cfg_def bench_defaults_def
      bench_lab_ctx_def BENCH_MSG_SIZE_def)

lemma bench_lab_depth: "bc_sq_depth bench_lab_cfg = 128"
  by (simp add: bench_lab_cfg_def)

lemma bench_quiet_round:
  assumes "(if k mod 32 = 31 then out + 1 else out) < 2"
  shows "measure_round fuel bench_lab_cfg (bench_lab_ctx 4096 17) (i, 0) (k, out) bench_cq_env h =
    (Ret (Suc k, if k mod 32 = 31 then out + 1 else out), [bench_lab_post (k mod 32 = 31)])"
  using assms
  by (cases "k mod 32 = 31") (simp_all add: measure_round_def SIGNAL_INTERVAL_def run_defs bench_lab_writes bench_lab_depth Let_def)

lemma bench_wait_round:
  assumes "k mod 32 = 31" "signalled h = 1" "taken h = 0"
  shows "measure_round (Suc 0) bench_lab_cfg (bench_lab_ctx 4096 17) (i, 0) (k, 1) bench_cq_env h =
    (Ret (Suc k, 1), [bench_lab_post True, (Vb (Ibv_poll_cq 4 32), RWc 2 [lab_wc, lab_wc])])"
proof -
  have "bx_cq (bench_lab_ctx 4096 17) = 4" by (simp add: bench_lab_ctx_def)
  then show ?thesis
    by (simp add: measure_round_def SIGNAL_INTERVAL_def run_defs bench_lab_writes bench_lab_depth
        poll_completions.simps [of "Suc 0"] poll_completions.simps [of 0] bench_cq_env_simps bench_lab_post_tallies
        assms lab_wc_def zero_wc_def numeral_2_eq_2)
qed

lemma bench_lab_starves:
  "\<exists>es. thread (measure_round (Suc 0) bench_lab_cfg (bench_lab_ctx 4096 17)) (rounds 64 1) (0, 0) bench_cq_env [] =
     (Ret (64, 1), es) \<and> poll_counts es = [2]"
proof -
  have u: "rounds 64 1 = map (\<lambda>i. (i, 0)) [0..<64]" by (simp add: rounds_def upt_rec)
  show ?thesis
    unfolding u
    by (simp add: upt_rec bench_quiet_round bench_wait_round run_defs bench_lab_post_tallies)
qed

lemma bench_drain_starves_witness:
  "\<exists>es. thread (measure_round (Suc 0) bench_lab_cfg (bench_lab_ctx 4096 17)) (rounds 64 1) (0, 0) bench_cq_env [] =
     (Ret (64, 1), es) \<and> fst (drain 100 (bench_lab_ctx 4096 17) 1 bench_cq_env es) = Hang"
proof -
  obtain es where r: "thread (measure_round (Suc 0) bench_lab_cfg (bench_lab_ctx 4096 17)) (rounds 64 1) (0, 0) bench_cq_env [] =
     (Ret (64, 1), es)" "poll_counts es = [2]" using bench_lab_starves by blast
  from bench_drain_starves [OF bench_cq_env_honest _ r(1), of 2 100] r show ?thesis by simp
qed

text \<open>A client with two queue pairs, from start to end.\<close>

lemma bench_lab_run:
  "\<exists>es. bench_main 0 [(CHR ''q'', ''2''), (CHR ''n'', ''1''), (CHR ''w'', ''1'')] [''srv'']
     (bench_lab (conn_info_bytes Little zero_conn_info @ [82])) [] = (Ret 0, es)"
proof -
  have u: "[0..<2] = [0, 1 :: nat]" by (simp add: upt_rec)
  have m: "bench_make_qps cfg pd cq 2 = bench_make_qps cfg pd cq (Suc (Suc 0))" for cfg pd cq
    by (simp only: numeral_2_eq_2)
  show ?thesis
    by (simp add: lab_bench m bench_main_def bench_role_def bench_defaults_def bench_session_def bench_init_ctx_def
      bench_open_device_def bench_local_info_def bench_dial_def bench_resolve_def bench_work_def read_sync_def
      bench_cleanup_def destroy_slot_def unless_null_def bench_qp_attr_def BENCH_MSG_SIZE_def BENCH_SQ_DEPTH_def
      bench_buf_size_def to_size_def u)
qed

lemma bench_main_contract_witness:
  "\<exists>es. bench_main 0 [(CHR ''q'', ''2''), (CHR ''n'', ''1''), (CHR ''w'', ''1'')] [''srv'']
     (bench_lab (conn_info_bytes Little zero_conn_info @ [82])) [] = (Ret 0, es) \<and> clean es \<and> leftover es = []"
proof -
  obtain es where r: "bench_main 0 [(CHR ''q'', ''2''), (CHR ''n'', ''1''), (CHR ''w'', ''1'')] [''srv'']
     (bench_lab (conn_info_bytes Little zero_conn_info @ [82])) [] = (Ret 0, es)" using bench_lab_run by blast
  have "bench_options bench_defaults [(CHR ''q'', ''2''), (CHR ''n'', ''1''), (CHR ''w'', ''1'')] = Inr cfg \<Longrightarrow>
      0 \<le> bc_msg_size cfg" for cfg
    by (auto simp: bench_defaults_def BENCH_MSG_SIZE_def)
  from bench_main_contract [OF this r] r show ?thesis by blast
qed

end
