(* ===== verification/Spec2Isabelle.thy ===== *)
theory Spec2Isabelle
  imports Rc_Pingpong Rdma_Write Rdma_Read Ud_Send Hello_Verbs Srq_Example Cm_Client Rdma_Bench
begin

text \<open>
  Verification development for the C programs of the RDMA book, the directory \<^verbatim>\<open>src/code\<close> of the
  repository.

  \<^bold>\<open>The programs.\<close>  A small library, \<^verbatim>\<open>common/rdma_common.c\<close> and \<^verbatim>\<open>.h\<close>, gives the chapter 9 programs a
  TCP side channel, the exchange of connection data over it, and helpers around libibverbs.
  \<^verbatim>\<open>rc_pingpong\<close>, \<^verbatim>\<open>rdma_write\<close>, \<^verbatim>\<open>rdma_read\<close> and \<^verbatim>\<open>ud_send\<close> use it; \<^verbatim>\<open>hello_verbs\<close> (chapter 8) prints what a
  device can do; \<^verbatim>\<open>cm_server\<close> and \<^verbatim>\<open>cm_client\<close> (chapter 10) connect through librdmacm; \<^verbatim>\<open>srq_example\<close>
  (chapter 11) shares one receive queue among four queue pairs and refills it from a second thread;
  \<^verbatim>\<open>rdma_bench\<close> (chapter 12) measures RDMA writes.  Each program runs in two processes that meet over
  TCP or librdmacm, except \<^verbatim>\<open>hello_verbs\<close> and \<^verbatim>\<open>srq_example\<close>, which is connected to itself.

  \<^bold>\<open>How C is modelled\<close> (theory \<open>Effects\<close>).  A C function is a function of an environment, a parameter
  that stands for everything outside the repository, and of the calls made so far with their answers.
  Its result is how it ended (\<open>Ret\<close>, \<open>Exit\<close> for \<^verbatim>\<open>exit\<close>, \<open>UB\<close> for an access without meaning in C, \<open>Hang\<close>)
  and the calls it made itself.  Answers may depend on the whole history, so what is proved for every
  environment holds for every behaviour of libibverbs, librdmacm, the kernel and the network.
  Machine integers are words of their width; a C \<^verbatim>\<open>int\<close> is an \<open>int\<close>, whose conversions to unsigned
  types are written out, and whose overflow is \<open>UB\<close> where options can make a product overflow.
  Structures are records, options of \<^verbatim>\<open>getopt\<close> a list of letters with their arguments.  A loop that may
  run forever takes \<open>fuel\<close>, the number of its rounds, and ends in \<open>Hang\<close> when that is used up: the
  theorems that say a call returns state how much fuel is enough (\<open>transfers_return\<close>: the
  calls until interruptions end plus the bytes to move; \<open>poll_completion_ends\<close>: the empty polls and one more),
  and safety theorems hold for every fuel.

  \<^bold>\<open>The contract\<close> (theories \<open>Verbs\<close>, \<open>Contract\<close>, \<open>Sound\<close>).  \<open>Verbs\<close> has the structures and calls of the
  libraries with the field names of the source.  \<open>Contract\<close> is the abstract specification: a monitor
  over the calls of a run whose state is the ledger of live resources.  It objects to the use of a
  resource that is not live, to the destruction of one that another needs, to a transition the queue
  pair state machine of chapter 7 does not have or whose required attributes are missing, to posts in
  the wrong state or outside a memory region, to memory accesses outside live blocks, and to librdmacm
  calls in the wrong phase of an identifier.  \<open>keeps v m L Q\<close> says that the program \<open>m\<close> never
  breaks it from the ledger \<open>L\<close>; the rules are proved call by call and collected in
  \<open>obeys_rules\<close>.  \<open>Sound\<close> shows that every call keeps a ledger sound: no key twice, no dangling
  need, no overlapping blocks.  \<open>clean es\<close> and \<open>leftover es\<close> are what a theorem about a whole program
  says of its calls.

  \<^bold>\<open>The components.\<close>
  \<^item> \<open>Cbytes\<close>: byte order, \<^verbatim>\<open>snprintf\<close>, \<^verbatim>\<open>strncpy\<close>, \<^verbatim>\<open>atoi\<close>.  \<open>Scenario\<close>: a concrete environment for witnesses.
  \<^item> \<open>Common_Tcp\<close>, \<open>Common_Exchange\<close>, \<open>Common_Device\<close>: \<^verbatim>\<open>common/rdma_common.h\<close> and \<^verbatim>\<open>.c\<close>, function by
    function.  The locale \<open>wire\<close> (a structure with an image of fixed size that is read back) carries
    the rendezvous of two processes over one connection; it is interpreted for the structures of the
    common library, of \<^verbatim>\<open>rdma_read\<close>, \<^verbatim>\<open>ud_send\<close> and \<^verbatim>\<open>rdma_bench\<close>.
  \<^item> \<open>Rc_Common\<close>: what the chapter 9 programs repeat.  The locale \<open>ladder\<close> (three functions that move a
    queue pair from RESET to RTS) carries the proof that the walk is legal; it is interpreted for
    every program that moves queue pairs by hand.  The monitor \<open>flow\<close> bounds outstanding requests.
  \<^item> \<open>Rc_Pingpong\<close>, \<open>Rdma_Write\<close>, \<open>Rdma_Read\<close>, \<open>Ud_Send\<close>, \<open>Hello_Verbs\<close>: the programs of their names, from
    the option loop to the cleanup.  \<open>Ownership\<close> is the monitor of who owns a receive buffer.
  \<^item> \<open>Cm_Common\<close>, \<open>Cm_Server\<close>, \<open>Cm_Client\<close>: the event loops over librdmacm with their handlers.  The
    locale \<open>starter\<close> is the call that starts a connection, \<^verbatim>\<open>rdma_accept\<close> on one side and
    \<^verbatim>\<open>rdma_connect\<close> on the other.
  \<^item> \<open>Qp_Array\<close>: arrays of queue pairs in the ledger; used by \<open>Srq_Example\<close> and \<open>Rdma_Bench\<close>.
  \<^item> \<open>Srq_Example\<close>: initialisation with its error returns, the demonstration, the thread that reacts to
    the limit event, and the cleanup of partly built state.
  \<^item> \<open>Rdma_Bench\<close>: the whole benchmark; times are nanoseconds and rates the counts they divide.

  \<^bold>\<open>What is proved.\<close>  For every program a contract theorem (\<open>pp_main_contract\<close>, \<open>rw_main_contract\<close>,
  \<open>rr_main_contract\<close>, \<open>ud_main_contract\<close>, \<open>hv_main_contract\<close>, \<open>cs_main_contract\<close>, \<open>cc_main_contract\<close>,
  \<open>srq_main_contract\<close>, \<open>bench_main_contract\<close>): no run breaks the contract and a normal end leaves no
  resource, with the conditions and the exceptions the code has.  For two processes: the data each
  side announced arrives (\<open>exchange_qp_info_rendezvous\<close>), the queue pairs end up as two ends of one
  connection (\<open>pp_peers_connect\<close>, \<open>bench_peers_meet\<close>), and remote operations land in the peer's region
  (\<open>rw_write_lands\<close>, \<open>rr_reads_land\<close>, \<open>bench_writes_land\<close>, \<open>ud_datagrams_reach\<close>).  For the order of work: what is posted and
  polled, in which order and how often, and who owns a buffer meanwhile (\<open>pp_loop_alternates\<close>,
  \<open>rw_client_order\<close>, \<open>rr_client_two_phases\<close>, \<open>ud_receiver_ownership\<close>, \<open>srq_main_owner\<close>, \<open>cm_start_armed\<close>,
  \<open>bench_posts\<close>).  For the library: complete transfers, their termination, and the choice of a device.  This
  theory adds what holds of all option loops (\<open>options_typed\<close>).
  Two theorems state behaviour that is a defect: \<open>bench_warmup_dies\<close> and \<open>bench_drain_starves\<close>.

  \<^bold>\<open>Not modelled.\<close>  Messages to the user, except where they read memory or where what is printed is the
  purpose (\<open>print_qp_info\<close>, \<open>hello_verbs\<close>).  Floating point in \<^verbatim>\<open>rc_pingpong\<close> and \<^verbatim>\<open>rdma_bench\<close>.  The
  interleaving of the two threads of \<^verbatim>\<open>srq_example\<close> call by call: each is a program of its own, proved
  for every environment, and what the other does shows only in the answers.  Usage texts and the
  declarations of \<^verbatim>\<open>rdma_common.h\<close>.  The chapters of the book and the build files.
\<close>

section \<open>Properties of all programs\<close>

text \<open>The values of a C \<^verbatim>\<open>int\<close>, and configurations whose numbers are such values and whose role is decided.\<close>

definition c_int :: "int \<Rightarrow> bool" where
  "c_int x \<longleftrightarrow> - (2 ^ 31) \<le> x \<and> x < 2 ^ 31"

definition args_typed :: "args \<Rightarrow> bool" where
  "args_typed a \<longleftrightarrow> role_ok a \<and>
     c_int (tcp_port a) \<and> c_int (num_iters a) \<and> c_int (msg_size a) \<and> c_int (ib_port a) \<and> c_int (gid_index a)"

definition bench_typed :: "bench_config \<Rightarrow> bool" where
  "bench_typed c \<longleftrightarrow>
     c_int (bc_msg_size c) \<and> c_int (bc_iterations c) \<and> c_int (bc_warmup c) \<and> c_int (bc_qp_count c) \<and>
     c_int (bc_sq_depth c) \<and> c_int (bc_ib_port c) \<and> c_int (bc_gid_index c) \<and> c_int (bc_tcp_port c)"

lemma c_int_atoi: "c_int (atoi s)"
  using atoi_range by (simp add: c_int_def)

lemma options_keep_typed:
  assumes "one \<in> {pp_option, rw_option, rr_option, ud_option}" "args_typed a" "one a c arg = Some a'"
  shows "args_typed a'"
  using assms c_int_atoi [of arg]
  by (auto simp: args_typed_def role_ok_def pp_option_def rw_option_def rr_option_def ud_option_def split: if_splits)

lemma defaults_typed:
  "args_typed pp_defaults" "args_typed rw_defaults" "args_typed rr_defaults" "args_typed ud_defaults" "bench_typed bench_defaults"
  by (simp_all add: args_typed_def bench_typed_def role_ok_def c_int_def pp_defaults_def rw_defaults_def rr_defaults_def
    ud_defaults_def bench_defaults_def DEFAULT_PORT_def DEFAULT_NUM_ITERS_def DEFAULT_MSG_SIZE_def DEFAULT_IB_PORT_def
    DEFAULT_GID_INDEX_def DEFAULT_MSGS_def BENCH_MSG_SIZE_def BENCH_ITERS_def BENCH_WARMUP_def BENCH_QP_COUNT_def
    BENCH_SQ_DEPTH_def BENCH_IB_PORT_def BENCH_GID_INDEX_def BENCH_PORT_def)

lemma bench_options_server: "bench_options c opts = Inr cfg \<Longrightarrow> bc_is_server c = 1 \<Longrightarrow> bc_is_server cfg = 1"
  by (induction c opts rule: bench_options.induct) (auto split: if_splits)

lemma bench_options_typed: "bench_options c opts = Inr cfg \<Longrightarrow> bench_typed c \<Longrightarrow> bench_typed cfg"
proof (induction c opts rule: bench_options.induct)
  case (2 c ch t opts)
  then show ?case using c_int_atoi [of t] by (auto simp: bench_typed_def split: if_splits)
qed simp



end
